(* ===== verification/Ark_Prelude.thy ===== *)
theory Ark_Prelude
  imports Main "HOL-Library.Word"
begin

text \<open>
  Shared types, failure values and lemmas of the arkio development.

  \<^item> the machine types of the library on its only platform, 64-bit Linux: \<open>size_t\<close> and
    pointers are 64-bit words, so that unsigned arithmetic wraps as in C++; \<open>off_t\<close> and
    \<open>ssize_t\<close> are mathematical integers whose 64-bit range is checked where the source adds
    to them (signed overflow is undefined in C++);
  \<^item> \<open>failure\<close>: the ways a run of the program can leave defined behaviour or end the
    process. An operation that can do so returns \<open>failure + 'a\<close>;
  \<^item> \<open>mem\<close>: byte-addressed memory, the addresses of a contiguous range, and the stores of
    a byte string along a list of addresses;
  \<^item> the collections \<open>ark_word\<close> (unsigned word arithmetic as arithmetic on \<open>nat\<close>) and
    \<open>ark_range\<close> (address ranges under \<open>take\<close> and \<open>drop\<close>).
\<close>

named_theorems ark_word
named_theorems ark_range

section \<open>Machine types\<close>

type_synonym size_t = "64 word"
type_synonym addr = "64 word"
type_synonym byte = "8 word"
type_synonym off_t = int
type_synonym ssize_t = int
type_synonym mem = "addr \<Rightarrow> byte"

abbreviation (input) nullptr :: addr where
  "nullptr \<equiv> 0"

definition off_t_in_range :: "int \<Rightarrow> bool" where
  "off_t_in_range x \<longleftrightarrow> - (2 ^ 63) \<le> x \<and> x < 2 ^ 63"

section \<open>Failures\<close>

datatype failure =
    Contract_violation \<comment> \<open>a GSL \<open>Expects\<close> or \<open>Ensures\<close> that does not hold: the process terminates\<close>
  | Signed_overflow \<comment> \<open>signed integer overflow, undefined\<close>
  | Past_the_end \<comment> \<open>an end iterator is dereferenced, undefined\<close>
  | Aborted \<comment> \<open>\<open>std::abort\<close>\<close>
  | Self_deadlock \<comment> \<open>a thread locks a \<open>std::mutex\<close> it already owns\<close>
  | Empty_call \<comment> \<open>a moved-from \<open>unique_function\<close> is called\<close>
  | No_value \<comment> \<open>the value of a failed \<open>result\<close> or of an empty \<open>optional\<close> is taken\<close>
  | Dangling_reference \<comment> \<open>an object is used through a reference after its lifetime\<close>
  | Null_deref \<comment> \<open>a null pointer, an empty \<open>unique_ptr\<close> or an empty coroutine handle is used\<close>
  | Out_of_fuel \<comment> \<open>not a behaviour of the program: the bound on nested resumptions of the model is reached\<close>

lemma map_sum_eq_Inr: "map_sum id f x = Inr y \<longleftrightarrow> (\<exists>z. x = Inr z \<and> y = f z)"
  by (cases x) auto

section \<open>Unsigned arithmetic\<close>

lemma unat_min [ark_word]: "unat (min a b) = min (unat a) (unat (b :: 'a :: len word))"
  by (simp add: min_def word_le_nat_alt)

lemmas ark_word_basic [ark_word] =
  word_le_nat_alt word_less_nat_alt unat_sub

lemma unat_eq_zero_iff [simp]: "unat x = 0 \<longleftrightarrow> x = (0 :: 'a :: len word)"
  by (simp add: unat_eq_zero)

lemma unat_less_64: "unat (x :: size_t) < 2 ^ 64"
  using unsigned_less [of x] by simp

lemma unat_add_no_wrap: "unat a + unat b < 2 ^ 64 \<Longrightarrow> unat (a + b) = unat a + unat (b :: size_t)"
  by (simp add: unat_word_ariths)

lemma unat_word_of_int_nonneg:
  "0 \<le> r \<Longrightarrow> r < 2 ^ 64 \<Longrightarrow> unat (word_of_int r :: size_t) = nat r"
  by (simp add: unat_eq_nat_uint uint_word_of_int)

section \<open>Address ranges\<close>

definition addr_range :: "addr \<Rightarrow> nat \<Rightarrow> addr list" where
  "addr_range a n = map (\<lambda>i. a + of_nat i) [0..<n]"

lemma length_addr_range [simp]: "length (addr_range a n) = n"
  by (simp add: addr_range_def)

lemma addr_range_0 [simp]: "addr_range a 0 = []"
  by (simp add: addr_range_def)

lemma addr_range_eq_Nil [simp]: "addr_range a n = [] \<longleftrightarrow> n = 0"
  by (simp add: addr_range_def)

lemma take_addr_range [ark_range]: "take k (addr_range a n) = addr_range a (min k n)"
  by (rule nth_equalityI) (simp_all add: addr_range_def min.commute)

lemma drop_addr_range [ark_range]: "drop k (addr_range a n) = addr_range (a + of_nat k) (n - k)"
  by (rule nth_equalityI) (auto simp: addr_range_def algebra_simps)

lemma addr_range_append: "addr_range a (m + n) = addr_range a m @ addr_range (a + of_nat m) n"
  by (rule nth_equalityI) (auto simp: addr_range_def nth_append algebra_simps)

lemma distinct_addr_range: "n \<le> 2 ^ 64 \<Longrightarrow> distinct (addr_range a n)"
proof -
  have "x = y" if "(of_nat x :: addr) = of_nat y" "x < 2 ^ 64" "y < 2 ^ 64" for x y
  proof -
    have "unat (of_nat x :: addr) = unat (of_nat y :: addr)" using that(1) by simp
    then show ?thesis using that(2,3) by (simp add: unat_of_nat)
  qed
  then show "n \<le> 2 ^ 64 \<Longrightarrow> distinct (addr_range a n)"
    by (auto simp: addr_range_def distinct_map inj_on_def)
qed

section \<open>Stores\<close>

fun store :: "mem \<Rightarrow> addr list \<Rightarrow> byte list \<Rightarrow> mem" where
  "store m (a # as) (v # vs) = store (m(a := v)) as vs"
| "store m _ _ = m"

lemma store_Nil [simp]: "store m [] vs = m" "store m as [] = m"
  by (cases vs; simp) (cases as; simp)

lemma store_append:
  "length as = length vs \<Longrightarrow> store m (as @ as') (vs @ vs') = store (store m as vs) as' vs'"
  by (induction m as vs rule: store.induct) auto

lemma store_other: "a \<notin> set as \<Longrightarrow> store m as vs a = m a"
  by (induction m as vs rule: store.induct) auto

lemma map_store_other: "set as \<inter> set bs = {} \<Longrightarrow> map (store m as vs) bs = map m bs"
  by (intro map_cong refl store_other) blast

lemma load_store:
  "distinct as \<Longrightarrow> length as = length vs \<Longrightarrow> map (store m as vs) as = vs"
  by (induction m as vs rule: store.induct) (auto simp: store_other)

text \<open>Two consecutive windows of one address list are one store.\<close>

lemma store_windows:
  assumes "length xs = i" and "length ys = j" and "i + j \<le> length A"
  shows "store (store m (take i A) xs) (take j (drop i A)) ys = store m (take (i + j) A) (xs @ ys)"
  using assms by (simp add: take_add store_append [symmetric])

text \<open>The part of memory at the addresses \<open>A\<close>.\<close>

definition mem_on :: "addr set \<Rightarrow> mem \<Rightarrow> mem" where
  "mem_on A m = (\<lambda>a. if a \<in> A then m a else 0)"

lemma mem_on_UNIV [simp]: "mem_on UNIV m = m"
  by (simp add: mem_on_def)

lemma mem_on_eq_iff: "mem_on A m = mem_on A m' \<longleftrightarrow> (\<forall>a \<in> A. m a = m' a)"
  by (auto simp: mem_on_def fun_eq_iff)

lemma mem_on_store: "set as \<subseteq> A \<Longrightarrow> mem_on A (store m as vs) = store (mem_on A m) as vs"
proof (induction m as vs rule: store.induct)
  case (1 m a as v vs)
  then have "mem_on A (m(a := v)) = (mem_on A m)(a := v)" by (auto simp: mem_on_def fun_eq_iff)
  with 1 show ?case by (simp add: fun_upd_def)
qed simp_all

lemma map_mem_on: "set as \<subseteq> A \<Longrightarrow> map (mem_on A m) as = map m as"
  by (auto simp: mem_on_def)

definition memcpy :: "mem \<Rightarrow> addr \<Rightarrow> addr \<Rightarrow> nat \<Rightarrow> mem" where
  "memcpy m dst src n = store m (addr_range dst n) (map m (addr_range src n))"

end
