(* ===== verification/Ark_Bindings.thy ===== *)
theory Ark_Bindings
  imports Ark_Prelude
begin

text \<open>
  \<open>include/ark/bindings/bindings.hpp\<close> and \<open>clinux.hpp\<close>: error codes, \<open>result\<close>, and the
  system calls the library binds.

  A \<open>result<T>\<close> of the outcome library is the sum \<open>error_code + 'a\<close>; the \<open>Try\<close> macros
  are a case distinction that returns the error. The system calls are not part of the
  library: they are the fields of the record \<open>clinux\<close>, a parameter of every definition
  that calls the kernel, each a function of the state \<open>'w\<close> of the world (kernel objects and
  process memory). A call returns the C return value and the new world, from which
  \<open>k_errno\<close> reads the error number.
\<close>

section \<open>Error codes\<close>

datatype error_category = Generic_category | System_category

record error_code =
  ec_value :: int
  ec_category :: error_category

type_synonym 'a result = "error_code + 'a"

definition as_ec :: "int \<Rightarrow> error_code" where
  "as_ec errc_int = \<lparr>ec_value = errc_int, ec_category = Generic_category\<rparr>"

text \<open>A default constructed \<open>error_code\<close> and the conversion of one to \<open>bool\<close>.\<close>

definition no_error :: error_code where
  "no_error = \<lparr>ec_value = 0, ec_category = System_category\<rparr>"

definition is_error :: "error_code \<Rightarrow> bool" where
  "is_error ec \<longleftrightarrow> ec_value ec \<noteq> 0"

text \<open>The Linux values of the constants the library names.\<close>

abbreviation (input) EINVAL :: int where "EINVAL \<equiv> 22"
abbreviation (input) EAFNOSUPPORT :: int where "EAFNOSUPPORT \<equiv> 97"
abbreviation (input) ENOBUFS :: int where "ENOBUFS \<equiv> 105"

section \<open>System calls\<close>

record iovec =
  iov_base :: addr
  iov_len :: size_t

record 'w clinux =
  k_errno :: "'w \<Rightarrow> int"
  k_close :: "int \<Rightarrow> 'w \<Rightarrow> int \<times> 'w"
  k_readv :: "int \<Rightarrow> iovec list \<Rightarrow> 'w \<Rightarrow> ssize_t \<times> 'w"
  k_writev :: "int \<Rightarrow> iovec list \<Rightarrow> 'w \<Rightarrow> ssize_t \<times> 'w"
  k_preadv2 :: "int \<Rightarrow> iovec list \<Rightarrow> off_t \<Rightarrow> int \<Rightarrow> 'w \<Rightarrow> ssize_t \<times> 'w"
  k_pwritev2 :: "int \<Rightarrow> iovec list \<Rightarrow> off_t \<Rightarrow> int \<Rightarrow> 'w \<Rightarrow> ssize_t \<times> 'w"
  k_eventfd :: "int \<Rightarrow> int \<Rightarrow> 'w \<Rightarrow> int \<times> 'w"
  k_read_discard :: "int \<Rightarrow> size_t \<Rightarrow> 'w \<Rightarrow> ssize_t \<times> 'w"
  k_write_bytes :: "int \<Rightarrow> byte list \<Rightarrow> 'w \<Rightarrow> ssize_t \<times> 'w"
  k_memfd_create :: "string \<Rightarrow> int \<Rightarrow> 'w \<Rightarrow> int \<times> 'w"
  k_open :: "string \<Rightarrow> int \<Rightarrow> int \<Rightarrow> 'w \<Rightarrow> int \<times> 'w"
  k_mkostemp :: "string \<Rightarrow> int \<Rightarrow> 'w \<Rightarrow> int \<times> string \<times> 'w"
  k_pipe2 :: "int \<Rightarrow> 'w \<Rightarrow> int \<times> int \<times> int \<times> 'w"

text \<open>A kernel in which every call fails, the base of the closed instances.\<close>

definition failing_clinux :: "'w clinux" where
  "failing_clinux =
     \<lparr>k_errno = (\<lambda>w. EINVAL), k_close = (\<lambda>n w. (- 1, w)),
      k_readv = (\<lambda>n iov w. (- 1, w)), k_writev = (\<lambda>n iov w. (- 1, w)),
      k_preadv2 = (\<lambda>n iov off flags w. (- 1, w)), k_pwritev2 = (\<lambda>n iov off flags w. (- 1, w)),
      k_eventfd = (\<lambda>count flags w. (- 1, w)), k_read_discard = (\<lambda>n size w. (- 1, w)),
      k_write_bytes = (\<lambda>n bs w. (- 1, w)), k_memfd_create = (\<lambda>name flags w. (- 1, w)),
      k_open = (\<lambda>path flags mode w. (- 1, w)), k_mkostemp = (\<lambda>templ flags w. (- 1, templ, w)),
      k_pipe2 = (\<lambda>flags w. (- 1, 0, 0, w))\<rparr>"

definition errno_ec :: "('w, 'z) clinux_scheme \<Rightarrow> 'w \<Rightarrow> error_code" where
  "errno_ec k w = as_ec (k_errno k w)"

section \<open>The bytes of an iovec array\<close>

definition iov_addrs :: "iovec list \<Rightarrow> addr list" where
  "iov_addrs iov = concat (map (\<lambda>v. addr_range (iov_base v) (unat (iov_len v))) iov)"

lemma iov_addrs_simps [simp]:
  "iov_addrs [] = []"
  "iov_addrs (v # iov) = addr_range (iov_base v) (unat (iov_len v)) @ iov_addrs iov"
  by (simp_all add: iov_addrs_def)

end
