(* ===== verification/Ark_Owner.thy ===== *)
theory Ark_Owner
  imports Ark_Prelude
begin

text \<open>
  Unique ownership. Several classes of the library hold a resource through a pointer that is
  empty after a move, and give the resource back in their destructor: \<open>fd\<close> and \<open>seekable_fd\<close> close a
  descriptor, \<open>owning_cqe_ref\<close> marks a completion as seen, \<open>async_context\<close> tears a ring down. The locale
  is their common contract; each class interprets it in its own theory.
\<close>

definition give_back :: "('r \<Rightarrow> 'w \<Rightarrow> 'w) \<Rightarrow> 'r option \<Rightarrow> 'w \<Rightarrow> 'w" where
  "give_back release r w = (case r of None \<Rightarrow> w | Some x \<Rightarrow> release x w)"

lemma give_back_simps [simp]:
  "give_back release None w = w" "give_back release (Some x) w = release x w"
  by (simp_all add: give_back_def)

text \<open>
  \<open>move\<close> gives the new object and the one moved from; \<open>assign this other\<close> the target, the source and the world
  after a move assignment.
\<close>

locale unique_owner =
  fixes owned :: "'h \<Rightarrow> 'r option"
    and move :: "'h \<Rightarrow> 'h \<times> 'h"
    and assign :: "'h \<Rightarrow> 'h \<Rightarrow> 'w \<Rightarrow> 'h \<times> 'h \<times> 'w"
    and destroy :: "'h \<Rightarrow> 'w \<Rightarrow> 'w"
    and release :: "'r \<Rightarrow> 'w \<Rightarrow> 'w"
  assumes move_owned: "move h = (g, h') \<Longrightarrow> owned g = owned h \<and> owned h' = None"
    and assign_owned: "assign t h w = (t', h', w') \<Longrightarrow> owned t' = owned h \<and> owned h' = None \<and> w' = give_back release (owned t) w"
    and destroy_owned: "destroy h w = give_back release (owned h) w"
begin

lemma moved_destroyed_once:
  assumes "move h = (g, h')"
  shows "destroy h' (destroy g w) = destroy h w" "destroy g (destroy h' w) = destroy h w"
  using move_owned [OF assms] by (simp_all add: destroy_owned)

lemma assigned_destroyed_once:
  assumes "assign t h w = (t', h', w')"
  shows "destroy h' (destroy t' w') = destroy h (destroy t w)" "destroy t' (destroy h' w') = destroy h (destroy t w)"
  using assign_owned [OF assms] by (simp_all add: destroy_owned)

end

end
