(* ===== verification/Ark_Uring.thy ===== *)
theory Ark_Uring
  imports Ark_Bindings Ark_Owner
begin

text \<open>
  \<open>include/ark/async/io_uring/io_uring.hpp\<close>: the wrappers of liburing's submission and
  completion entries and of the ring itself.

  liburing is not part of the library: its functions are the fields of the record
  \<open>liburing\<close>, a parameter of the definitions. Entries in the shared rings are identified by
  numbers that stand for the pointers liburing hands out. An \<open>owning_cqe_ref\<close> marks its
  entry as seen when it is destroyed or assigned to; an \<open>unowning_cqe_ref\<close> only reads.
\<close>

type_synonym token_t = "64 word"

section \<open>Submission queue entries\<close>

datatype sqe_op =
    Prep_nop
  | Prep_read int addr "32 word" off_t
  | Prep_write int addr "32 word" off_t
  | Prep_readv int "iovec list" "32 word" off_t
  | Prep_writev int "iovec list" "32 word" off_t
  | Prep_connect int addr "32 word"
  | Prep_accept int addr addr int
  | Prep_poll_add int int

section \<open>liburing\<close>

record 'w liburing =
  lu_queue_init :: "nat \<Rightarrow> nat \<Rightarrow> 'w \<Rightarrow> int \<times> 'w"
  lu_queue_exit :: "'w \<Rightarrow> 'w"
  lu_get_sqe :: "'w \<Rightarrow> nat option \<times> 'w"
  lu_prep :: "nat \<Rightarrow> sqe_op \<Rightarrow> 'w \<Rightarrow> 'w"
  lu_sqe_set_data :: "nat \<Rightarrow> token_t \<Rightarrow> 'w \<Rightarrow> 'w"
  lu_sqe_set_flags :: "nat \<Rightarrow> nat \<Rightarrow> 'w \<Rightarrow> 'w"
  lu_submit :: "'w \<Rightarrow> int \<times> 'w"
  lu_wait_cqe :: "'w \<Rightarrow> int \<times> 'w"
  lu_peek_batch_cqe :: "nat \<Rightarrow> 'w \<Rightarrow> nat list \<times> 'w"
  lu_cqe_get_data :: "nat \<Rightarrow> 'w \<Rightarrow> token_t"
  lu_cqe_res :: "nat \<Rightarrow> 'w \<Rightarrow> int"
  lu_cqe_seen :: "nat \<Rightarrow> 'w \<Rightarrow> 'w"

section \<open>The classes sqe_ref and cqe_ref\<close>

text \<open>All \<open>prep_*\<close> members forward their arguments to the liburing function of the same name.\<close>

definition sqe_prep :: "'w liburing \<Rightarrow> nat \<Rightarrow> sqe_op \<Rightarrow> 'w \<Rightarrow> 'w" where
  "sqe_prep lu sqe op w = lu_prep lu sqe op w"

definition sqe_set_data :: "'w liburing \<Rightarrow> nat \<Rightarrow> token_t \<Rightarrow> 'w \<Rightarrow> 'w" where
  "sqe_set_data lu sqe data w = lu_sqe_set_data lu sqe data w"

definition sqe_set_flags :: "'w liburing \<Rightarrow> nat \<Rightarrow> nat \<Rightarrow> 'w \<Rightarrow> 'w" where
  "sqe_set_flags lu sqe flags w = lu_sqe_set_flags lu sqe flags w"

text \<open>The pointer of a \<open>cqe_ref\<close>, \<open>None\<close> for null.\<close>

type_synonym cqe_ptr = "nat option"

definition cqe_seen :: "'w liburing \<Rightarrow> cqe_ptr \<Rightarrow> 'w \<Rightarrow> 'w" where
  "cqe_seen lu cqe w = (case cqe of None \<Rightarrow> w | Some c \<Rightarrow> lu_cqe_seen lu c w)"

text \<open>
  Move construction and move assignment of owning references: the new value of the target,
  the emptied source, and the world. The destructor is \<open>cqe_seen\<close>.
\<close>

definition owning_move :: "cqe_ptr \<Rightarrow> cqe_ptr \<times> cqe_ptr" where
  "owning_move other = (other, None)"

definition owning_assign :: "'w liburing \<Rightarrow> cqe_ptr \<Rightarrow> cqe_ptr \<Rightarrow> 'w \<Rightarrow> cqe_ptr \<times> cqe_ptr \<times> 'w" where
  "owning_assign lu this other w = (let w' = cqe_seen lu this w in (other, None, w'))"

definition unowning_of :: "cqe_ptr \<Rightarrow> cqe_ptr" where
  "unowning_of from_cqe = from_cqe"

text \<open>Assigning to a reference that does not own its entry marks nothing.\<close>

definition unowning_assign :: "cqe_ptr \<Rightarrow> cqe_ptr \<Rightarrow> cqe_ptr" where
  "unowning_assign this other = other"

definition cqe_get_data :: "'w liburing \<Rightarrow> cqe_ptr \<Rightarrow> 'w \<Rightarrow> failure + token_t" where
  "cqe_get_data lu cqe w = (case cqe of None \<Rightarrow> Inl Null_deref | Some c \<Rightarrow> Inr (lu_cqe_get_data lu c w))"

definition cqe_to_result :: "'w liburing \<Rightarrow> cqe_ptr \<Rightarrow> 'w \<Rightarrow> failure + int result" where
  "cqe_to_result lu cqe w =
     (case cqe of
        None \<Rightarrow> Inl Null_deref
      | Some c \<Rightarrow>
          (let res = lu_cqe_res lu c w
           in if res < 0 then Inr (Inl \<lparr>ec_value = - res, ec_category = System_category\<rparr>)
              else Inr (Inr res)))"

section \<open>The class io_uring\<close>

text \<open>The flag \<open>inited\<close> is the state of the object; it is passed and returned explicitly.\<close>

definition uring_queue_init ::
  "'w liburing \<Rightarrow> bool \<Rightarrow> nat \<Rightarrow> nat \<Rightarrow> 'w \<Rightarrow> failure + unit result \<times> bool \<times> 'w"
where
  "uring_queue_init lu inited entries flags w =
     (if inited then Inl Contract_violation
      else let (ret, w') = lu_queue_init lu entries flags w
           in if ret < 0 then Inr (Inl (as_ec (- ret)), inited, w')
              else Inr (Inr (), True, w'))"

definition uring_get_sqe :: "'w liburing \<Rightarrow> bool \<Rightarrow> 'w \<Rightarrow> failure + nat result \<times> 'w" where
  "uring_get_sqe lu inited w =
     (if \<not> inited then Inl Contract_violation
      else case lu_get_sqe lu w of
        (Some sqe, w') \<Rightarrow> Inr (Inr sqe, w')
      | (None, w') \<Rightarrow> Inr (Inl (as_ec ENOBUFS), w'))"

definition uring_submit :: "'w liburing \<Rightarrow> bool \<Rightarrow> 'w \<Rightarrow> failure + int \<times> 'w" where
  "uring_submit lu inited w = (if \<not> inited then Inl Contract_violation else Inr (lu_submit lu w))"

definition uring_wait :: "'w liburing \<Rightarrow> bool \<Rightarrow> 'w \<Rightarrow> failure + unit result \<times> 'w" where
  "uring_wait lu inited w =
     (if \<not> inited then Inl Contract_violation
      else let (ret, w') = lu_wait_cqe lu w
           in if ret < 0 then Inr (Inl (as_ec (- ret)), w') else Inr (Inr (), w'))"

text \<open>The loop that moves the peeked entries into the slots of the output range.\<close>

fun fill_slots :: "'w liburing \<Rightarrow> nat list \<Rightarrow> cqe_ptr list \<Rightarrow> 'w \<Rightarrow> failure + cqe_ptr list \<times> 'w" where
  "fill_slots lu [] slots w = Inr ([], w)"
| "fill_slots lu (c # cs) [] w = Inl Past_the_end"
| "fill_slots lu (c # cs) (slot # slots) w =
     (case owning_assign lu slot (Some c) w of
        (slot', tmp, w') \<Rightarrow>
          (case fill_slots lu cs slots (cqe_seen lu tmp w') of
             Inl e \<Rightarrow> Inl e
           | Inr (filled, w'') \<Rightarrow> Inr (slot' # filled, w'')))"

definition uring_peek_batch_cqe ::
  "'w liburing \<Rightarrow> bool \<Rightarrow> cqe_ptr list \<Rightarrow> nat \<Rightarrow> 'w \<Rightarrow> failure + cqe_ptr list \<times> 'w"
where
  "uring_peek_batch_cqe lu inited slots batch w =
     (if \<not> inited then Inl Contract_violation
      else let (peeked, w') = lu_peek_batch_cqe lu batch w
           in fill_slots lu peeked slots w')"

definition uring_destroy :: "'w liburing \<Rightarrow> bool \<Rightarrow> 'w \<Rightarrow> 'w" where
  "uring_destroy lu inited w = (if inited then lu_queue_exit lu w else w)"

section \<open>Facts\<close>

text \<open>Every completion that an owning reference was made for is marked as seen once.\<close>

interpretation cqe_owner: unique_owner "\<lambda>cqe :: cqe_ptr. cqe" owning_move "owning_assign lu" "cqe_seen lu" "lu_cqe_seen lu" for lu
  by unfold_locales (auto simp: owning_move_def owning_assign_def cqe_seen_def give_back_def Let_def)

text \<open>io_uring_peek_batch_cqe(3) never returns more entries than asked for.\<close>

definition peek_batch_bounded :: "'w liburing \<Rightarrow> bool" where
  "peek_batch_bounded lu \<longleftrightarrow> (\<forall>n w. length (fst (lu_peek_batch_cqe lu n w)) \<le> n)"

lemma fill_slots_empty:
  "length cs \<le> n \<Longrightarrow> fill_slots lu cs (replicate n None) w = Inr (map Some cs, w)"
proof (induction cs arbitrary: n w)
  case (Cons c cs)
  then obtain m where "n = Suc m" by (cases n) auto
  with Cons show ?case by (simp add: owning_assign_def cqe_seen_def)
qed simp

lemma uring_peek_batch_fresh:
  assumes "peek_batch_bounded lu" and "lu_peek_batch_cqe lu batch w = (cs, w')"
  shows "uring_peek_batch_cqe lu True (replicate batch None) batch w = Inr (map Some cs, w')"
proof -
  have "length cs \<le> batch"
    using assms by (metis fst_conv peek_batch_bounded_def)
  then show ?thesis
    using assms(2) by (simp add: uring_peek_batch_cqe_def fill_slots_empty)
qed

end
