(* ===== verification/Ark_Context.thy ===== *)
theory Ark_Context
  imports Ark_Uring "HOL-Library.Sublist"
begin

text \<open>
  \<open>include/ark/async/io_uring/context.hpp\<close>: the event loop, class
  \<open>base_singlethread_uring_async_context\<close> (\<open>async_context\<close> forwards to it).

  The context maps tokens to the callbacks of operations in flight. A callback is the
  context's own waker callback or a callback of its users, of type \<open>'u\<close>, whose effect is the
  parameter \<open>user\<close>: it may change the context, the objects of the program (\<open>'s\<close>) and the
  world (\<open>'w\<close>). Mutexes are flags: locking one that is held is the failure
  \<open>Self_deadlock\<close>, since the model is one thread's view. The loop \<open>run\<close> is a partial
  function; \<open>run_iteration\<close> is one pass through its body.
\<close>

section \<open>State\<close>

datatype 'u callback = Waker_cb | User_cb 'u

record 'u uring_context =
  r_inited :: bool
  callbacks :: "token_t \<rightharpoonup> 'u callback"
  m_submission :: bool
  m_callbacks :: bool
  callbacks_idx :: token_t
  waker_evfd :: int
  inited :: bool
  exiting :: bool
  exiting_error :: error_code

abbreviation (input) batch_size :: nat where "batch_size \<equiv> 1024"
abbreviation (input) POLLIN :: int where "POLLIN \<equiv> 1"

text \<open>The constructor; \<open>evfd\<close> is the indeterminate initial value of \<open>waker_evfd_\<close>.\<close>

definition context_create :: "int \<Rightarrow> 'u uring_context" where
  "context_create evfd =
     \<lparr>r_inited = False, callbacks = Map.empty, m_submission = False, m_callbacks = False,
      callbacks_idx = 0, waker_evfd = evfd, inited = False, exiting = False, exiting_error = no_error\<rparr>"

section \<open>Waking and cancelling\<close>

definition wake :: "('w, 'z) clinux_scheme \<Rightarrow> 'u uring_context \<Rightarrow> 'w \<Rightarrow> unit result \<times> 'w" where
  "wake k c w =
     (let (write_ret, w') = k_write_bytes k (waker_evfd c) [1, 0, 0, 0, 0, 0, 0, 0] w
      in if write_ret = - 1 then (Inl (errno_ec k w'), w') else (Inr (), w'))"

definition cancel :: "token_t \<Rightarrow> 'u uring_context \<Rightarrow> failure + 'u uring_context" where
  "cancel token c =
     (if m_callbacks c then Inl Self_deadlock
      else Inr (c\<lparr>callbacks := (callbacks c)(token := None)\<rparr>))"

section \<open>Adding submission entries\<close>

definition base_add_sqe ::
  "('w, 'z) clinux_scheme \<Rightarrow> 'w liburing \<Rightarrow> sqe_op \<Rightarrow> 'u uring_context \<Rightarrow> 'w
   \<Rightarrow> failure + token_t result \<times> 'u uring_context \<times> 'w"
where
  "base_add_sqe k lu op c w =
     (case uring_get_sqe lu (r_inited c) w of
        Inl e \<Rightarrow> Inl e
      | Inr (Inl ec, w1) \<Rightarrow> Inr (Inl ec, c, w1)
      | Inr (Inr sqe, w1) \<Rightarrow>
          (let w2 = sqe_prep lu sqe op w1;
               tok = callbacks_idx c;
               w3 = sqe_set_data lu sqe (callbacks_idx c) w2;
               c1 = c\<lparr>callbacks_idx := callbacks_idx c + 1\<rparr>
           in case wake k c1 w3 of
                (Inl ec, w4) \<Rightarrow>
                  (case cancel tok c1 of Inl e \<Rightarrow> Inl e | Inr c2 \<Rightarrow> Inr (Inl ec, c2, w4))
              | (Inr u, w4) \<Rightarrow> Inr (Inr tok, c1, w4)))"

definition add_sqe ::
  "('w, 'z) clinux_scheme \<Rightarrow> 'w liburing \<Rightarrow> sqe_op \<Rightarrow> 'u uring_context \<Rightarrow> 'w
   \<Rightarrow> failure + token_t result \<times> 'u uring_context \<times> 'w"
where
  "add_sqe k lu op c w =
     (if m_submission c then Inl Self_deadlock
      else case base_add_sqe k lu op (c\<lparr>m_submission := True\<rparr>) w of
        Inl e \<Rightarrow> Inl e
      | Inr (ret, c', w') \<Rightarrow> Inr (ret, c'\<lparr>m_submission := False\<rparr>, w'))"

definition add_sqe_cb ::
  "('w, 'z) clinux_scheme \<Rightarrow> 'w liburing \<Rightarrow> sqe_op \<Rightarrow> 'u callback \<Rightarrow> 'u uring_context \<Rightarrow> 'w
   \<Rightarrow> failure + token_t result \<times> 'u uring_context \<times> 'w"
where
  "add_sqe_cb k lu op cb c w =
     (if m_submission c \<or> m_callbacks c then Inl Self_deadlock
      else case base_add_sqe k lu op (c\<lparr>m_submission := True, m_callbacks := True\<rparr>) w of
        Inl e \<Rightarrow> Inl e
      | Inr (Inl ec, c', w') \<Rightarrow> Inr (Inl ec, c'\<lparr>m_submission := False, m_callbacks := False\<rparr>, w')
      | Inr (Inr tok, c', w') \<Rightarrow>
          Inr (Inr tok, c'\<lparr>callbacks := (callbacks c')(tok \<mapsto> cb), m_submission := False, m_callbacks := False\<rparr>, w'))"

definition add_waker ::
  "('w, 'z) clinux_scheme \<Rightarrow> 'w liburing \<Rightarrow> 'u uring_context \<Rightarrow> 'w
   \<Rightarrow> failure + unit result \<times> 'u uring_context \<times> 'w"
where
  "add_waker k lu c w =
     (case add_sqe_cb k lu (Prep_poll_add (waker_evfd c) POLLIN) Waker_cb c w of
        Inl e \<Rightarrow> Inl e
      | Inr (Inl ec, c', w') \<Rightarrow> Inr (Inl ec, c', w')
      | Inr (Inr tok, c', w') \<Rightarrow> Inr (Inr (), c', w'))"

section \<open>Initialisation and exit\<close>

definition context_init ::
  "('w, 'z) clinux_scheme \<Rightarrow> 'w liburing \<Rightarrow> 'u uring_context \<Rightarrow> 'w
   \<Rightarrow> failure + unit result \<times> 'u uring_context \<times> 'w"
where
  "context_init k lu c w =
     (if inited c then Inl Contract_violation
      else let (waker_ret, w1) = k_eventfd k 0 0 w in
        if waker_ret = - 1 then Inr (Inl (errno_ec k w1), c, w1)
        else let c1 = c\<lparr>waker_evfd := waker_ret\<rparr> in
          case uring_queue_init lu (r_inited c1) batch_size 0 w1 of
            Inl e \<Rightarrow> Inl e
          | Inr (Inl ec, ri, w2) \<Rightarrow> Inr (Inl ec, c1\<lparr>r_inited := ri\<rparr>, w2)
          | Inr (Inr u, ri, w2) \<Rightarrow> add_waker k lu (c1\<lparr>r_inited := ri, inited := True\<rparr>) w2)"

definition context_exit ::
  "('w, 'z) clinux_scheme \<Rightarrow> 'u uring_context \<Rightarrow> 'w \<Rightarrow> failure + 'u uring_context \<times> 'w"
where
  "context_exit k c w =
     (let c1 = c\<lparr>exiting := True\<rparr>
      in case wake k c1 w of
           (Inl ec, w') \<Rightarrow> Inl Aborted
         | (Inr u, w') \<Rightarrow> Inr (c1, w'))"

definition context_exit_with ::
  "('w, 'z) clinux_scheme \<Rightarrow> unit result \<Rightarrow> 'u uring_context \<Rightarrow> 'w \<Rightarrow> failure + 'u uring_context \<times> 'w"
where
  "context_exit_with k ret c w =
     (case ret of
        Inl ec \<Rightarrow> context_exit k (c\<lparr>exiting_error := ec\<rparr>) w
      | Inr u \<Rightarrow> context_exit k c w)"

text \<open>The callback \<open>add_waker\<close> registers: drain the eventfd and poll it again.\<close>

definition waker_callback ::
  "('w, 'z) clinux_scheme \<Rightarrow> 'w liburing \<Rightarrow> int result \<Rightarrow> 'u uring_context \<Rightarrow> 'w
   \<Rightarrow> failure + 'u uring_context \<times> 'w"
where
  "waker_callback k lu ret c w =
     (case ret of
        Inl ec \<Rightarrow> context_exit_with k (Inl ec) c w
      | Inr res \<Rightarrow>
          (let (read_ret, w1) = k_read_discard k (waker_evfd c) 8 w in
           if read_ret = - 1 then context_exit_with k (Inl (errno_ec k w1)) c w1
           else case add_waker k lu c w1 of
             Inl e \<Rightarrow> Inl e
           | Inr (Inl ec, c', w2) \<Rightarrow> context_exit_with k (Inl ec) c' w2
           | Inr (Inr u, c', w2) \<Rightarrow> Inr (c', w2)))"

section \<open>The event loop\<close>

definition context_submit ::
  "'w liburing \<Rightarrow> 'u uring_context \<Rightarrow> 'w \<Rightarrow> failure + 'w"
where
  "context_submit lu c w =
     (if m_submission c then Inl Self_deadlock
      else case uring_submit lu (r_inited c) w of Inl e \<Rightarrow> Inl e | Inr (s, w') \<Rightarrow> Inr w')"

text \<open>
  The loop over the peeked entries: the callbacks found, with their results, in order; the
  map without them; every entry marked as seen by the assignment of an empty reference.
\<close>

fun collect_callbacks ::
  "'w liburing \<Rightarrow> cqe_ptr list \<Rightarrow> (token_t \<rightharpoonup> 'c) \<Rightarrow> 'w
   \<Rightarrow> failure + ('c \<times> int result) list \<times> (token_t \<rightharpoonup> 'c) \<times> 'w"
where
  "collect_callbacks lu [] m w = Inr ([], m, w)"
| "collect_callbacks lu (it # its) m w =
     (case cqe_get_data lu (unowning_of it) w of
        Inl e \<Rightarrow> Inl e
      | Inr tok \<Rightarrow>
          (case (case m tok of
                   None \<Rightarrow> Inr ([], m)
                 | Some cb \<Rightarrow>
                     (case cqe_to_result lu (unowning_of it) w of
                        Inl e \<Rightarrow> Inl e
                      | Inr res \<Rightarrow> Inr ([(cb, res)], m(tok := None)))) of
             Inl e \<Rightarrow> Inl e
           | Inr (found, m') \<Rightarrow>
               (case owning_assign lu it None w of
                  (it', tmp, w') \<Rightarrow>
                    (case collect_callbacks lu its m' (cqe_seen lu tmp w') of
                       Inl e \<Rightarrow> Inl e
                     | Inr (rest, m'', w'') \<Rightarrow> Inr (found @ rest, m'', w'')))))"

type_synonym ('u, 's, 'w) uring_state = "'u uring_context \<times> 's \<times> 'w"

type_synonym ('u, 's, 'w) user_callback =
  "'u \<Rightarrow> int result \<Rightarrow> ('u, 's, 'w) uring_state \<Rightarrow> failure + ('u, 's, 'w) uring_state"

definition invoke ::
  "('w, 'z) clinux_scheme \<Rightarrow> 'w liburing \<Rightarrow> ('u, 's, 'w) user_callback
   \<Rightarrow> 'u callback \<Rightarrow> int result \<Rightarrow> ('u, 's, 'w) uring_state \<Rightarrow> failure + ('u, 's, 'w) uring_state"
where
  "invoke k lu user cb res st =
     (case cb of
        User_cb u \<Rightarrow> user u res st
      | Waker_cb \<Rightarrow>
          (case st of (c, s, w) \<Rightarrow>
             (case waker_callback k lu res c w of Inl e \<Rightarrow> Inl e | Inr (c', w') \<Rightarrow> Inr (c', s, w'))))"

fun run_callbacks ::
  "('c \<Rightarrow> int result \<Rightarrow> 'st \<Rightarrow> failure + 'st) \<Rightarrow> ('c \<times> int result) list \<Rightarrow> 'st \<Rightarrow> failure + 'st"
where
  "run_callbacks call [] st = Inr st"
| "run_callbacks call ((cb, res) # cbs) st =
     (case call cb res st of Inl e \<Rightarrow> Inl e | Inr st' \<Rightarrow> run_callbacks call cbs st')"

datatype run_status = Returned "unit result" | Looped

definition run_iteration ::
  "('w, 'z) clinux_scheme \<Rightarrow> 'w liburing \<Rightarrow> ('u, 's, 'w) user_callback
   \<Rightarrow> ('u, 's, 'w) uring_state \<Rightarrow> failure + run_status \<times> ('u, 's, 'w) uring_state"
where
  "run_iteration k lu user st =
     (case st of (c, s, w) \<Rightarrow>
        if exiting c then
          (if is_error (exiting_error c)
           then Inr (Returned (Inl (exiting_error c)), c\<lparr>exiting := False, exiting_error := no_error\<rparr>, s, w)
           else Inr (Returned (Inr ()), c\<lparr>exiting := False\<rparr>, s, w))
        else case context_submit lu c w of
          Inl e \<Rightarrow> Inl e
        | Inr w1 \<Rightarrow>
            (case uring_wait lu (r_inited c) w1 of
               Inl e \<Rightarrow> Inl e
             | Inr (Inl ec, w2) \<Rightarrow> Inr (Returned (Inl ec), c, s, w2)
             | Inr (Inr u, w2) \<Rightarrow>
                 (case uring_peek_batch_cqe lu (r_inited c) (replicate batch_size None) batch_size w2 of
                    Inl e \<Rightarrow> Inl e
                  | Inr (cqes, w3) \<Rightarrow>
                      (if m_callbacks c then Inl Self_deadlock
                       else case collect_callbacks lu cqes (callbacks c) w3 of
                         Inl e \<Rightarrow> Inl e
                       | Inr (cbs, m, w4) \<Rightarrow>
                           (case run_callbacks (invoke k lu user) cbs (c\<lparr>callbacks := m\<rparr>, s, w4) of
                              Inl e \<Rightarrow> Inl e
                            | Inr st' \<Rightarrow> Inr (Looped, st'))))))"

partial_function (option) context_run ::
  "('w, 'z) clinux_scheme \<Rightarrow> 'w liburing \<Rightarrow> ('u, 's, 'w) user_callback
   \<Rightarrow> ('u, 's, 'w) uring_state \<Rightarrow> (failure + unit result \<times> ('u, 's, 'w) uring_state) option"
where
  "context_run k lu user st =
     (case run_iteration k lu user st of
        Inl e \<Rightarrow> Some (Inl e)
      | Inr (Returned r, st') \<Rightarrow> Some (Inr (r, st'))
      | Inr (Looped, st') \<Rightarrow> context_run k lu user st')"

text \<open>The implicit destructor: only the ring has one.\<close>

definition context_destroy :: "'w liburing \<Rightarrow> 'u uring_context \<Rightarrow> 'w \<Rightarrow> 'w" where
  "context_destroy lu c w = uring_destroy lu (r_inited c) w"

section \<open>Registration\<close>

definition unlocked :: "'u uring_context \<Rightarrow> bool" where
  "unlocked c \<longleftrightarrow> \<not> m_submission c \<and> \<not> m_callbacks c"

definition context_ok :: "'u uring_context \<Rightarrow> bool" where
  "context_ok c \<longleftrightarrow> unlocked c \<and> (\<forall>t \<in> dom (callbacks c). t < callbacks_idx c)"

definition registered :: "'u uring_context \<Rightarrow> 'u callback \<Rightarrow> 'u uring_context" where
  "registered c cb = c\<lparr>callbacks := (callbacks c)(callbacks_idx c \<mapsto> cb), callbacks_idx := callbacks_idx c + 1\<rparr>"

lemma wake_cases:
  obtains (ok) w' where "wake k c w = (Inr (), w')" "fst (k_write_bytes k (waker_evfd c) [1, 0, 0, 0, 0, 0, 0, 0] w) \<noteq> - 1"
  | (failed) ec w' where "wake k c w = (Inl ec, w')" "fst (k_write_bytes k (waker_evfd c) [1, 0, 0, 0, 0, 0, 0, 0] w) = - 1"
  by (cases "k_write_bytes k (waker_evfd c) [1, 0, 0, 0, 0, 0, 0, 0] w") (auto simp: wake_def split: if_splits)

text \<open>The three ways \<open>add_sqe\<close> with a callback ends on an initialised, unlocked context.\<close>

lemma add_sqe_cb_cases:
  assumes "unlocked c" and "r_inited c"
  obtains (full) w1 where "lu_get_sqe lu w = (None, w1)" "add_sqe_cb k lu op cb c w = Inr (Inl (as_ec ENOBUFS), c, w1)"
  | (added) sqe w1 w4 where "lu_get_sqe lu w = (Some sqe, w1)"
      "wake k c (lu_sqe_set_data lu sqe (callbacks_idx c) (lu_prep lu sqe op w1)) = (Inr (), w4)"
      "add_sqe_cb k lu op cb c w = Inr (Inr (callbacks_idx c), registered c cb, w4)"
  | (deadlock) sqe w1 ec w4 where "lu_get_sqe lu w = (Some sqe, w1)"
      "wake k c (lu_sqe_set_data lu sqe (callbacks_idx c) (lu_prep lu sqe op w1)) = (Inl ec, w4)"
      "add_sqe_cb k lu op cb c w = Inl Self_deadlock"
proof (cases "lu_get_sqe lu w")
  case (Pair r w1)
  show ?thesis
  proof (cases r)
    case None
    with Pair assms full show ?thesis
      by (simp add: add_sqe_cb_def base_add_sqe_def uring_get_sqe_def unlocked_def)
  next
    case (Some sqe)
    let ?w = "lu_sqe_set_data lu sqe (callbacks_idx c) (lu_prep lu sqe op w1)"
    have same: "wake k (c\<lparr>m_submission := True, m_callbacks := True, callbacks_idx := i\<rparr>) v = wake k c v" for i v
      by (simp add: wake_def)
    show ?thesis
    proof (cases rule: wake_cases [of k c ?w])
      case (ok w')
      then show ?thesis
        using Pair Some assms added
        by (simp add: add_sqe_cb_def base_add_sqe_def uring_get_sqe_def unlocked_def sqe_prep_def
            sqe_set_data_def Let_def same registered_def)
    next
      case (failed ec w')
      then show ?thesis
        using Pair Some assms deadlock
        by (simp add: add_sqe_cb_def base_add_sqe_def uring_get_sqe_def unlocked_def sqe_prep_def
            sqe_set_data_def Let_def same cancel_def)
    qed
  qed
qed

lemma add_sqe_cb_ready: "add_sqe_cb k lu op cb c w = Inr x \<Longrightarrow> unlocked c \<and> r_inited c"
  by (auto simp: add_sqe_cb_def base_add_sqe_def uring_get_sqe_def unlocked_def split: if_splits)

lemma add_sqe_cb_okD:
  assumes "add_sqe_cb k lu op cb c w = Inr (Inr tok, c', w')"
  shows "tok = callbacks_idx c \<and> c' = registered c cb"
proof -
  have "unlocked c" "r_inited c" using add_sqe_cb_ready [OF assms] by simp_all
  then show ?thesis
    by (rule add_sqe_cb_cases [of c lu w k op cb]) (use assms in simp_all)
qed

lemma add_sqe_cb_errorD:
  assumes "add_sqe_cb k lu op cb c w = Inr (Inl ec, c', w')"
  shows "ec = as_ec ENOBUFS \<and> c' = c"
proof -
  have "unlocked c" "r_inited c" using add_sqe_cb_ready [OF assms] by simp_all
  then show ?thesis
    by (rule add_sqe_cb_cases [of c lu w k op cb]) (use assms in simp_all)
qed

lemma context_ok_fresh: "context_ok c \<Longrightarrow> callbacks c (callbacks_idx c) = None"
  by (cases "callbacks c (callbacks_idx c)") (auto simp: context_ok_def)

lemma word_less_Suc: "i \<noteq> - 1 \<Longrightarrow> i < i + (1 :: 64 word)"
proof -
  assume "i \<noteq> - 1"
  then have "1 + i \<noteq> 0" by (metis add.commute add_eq_0_iff)
  then show ?thesis by (simp add: word_less_nat_alt unatSuc add.commute [of i])
qed

lemma context_ok_registered:
  assumes "context_ok c" and "callbacks_idx c \<noteq> - 1"
  shows "context_ok (registered c cb)"
  using assms word_less_Suc [OF assms(2)]
  by (auto simp: context_ok_def registered_def unlocked_def split: if_splits intro: less_trans)

section \<open>Dispatch\<close>

text \<open>The tokens and results of the peeked entries, each read before the next is marked as seen.\<close>

definition result_of_res :: "int \<Rightarrow> int result" where
  "result_of_res res =
     (if res < 0 then Inl \<lparr>ec_value = - res, ec_category = System_category\<rparr> else Inr res)"

fun batch_read :: "'w liburing \<Rightarrow> nat list \<Rightarrow> 'w \<Rightarrow> (token_t \<times> int result) list" where
  "batch_read lu [] w = []"
| "batch_read lu (c # cs) w =
     (lu_cqe_get_data lu c w, result_of_res (lu_cqe_res lu c w)) # batch_read lu cs (lu_cqe_seen lu c w)"

text \<open>The entries whose token is registered, the first of each.\<close>

fun first_hits :: "(token_t \<rightharpoonup> 'c) \<Rightarrow> (token_t \<times> int result) list \<Rightarrow> (token_t \<times> int result) list" where
  "first_hits m [] = []"
| "first_hits m ((t, r) # xs) =
     (case m t of None \<Rightarrow> first_hits m xs | Some cb \<Rightarrow> (t, r) # first_hits (m(t := None)) xs)"

lemma set_first_hits: "fst ` set (first_hits m xs) = fst ` set xs \<inter> dom m"
proof (induction xs arbitrary: m)
  case (Cons x xs)
  obtain t r where x: "x = (t, r)" by fastforce
  show ?case
  proof (cases "m t")
    case None
    then show ?thesis by (simp add: x Cons.IH Int_insert_left domIff)
  next
    case (Some cb)
    then have "first_hits m (x # xs) = (t, r) # first_hits (m(t := None)) xs" by (simp add: x)
    with Some show ?thesis by (simp add: x Cons.IH Int_insert_left domIff del: fun_upd_apply) blast
  qed
qed simp

lemma distinct_first_hits: "distinct (map fst (first_hits m xs))"
proof (induction xs arbitrary: m)
  case (Cons x xs)
  then show ?case
    using set_first_hits [of "m(fst x := None)" xs] by (cases x) (auto split: option.splits)
qed simp

lemma subseq_first_hits: "subseq (first_hits m xs) xs"
proof (induction xs arbitrary: m)
  case (Cons x xs)
  show ?case
    using Cons.IH by (cases x; cases "m (fst x)") (simp_all add: list_emb_Cons)
qed simp

lemma collect_callbacks_eq:
  "collect_callbacks lu (map Some cs) m w =
     Inr (map (\<lambda>(t, r). (the (m t), r)) (first_hits m (batch_read lu cs w)),
          m |` (- (fst ` set (batch_read lu cs w))), fold (lu_cqe_seen lu) cs w)"
proof (induction cs arbitrary: m w)
  case (Cons c cs)
  let ?t = "lu_cqe_get_data lu c w"
  have hits: "map (\<lambda>(t, r). (the ((m(?t := None)) t), r)) (first_hits (m(?t := None)) xs) =
      map (\<lambda>(t, r). (the (m t), r)) (first_hits (m(?t := None)) xs)" for xs
    using set_first_hits [of "m(?t := None)" xs] by (intro map_cong refl) (force split: prod.split)
  show ?case
  proof (cases "m ?t")
    case None
    then show ?thesis
      by (auto simp: Cons.IH cqe_get_data_def unowning_of_def owning_assign_def cqe_seen_def Let_def
          restrict_map_def fun_eq_iff)
  next
    case (Some cb)
    then have "m(?t := None) |` (- X) = m |` (- insert ?t X)" for X
      by (auto simp: restrict_map_def fun_eq_iff)
    with Some show ?thesis
      by (simp add: Cons.IH hits cqe_get_data_def cqe_to_result_def unowning_of_def owning_assign_def cqe_seen_def
          result_of_res_def Let_def del: fun_upd_apply)
  qed
qed (simp add: restrict_map_def)

text \<open>A registered token in the batch is among the hits, once, with the result of its first entry.\<close>

lemma first_hits_split:
  assumes "t \<notin> fst ` set xs" and "m t = Some cb"
  obtains hs hs' where "first_hits m (xs @ (t, r) # ys) = hs @ (t, r) # hs'" "t \<notin> fst ` set (hs @ hs')"
proof -
  have "\<exists>hs hs'. first_hits m (xs @ (t, r) # ys) = hs @ (t, r) # hs'"
    using assms
  proof (induction xs arbitrary: m)
    case (Cons x xs)
    show ?case
    proof (cases "m (fst x)")
      case None
      with Cons show ?thesis by (cases x) simp
    next
      case (Some cb')
      from Cons.prems have "(m(fst x := None)) t = Some cb" "t \<notin> fst ` set xs" by auto
      with Cons.IH obtain hs hs' where "first_hits (m(fst x := None)) (xs @ (t, r) # ys) = hs @ (t, r) # hs'" by blast
      then have "first_hits m ((x # xs) @ (t, r) # ys) = (x # hs) @ (t, r) # hs'" using Some by (cases x) simp
      then show ?thesis by blast
    qed
  qed auto
  then obtain hs hs' where hits: "first_hits m (xs @ (t, r) # ys) = hs @ (t, r) # hs'" by blast
  with distinct_first_hits [of m "xs @ (t, r) # ys"] have "t \<notin> fst ` set (hs @ hs')" by auto
  with hits that show ?thesis by blast
qed

text \<open>
  A pass of \<open>run\<close> in which the completion of the token arrives: the wait ends, and the batch that is peeked
  has an entry for the token.
\<close>

definition delivers :: "'w liburing \<Rightarrow> 'w \<Rightarrow> token_t \<Rightarrow> int \<Rightarrow> bool" where
  "delivers lu w tok res \<longleftrightarrow>
     (\<exists>ret w2 cs w3 xs ys. lu_wait_cqe lu (snd (lu_submit lu w)) = (ret, w2) \<and> 0 \<le> ret
        \<and> lu_peek_batch_cqe lu batch_size w2 = (cs, w3) \<and> length cs \<le> batch_size
        \<and> batch_read lu cs w3 = xs @ (tok, result_of_res res) # ys \<and> tok \<notin> fst ` set xs)"

text \<open>Such a pass calls the callback once, with that result, among the other callbacks of the batch.\<close>

lemma run_iteration_delivers:
  assumes "delivers lu w tok res" and "unlocked c" "r_inited c" "\<not> exiting c" and "callbacks c tok = Some cb"
  obtains pre post c' w' where "callbacks c' tok = None" "unlocked c'"
    "\<And>k user s. run_iteration k lu user (c, s, w) =
       (case run_callbacks (invoke k lu user) (pre @ (cb, result_of_res res) # post) (c', s, w') of
          Inl e \<Rightarrow> Inl e | Inr st \<Rightarrow> Inr (Looped, st))"
proof -
  obtain ret w2 cs w3 xs ys where pass: "lu_wait_cqe lu (snd (lu_submit lu w)) = (ret, w2)" "0 \<le> ret"
      "lu_peek_batch_cqe lu batch_size w2 = (cs, w3)" "length cs \<le> batch_size"
      "batch_read lu cs w3 = xs @ (tok, result_of_res res) # ys" "tok \<notin> fst ` set xs"
    using assms(1) unfolding delivers_def by blast
  obtain hs hs' where hits: "first_hits (callbacks c) (batch_read lu cs w3) = hs @ (tok, result_of_res res) # hs'"
    unfolding pass(5) by (rule first_hits_split [where m = "callbacks c" and t = tok, OF pass(6) assms(5)])
  let ?call = "\<lambda>(t, r). (the (callbacks c t), r)"
  let ?m = "callbacks c |` (- fst ` set (batch_read lu cs w3))"
  have "collect_callbacks lu (map Some cs) (callbacks c) w3 =
      Inr (map ?call hs @ (cb, result_of_res res) # map ?call hs', ?m, fold (lu_cqe_seen lu) cs w3)"
    using assms(5) by (simp add: collect_callbacks_eq hits)
  moreover obtain sr w1 where "lu_submit lu w = (sr, w1)" by fastforce
  ultimately have pass_eq: "run_iteration k lu user (c, s, w) =
       (case run_callbacks (invoke k lu user) (map ?call hs @ (cb, result_of_res res) # map ?call hs')
          (c\<lparr>callbacks := ?m\<rparr>, s, fold (lu_cqe_seen lu) cs w3) of Inl e \<Rightarrow> Inl e | Inr st \<Rightarrow> Inr (Looped, st))" for k user s
    using assms(2-4) pass(1-3) fill_slots_empty [OF pass(4), of lu w3]
    by (simp add: run_iteration_def context_submit_def uring_submit_def uring_wait_def uring_peek_batch_cqe_def unlocked_def)
  have "callbacks (c\<lparr>callbacks := ?m\<rparr>) tok = None" "unlocked (c\<lparr>callbacks := ?m\<rparr>)"
    using pass(5) assms(2) by (simp_all add: unlocked_def)
  then show ?thesis using pass_eq by (rule that)
qed

lemma run_callbacks_append:
  "run_callbacks call (xs @ ys) st = (case run_callbacks call xs st of Inl e \<Rightarrow> Inl e | Inr st' \<Rightarrow> run_callbacks call ys st')"
  by (induction call xs st rule: run_callbacks.induct) (auto split: sum.splits)

text \<open>
  C10. Registering a callback. On a context whose tokens are all below the next one and which has
  a token left, \<open>add_sqe\<close> with a callback that succeeds returns a token no registered callback
  has, registers the callback under it and changes no other registration, keeps the tokens
  below the next one and releases both mutexes. If the submission queue is full it fails
  with \<open>ENOBUFS\<close> and the context is unchanged.
\<close>

theorem add_sqe_cb_registers:
  assumes "context_ok c" and "callbacks_idx c \<noteq> - 1" and "add_sqe_cb k lu op cb c w = Inr (ret, c', w')"
  shows "context_ok c' \<and>
     (case ret of
        Inl ec \<Rightarrow> ec = as_ec ENOBUFS \<and> c' = c
      | Inr tok \<Rightarrow> callbacks c tok = None \<and> callbacks c' = (callbacks c)(tok \<mapsto> cb)
                 \<and> callbacks_idx c' = tok + 1 \<and> exiting c' = exiting c \<and> waker_evfd c' = waker_evfd c)"
proof (cases ret)
  case (Inl ec)
  with add_sqe_cb_errorD [of k lu op cb c w ec c' w'] assms show ?thesis by simp
next
  case (Inr tok)
  with add_sqe_cb_okD [of k lu op cb c w tok c' w'] assms show ?thesis
    by (simp add: context_ok_registered context_ok_fresh) (simp add: registered_def)
qed

text \<open>A liburing with room for every entry and no completions, for the closed instances.\<close>

definition idle_liburing :: "'w liburing" where
  "idle_liburing =
     \<lparr>lu_queue_init = (\<lambda>n f w. (0, w)), lu_queue_exit = (\<lambda>w. w), lu_get_sqe = (\<lambda>w. (Some 0, w)),
      lu_prep = (\<lambda>n op w. w), lu_sqe_set_data = (\<lambda>n t w. w), lu_sqe_set_flags = (\<lambda>n f w. w),
      lu_submit = (\<lambda>w. (0, w)), lu_wait_cqe = (\<lambda>w. (0, w)), lu_peek_batch_cqe = (\<lambda>n w. ([], w)),
      lu_cqe_get_data = (\<lambda>c w. 0), lu_cqe_res = (\<lambda>c w. 0), lu_cqe_seen = (\<lambda>c w. w)\<rparr>"

definition writable_clinux :: "'w clinux" where
  "writable_clinux = failing_clinux\<lparr>k_write_bytes := (\<lambda>n bs w. (8, w)), k_read_discard := (\<lambda>n z w. (8, w)),
     k_eventfd := (\<lambda>c f w. (3, w))\<rparr>"

definition ready_context :: "'u uring_context" where
  "ready_context = (context_create 3)\<lparr>r_inited := True, inited := True\<rparr>"

lemmas ready_defs = ready_context_def context_create_def idle_liburing_def writable_clinux_def failing_clinux_def

theorem add_sqe_cb_registers_witness:
  "add_sqe_cb writable_clinux idle_liburing Prep_nop (User_cb True) ready_context () =
     Inr (Inr 0, registered ready_context (User_cb True), ())
   \<and> context_ok (registered ready_context (User_cb True))"
proof -
  have eq: "add_sqe_cb writable_clinux idle_liburing Prep_nop (User_cb True) ready_context () =
      Inr (Inr 0, registered ready_context (User_cb True), ())"
    by (simp add: add_sqe_cb_def base_add_sqe_def uring_get_sqe_def sqe_prep_def sqe_set_data_def wake_def
        registered_def Let_def ready_defs)
  moreover have "context_ok (ready_context :: bool uring_context)" "callbacks_idx (ready_context :: bool uring_context) \<noteq> - 1"
    by (simp_all add: context_ok_def unlocked_def ready_defs)
  ultimately show ?thesis
    using add_sqe_cb_registers [OF _ _ eq] by simp
qed

text \<open>
  C9. Dispatching. The loop over a batch of peeked completions marks every entry as seen exactly
  once, in order, and takes from the map exactly the callbacks whose token occurs in the
  batch, each once and with the result of the first entry that carries its token, in the
  order of the entries; entries with an unknown token, and further entries with the same
  token, are ignored.
\<close>

theorem collect_callbacks_exactly_once:
  "\<exists>hits. collect_callbacks lu (map Some cs) m w =
       Inr (map (\<lambda>(t, r). (the (m t), r)) hits, m |` (- fst ` set (batch_read lu cs w)), fold (lu_cqe_seen lu) cs w)
     \<and> subseq hits (batch_read lu cs w) \<and> distinct (map fst hits)
     \<and> fst ` set hits = fst ` set (batch_read lu cs w) \<inter> dom m"
  by (intro exI [of _ "first_hits m (batch_read lu cs w)"])
     (simp add: collect_callbacks_eq subseq_first_hits distinct_first_hits set_first_hits)

text \<open>
  C30. If waking the loop fails, for example because the eventfd cannot be written,
  \<open>add_sqe\<close> with a callback does not return the error: the cancellation locks the callback
  mutex that the function holds already.
\<close>

theorem add_sqe_cb_wake_failure_deadlocks:
  assumes "unlocked c" and "r_inited c" and "lu_get_sqe lu w = (Some sqe, w1)"
    and "fst (k_write_bytes k (waker_evfd c) [1, 0, 0, 0, 0, 0, 0, 0]
           (lu_sqe_set_data lu sqe (callbacks_idx c) (lu_prep lu sqe op w1))) = - 1"
  shows "add_sqe_cb k lu op cb c w = Inl Self_deadlock"
  using assms(1,2)
proof (cases rule: add_sqe_cb_cases [where lu = lu and w = w and k = k and op = op and cb = cb])
  case (added sqe' w1' w4)
  with assms(3,4) show ?thesis
    by (auto simp: wake_def split: prod.splits if_splits)
qed (use assms(3) in simp_all)

theorem add_sqe_cb_wake_failure_deadlocks_witness:
  "add_sqe_cb failing_clinux idle_liburing Prep_nop (User_cb True) ready_context () = Inl Self_deadlock"
  by (rule add_sqe_cb_wake_failure_deadlocks [of _ _ _ 0 "()"])
     (simp_all add: unlocked_def ready_defs)

section \<open>Exit\<close>

lemma context_exit_with_state:
  assumes "context_exit_with k ret c w = Inr (c', w')"
  shows "c' = c\<lparr>exiting := True, exiting_error := (case ret of Inl ec \<Rightarrow> ec | Inr u \<Rightarrow> exiting_error c)\<rparr>"
  using assms
  by (cases ret; cases rule: wake_cases [of k "c\<lparr>exiting_error := projl ret, exiting := True\<rparr>" w];
      cases rule: wake_cases [of k "c\<lparr>exiting := True\<rparr>" w])
     (auto simp: context_exit_with_def context_exit_def)

text \<open>
  C23. After \<open>exit(ret)\<close> has returned, the event loop returns at the head of its next pass, without
  waiting for the kernel: with the error of \<open>ret\<close>, else with the error of an earlier
  \<open>exit\<close>, else with success. It resets the request and the error, so that the loop can be
  started again, and leaves the registered callbacks in place.
\<close>

theorem run_returns_after_exit:
  assumes "context_exit_with k ret c w = Inr (c', w')"
    and "ec = (case ret of Inl e \<Rightarrow> e | Inr u \<Rightarrow> exiting_error c)"
  shows "\<exists>c''. context_run k lu user (c', s, v) = Some (Inr (if is_error ec then Inl ec else Inr (), c'', s, v))
     \<and> \<not> exiting c'' \<and> \<not> is_error (exiting_error c'') \<and> callbacks c'' = callbacks c
     \<and> callbacks_idx c'' = callbacks_idx c"
  unfolding context_exit_with_state [OF assms(1)] assms(2) [symmetric]
  by (subst context_run.simps) (simp add: run_iteration_def is_error_def no_error_def)

theorem run_returns_after_exit_witness:
  "\<exists>c' c''. context_exit_with writable_clinux (Inl (as_ec EINVAL)) (ready_context :: bool uring_context) () = Inr (c', ())
     \<and> context_run writable_clinux idle_liburing (\<lambda>u r st. Inr st) (c', True, ()) =
         Some (Inr (Inl (as_ec EINVAL), c'', True, ()))
     \<and> \<not> exiting c'' \<and> \<not> is_error (exiting_error c'')"
proof -
  let ?c = "(ready_context :: bool uring_context)\<lparr>exiting_error := as_ec EINVAL, exiting := True\<rparr>"
  have "context_exit_with writable_clinux (Inl (as_ec EINVAL)) (ready_context :: bool uring_context) () = Inr (?c, ())"
    by (simp add: context_exit_with_def context_exit_def wake_def ready_defs)
  from this run_returns_after_exit [OF this refl, of idle_liburing "\<lambda>u r st. Inr st" True "()"]
  show ?thesis by (auto simp: is_error_def as_ec_def)
qed

section \<open>The waker\<close>

text \<open>eventfd(2): a write of 1 that succeeds adds 1 to the counter.\<close>

definition eventfd_write_law :: "('w, 'z) clinux_scheme \<Rightarrow> (int \<Rightarrow> 'w \<Rightarrow> nat) \<Rightarrow> bool" where
  "eventfd_write_law k counter \<longleftrightarrow>
     (\<forall>n w r w'. k_write_bytes k n [1, 0, 0, 0, 0, 0, 0, 0] w = (r, w') \<longrightarrow> r \<noteq> - 1 \<longrightarrow>
        counter n w' = counter n w + 1)"

lemma add_waker_wakes:
  assumes "eventfd_write_law k counter" and "unlocked c" "r_inited c" and "add_waker k lu c w = Inr (Inr (), c', w')"
  shows "0 < counter (waker_evfd c) w' \<and> c' = registered c Waker_cb"
  using assms(2,3)
proof (cases rule: add_sqe_cb_cases [where lu = lu and w = w and k = k
      and op = "Prep_poll_add (waker_evfd c) POLLIN" and cb = Waker_cb])
  case (added sqe w1 w4)
  then have eq: "w' = w4" "c' = registered c Waker_cb"
    using assms(4) by (auto simp: add_waker_def)
  have "counter (waker_evfd c) w4 = counter (waker_evfd c) (lu_sqe_set_data lu sqe (callbacks_idx c)
      (lu_prep lu sqe (Prep_poll_add (waker_evfd c) POLLIN) w1)) + 1"
    using added(2) assms(1) by (auto simp: wake_def eventfd_write_law_def split: prod.splits if_splits)
  with eq show ?thesis by simp
qed (use assms(4) in \<open>auto simp: add_waker_def\<close>)

text \<open>
  C32. The event loop never comes to rest: when the waker callback has drained the eventfd and
  polls it again, registering the poll wakes the loop, so the callback ends with the poll
  registered on an eventfd that is already readable, and the next pass runs it again.
\<close>

theorem waker_callback_leaves_eventfd_readable:
  assumes "eventfd_write_law k counter" and "unlocked c" and "r_inited c"
    and "waker_callback k lu (Inr res) c w = Inr (c', w')" and "\<not> exiting c'"
  shows "0 < counter (waker_evfd c') w' \<and> callbacks c' (callbacks_idx c) = Some Waker_cb"
proof -
  obtain r w1 where read: "k_read_discard k (waker_evfd c) 8 w = (r, w1)" by fastforce
  have no_exit: False if "context_exit_with k x c1 w2 = Inr (c', w')" for x c1 w2
    using context_exit_with_state [OF that] assms(5) by simp
  have "r \<noteq> - 1"
    using assms(4) no_exit by (auto simp: waker_callback_def read)
  then have "add_waker k lu c w1 = Inr (Inr (), c', w')"
    using assms(4) by (auto simp: waker_callback_def read split: sum.splits dest: no_exit)
  from add_waker_wakes [OF assms(1-3) this] show ?thesis
    by (simp add: registered_def)
qed

definition counting_clinux :: "nat clinux" where
  "counting_clinux = failing_clinux\<lparr>k_write_bytes := (\<lambda>n bs w. (8, w + 1)), k_read_discard := (\<lambda>n z w. (8, 0))\<rparr>"

theorem waker_callback_leaves_eventfd_readable_witness:
  "\<exists>c' w'. waker_callback counting_clinux idle_liburing (Inr 1) (ready_context :: bool uring_context) 5 = Inr (c', w')
     \<and> 0 < w' \<and> callbacks c' 0 = Some Waker_cb"
proof -
  let ?c = "registered (ready_context :: bool uring_context) Waker_cb"
  have run: "waker_callback counting_clinux idle_liburing (Inr 1) (ready_context :: bool uring_context) 5 = Inr (?c, 1)"
    by (simp add: waker_callback_def add_waker_def add_sqe_cb_def base_add_sqe_def uring_get_sqe_def sqe_prep_def
        sqe_set_data_def wake_def registered_def Let_def counting_clinux_def ready_defs)
  have "0 < (\<lambda>n w. w) (waker_evfd ?c) (1 :: nat) \<and> callbacks ?c (callbacks_idx (ready_context :: bool uring_context)) = Some Waker_cb"
    by (rule waker_callback_leaves_eventfd_readable [OF _ _ _ run])
       (auto simp: eventfd_write_law_def counting_clinux_def unlocked_def registered_def ready_defs)
  with run show ?thesis by (auto simp: ready_defs)
qed

end
