(* ===== verification/Ark_Context_Trace.thy ===== *)
theory Ark_Context_Trace
  imports Ark_Context "HOL-Library.Multiset"
begin

text \<open>
  Every interleaving of the operations of an event loop, as a step relation.

  Each operation of the context runs under its mutexes, so the calls of the loop's thread
  and of other threads form a sequence of whole operations. A step is one such operation, or
  any change of the world by the kernel or the program; it is labelled with the tokens and callbacks that the
  operation itself gives out or takes. \<open>context_trace\<close> are the label sequences from a freshly created context during
  which the token counter does not wrap, that is for fewer than \<open>2 ^ 64\<close> submissions.
\<close>

datatype 'c token_event =
    Registered token_t 'c
  | Given token_t
  | Dispatched 'c
  | Cancelled token_t

inductive context_step ::
  "('w, 'z) clinux_scheme \<Rightarrow> 'w liburing \<Rightarrow> 'u uring_context \<Rightarrow> 'u callback token_event list \<Rightarrow> 'u uring_context \<Rightarrow> bool"
  for k lu
where
  register: "add_sqe_cb k lu op cb c w = Inr (Inr tok, c', w') \<Longrightarrow> context_step k lu c [Registered tok cb] c'"
| reject: "add_sqe_cb k lu op cb c w = Inr (Inl ec, c', w') \<Longrightarrow> context_step k lu c [] c'"
| plain: "add_sqe k lu op c w = Inr (Inr tok, c', w') \<Longrightarrow> context_step k lu c [Given tok] c'"
| plain_reject: "add_sqe k lu op c w = Inr (Inl ec, c', w') \<Longrightarrow> context_step k lu c [] c'"
| cancel: "cancel tok c = Inr c' \<Longrightarrow> context_step k lu c [Cancelled tok] c'"
| collect: "\<lbrakk>\<not> m_callbacks c; collect_callbacks lu (map Some cs) (callbacks c) w = Inr (cbs, m, w')\<rbrakk>
    \<Longrightarrow> context_step k lu c (map (\<lambda>(cb, res). Dispatched cb) cbs) (c\<lparr>callbacks := m\<rparr>)"
| exit: "context_exit_with k ret c w = Inr (c', w') \<Longrightarrow> context_step k lu c [] c'"
| leave: "exiting c \<Longrightarrow> context_step k lu c [] (c\<lparr>exiting := False, exiting_error := no_error\<rparr>)"

inductive context_trace ::
  "('w, 'z) clinux_scheme \<Rightarrow> 'w liburing \<Rightarrow> 'u callback token_event list \<Rightarrow> 'u uring_context \<Rightarrow> bool"
  for k lu
where
  start: "context_trace k lu [] ((context_create evfd)\<lparr>r_inited := ri, inited := i, waker_evfd := fd\<rparr>)"
| step: "\<lbrakk>context_trace k lu es c; callbacks_idx c \<noteq> - 1; context_step k lu c e c'\<rbrakk>
    \<Longrightarrow> context_trace k lu (es @ e) c'"

text \<open>The tokens given out, the callbacks registered and the callbacks taken for their call, in order.\<close>

fun tokens_in :: "'c token_event list \<Rightarrow> token_t list" where
  "tokens_in [] = []"
| "tokens_in (Registered t cb # es) = t # tokens_in es"
| "tokens_in (Given t # es) = t # tokens_in es"
| "tokens_in (_ # es) = tokens_in es"

fun registered_in :: "'c token_event list \<Rightarrow> 'c list" where
  "registered_in [] = []"
| "registered_in (Registered t cb # es) = cb # registered_in es"
| "registered_in (_ # es) = registered_in es"

fun dispatched_in :: "'c token_event list \<Rightarrow> 'c list" where
  "dispatched_in [] = []"
| "dispatched_in (Dispatched cb # es) = cb # dispatched_in es"
| "dispatched_in (_ # es) = dispatched_in es"

lemma events_append [simp]:
  "tokens_in (es @ fs) = tokens_in es @ tokens_in fs"
  "registered_in (es @ fs) = registered_in es @ registered_in fs"
  "dispatched_in (es @ fs) = dispatched_in es @ dispatched_in fs"
  by (induction es rule: tokens_in.induct) auto

lemma events_collected [simp]:
  "tokens_in (map (\<lambda>(cb, res). Dispatched cb) cbs) = []" "registered_in (map (\<lambda>(cb, res). Dispatched cb) cbs) = []"
  "dispatched_in (map (\<lambda>(cb, res). Dispatched cb) cbs) = map fst cbs"
  by (induction cbs) auto

section \<open>The callbacks that wait\<close>

definition waiting :: "'u uring_context \<Rightarrow> 'u callback multiset" where
  "waiting c = image_mset (\<lambda>t. the (callbacks c t)) (mset_set (dom (callbacks c)))"

lemma waiting_registered:
  assumes "callbacks c (callbacks_idx c) = None" "finite (dom (callbacks c))"
  shows "waiting (registered c cb) = add_mset cb (waiting c)"
proof -
  have "callbacks_idx c \<notin> dom (callbacks c)" using assms(1) by (simp add: domIff)
  moreover from this have "image_mset (\<lambda>t. the (if t = callbacks_idx c then Some cb else callbacks c t)) (mset_set (dom (callbacks c))) = waiting c"
    using assms(2) unfolding waiting_def by (intro image_mset_cong) auto
  ultimately show ?thesis
    using assms(2) by (simp add: waiting_def registered_def)
qed

lemma waiting_shrinks:
  assumes "callbacks c' \<subseteq>\<^sub>m callbacks c" "finite (dom (callbacks c))"
  shows "waiting c' \<subseteq># waiting c"
proof -
  have dom: "dom (callbacks c') \<subseteq> dom (callbacks c)" using assms(1) by (rule map_le_implies_dom_le)
  have "waiting c' = image_mset (\<lambda>t. the (callbacks c t)) (mset_set (dom (callbacks c')))"
    unfolding waiting_def using assms finite_subset [OF dom] by (intro image_mset_cong) (auto simp: map_le_def)
  also have "\<dots> \<subseteq># waiting c"
    unfolding waiting_def using dom assms(2) by (intro image_mset_subseteq_mono subset_imp_msubset_mset_set)
  finally show ?thesis .
qed

text \<open>What the loop over a batch takes, and what it leaves, is what was there.\<close>

lemma waiting_collected:
  assumes "collect_callbacks lu (map Some cs) (callbacks c) w = Inr (cbs, m, w')" "finite (dom (callbacks c))"
  shows "waiting c = mset (map fst cbs) + waiting (c\<lparr>callbacks := m\<rparr>)" and "m \<subseteq>\<^sub>m callbacks c"
proof -
  let ?m = "callbacks c" and ?B = "batch_read lu cs w"
  let ?T = "fst ` set ?B" and ?hits = "map fst (first_hits ?m ?B)"
  have cbs: "cbs = map (\<lambda>(t, r). (the (?m t), r)) (first_hits ?m ?B)" and m: "m = ?m |` (- ?T)"
    using assms(1) by (simp_all add: collect_callbacks_eq)
  show "m \<subseteq>\<^sub>m ?m" unfolding m map_le_def dom_def restrict_map_def by simp
  have "mset ?hits = mset_set (set ?hits)" by (rule mset_set_set [symmetric, OF distinct_first_hits])
  also have "set ?hits = dom ?m \<inter> ?T" using set_first_hits [of ?m ?B] by auto
  finally have "image_mset (\<lambda>t. the (?m t)) (mset ?hits) = image_mset (\<lambda>t. the (?m t)) (mset_set (dom ?m \<inter> ?T))" by simp
  then have taken: "mset (map fst cbs) = image_mset (\<lambda>t. the (?m t)) (mset_set (dom ?m \<inter> ?T))"
    unfolding cbs by (simp add: case_prod_beta multiset.map_comp comp_def)
  have "mset_set (dom ?m) = mset_set (dom ?m \<inter> ?T) + mset_set (dom ?m - ?T)"
    using assms(2) by (subst mset_set_Union [symmetric]) (auto simp: Int_Diff_Un)
  moreover have "image_mset (\<lambda>t. the (m t)) (mset_set (dom ?m - ?T)) = image_mset (\<lambda>t. the (?m t)) (mset_set (dom ?m - ?T))"
    using assms(2) unfolding m by (intro image_mset_cong) simp
  moreover have "dom m = dom ?m - ?T" unfolding m dom_restrict by blast
  ultimately show "waiting c = mset (map fst cbs) + waiting (c\<lparr>callbacks := m\<rparr>)"
    unfolding taken by (simp add: waiting_def)
qed

section \<open>The invariant\<close>

text \<open>
  Every token given out lies below the counter, and what has been dispatched and what still waits are
  different registrations.
\<close>

definition trace_inv :: "'u callback token_event list \<Rightarrow> 'u uring_context \<Rightarrow> bool" where
  "trace_inv es c \<longleftrightarrow>
     context_ok c \<and> finite (dom (callbacks c)) \<and> distinct (tokens_in es) \<and> (\<forall>t \<in> set (tokens_in es). t < callbacks_idx c)
     \<and> mset (dispatched_in es) + waiting c \<subseteq># mset (registered_in es)"

lemma add_sqe_state:
  assumes "add_sqe k lu op c w = Inr (ret, c', w')"
  shows "unlocked c' \<or> m_callbacks c" and "callbacks c' \<subseteq>\<^sub>m callbacks c"
    and "ret = Inr tok \<Longrightarrow> tok = callbacks_idx c \<and> callbacks_idx c' = callbacks_idx c + 1"
    and "callbacks_idx c' = callbacks_idx c \<or> callbacks_idx c' = callbacks_idx c + 1"
  using assms
  by (auto simp: add_sqe_def base_add_sqe_def uring_get_sqe_def cancel_def unlocked_def Let_def map_le_def
      split: if_splits sum.splits prod.splits option.splits)

lemma trace_inv_register:
  assumes "trace_inv es c" and "callbacks_idx c \<noteq> - 1"
  shows "trace_inv (es @ [Registered (callbacks_idx c) cb]) (registered c cb)"
proof -
  have inv: "context_ok c" "finite (dom (callbacks c))" "mset (dispatched_in es) + waiting c \<subseteq># mset (registered_in es)"
    using assms(1) by (simp_all add: trace_inv_def)
  have "waiting (registered c cb) = add_mset cb (waiting c)" using context_ok_fresh [OF inv(1)] inv(2) by (rule waiting_registered)
  moreover have "callbacks_idx (registered c cb) = callbacks_idx c + 1" "finite (dom (callbacks (registered c cb)))"
    using inv(2) by (simp_all add: registered_def)
  ultimately show ?thesis
    using assms(1) inv(3) context_ok_registered [OF inv(1) assms(2), of cb] word_less_Suc [OF assms(2)]
    by (auto simp: trace_inv_def intro: less_trans)
qed

lemma trace_inv_shrink:
  assumes "trace_inv es c" and "unlocked c'" and "callbacks c' \<subseteq>\<^sub>m callbacks c"
    and "callbacks_idx c \<noteq> - 1" "callbacks_idx c' = callbacks_idx c \<or> callbacks_idx c' = callbacks_idx c + 1"
    and "registered_in e = []" "tokens_in e = [] \<or> tokens_in e = [callbacks_idx c] \<and> callbacks_idx c' = callbacks_idx c + 1"
    and "mset (dispatched_in e) + waiting c' \<subseteq># waiting c"
  shows "trace_inv (es @ e) c'"
proof -
  have up: "t < callbacks_idx c \<Longrightarrow> t < callbacks_idx c'" for t
    using assms(5) word_less_Suc [OF assms(4)] by (auto intro: less_trans)
  have dom: "dom (callbacks c') \<subseteq> dom (callbacks c)" using assms(3) by (rule map_le_implies_dom_le)
  have "context_ok c'" using assms(1,2) dom up unfolding trace_inv_def context_ok_def by blast
  moreover have "finite (dom (callbacks c'))" using assms(1) dom finite_subset unfolding trace_inv_def by blast
  moreover have "distinct (tokens_in (es @ e))" "\<forall>t \<in> set (tokens_in (es @ e)). t < callbacks_idx c'"
    using assms(1,7) up word_less_Suc [OF assms(4)] unfolding trace_inv_def by auto
  moreover have "mset (dispatched_in es) + (mset (dispatched_in e) + waiting c') \<subseteq># mset (registered_in es)"
    using assms(1,8) unfolding trace_inv_def by (meson subset_mset.add_left_mono subset_mset.order_trans)
  ultimately show ?thesis using assms(6) by (simp add: trace_inv_def add.assoc)
qed

lemma trace_inv_step:
  assumes "context_step k lu c e c'" and inv: "trace_inv es c" and "callbacks_idx c \<noteq> - 1"
  shows "trace_inv (es @ e) c'"
proof -
  have unlocked: "unlocked c" and fin: "finite (dom (callbacks c))" using inv by (simp_all add: trace_inv_def context_ok_def)
  from assms(1) show ?thesis
  proof cases
    case (register op cb w tok w')
    then show ?thesis using add_sqe_cb_okD [OF register(2)] trace_inv_register [OF inv assms(3)] by simp
  next
    case (reject op cb w ec w')
    then show ?thesis using add_sqe_cb_errorD [OF reject(2)] inv by simp
  next
    case (plain op w tok w')
    note state = add_sqe_state [OF plain(2)]
    show ?thesis
      by (rule trace_inv_shrink [OF inv _ state(2) assms(3) state(4)])
        (use state(1) state(3) [OF refl] unlocked plain(1) waiting_shrinks [OF state(2) fin] in \<open>simp_all add: unlocked_def\<close>)
  next
    case (plain_reject op w ec w')
    note state = add_sqe_state [OF plain_reject(2)]
    show ?thesis
      by (rule trace_inv_shrink [OF inv _ state(2) assms(3) state(4)])
        (use state(1) unlocked plain_reject(1) waiting_shrinks [OF state(2) fin] in \<open>simp_all add: unlocked_def\<close>)
  next
    case (cancel tok)
    then have c': "unlocked c'" "callbacks c' \<subseteq>\<^sub>m callbacks c" "callbacks_idx c' = callbacks_idx c"
      using unlocked by (auto simp: cancel_def unlocked_def map_le_def split: if_splits)
    show ?thesis
      by (rule trace_inv_shrink [OF inv c'(1,2) assms(3)]) (use cancel(1) c'(3) waiting_shrinks [OF c'(2) fin] in simp_all)
  next
    case (collect cs w cbs m w')
    note taken = waiting_collected [OF collect(4) fin]
    show ?thesis
      by (rule trace_inv_shrink [OF inv _ _ assms(3)])
        (use collect(1,2) unlocked taken in \<open>simp_all add: unlocked_def\<close>)
  next
    case (exit ret w w')
    then show ?thesis
      using context_exit_with_state [OF exit(2)] inv by (simp add: trace_inv_def context_ok_def unlocked_def waiting_def)
  next
    case leave
    then show ?thesis using inv by (simp add: trace_inv_def context_ok_def unlocked_def waiting_def)
  qed
qed

lemma context_trace_inv: "context_trace k lu es c \<Longrightarrow> trace_inv es c"
proof (induction rule: context_trace.induct)
  case (start evfd ri i fd)
  show ?case by (simp add: trace_inv_def context_ok_def unlocked_def context_create_def waiting_def)
next
  case (step es c e c')
  then show ?case using trace_inv_step by blast
qed

section \<open>Order\<close>

text \<open>Each dispatch takes a registration that came before it and that no earlier dispatch took.\<close>

definition dispatch_after_register :: "'c token_event list \<Rightarrow> bool" where
  "dispatch_after_register es \<longleftrightarrow>
     (\<forall>xs cb ys. es = xs @ Dispatched cb # ys \<longrightarrow> count_list (dispatched_in xs) cb < count_list (registered_in xs) cb)"

lemma dispatch_after_register_append:
  assumes "dispatch_after_register es" and "e = map (\<lambda>(cb, res). Dispatched cb) cbs"
    and "mset (dispatched_in (es @ e)) \<subseteq># mset (registered_in es)"
  shows "dispatch_after_register (es @ e)"
  unfolding dispatch_after_register_def
proof (intro allI impI)
  fix xs cb ys
  assume eq: "es @ e = xs @ Dispatched cb # ys"
  then consider us where "xs = es @ us" "e = us @ Dispatched cb # ys" | us where "es = xs @ Dispatched cb # us"
    by (auto simp: append_eq_append_conv2 append_eq_Cons_conv)
  then show "count_list (dispatched_in xs) cb < count_list (registered_in xs) cb"
  proof cases
    case 1
    have "registered_in e = []" unfolding assms(2) by (rule events_collected)
    then have "registered_in us = []" unfolding 1(2) by simp
    moreover have "count_list (dispatched_in (es @ e)) cb \<le> count_list (registered_in es) cb"
      using mset_subset_eq_count [OF assms(3), of cb] by (simp only: count_mset)
    ultimately show ?thesis using 1 by simp
  next
    case 2
    with assms(1) show ?thesis unfolding dispatch_after_register_def by blast
  qed
qed

lemma dispatch_after_register_other:
  assumes "dispatch_after_register es" and "dispatched_in e = []" and "length e \<le> 1"
  shows "dispatch_after_register (es @ e)"
  unfolding dispatch_after_register_def
proof (intro allI impI)
  fix xs cb ys
  assume "es @ e = xs @ Dispatched cb # ys"
  then consider us where "e = us @ Dispatched cb # ys" | us where "es = xs @ Dispatched cb # us"
    by (auto simp: append_eq_append_conv2 append_eq_Cons_conv)
  then show "count_list (dispatched_in xs) cb < count_list (registered_in xs) cb"
    using assms unfolding dispatch_after_register_def by cases auto
qed

lemma context_trace_ordered: "context_trace k lu es c \<Longrightarrow> dispatch_after_register es"
proof (induction rule: context_trace.induct)
  case (start evfd ri i fd)
  show ?case by (simp add: dispatch_after_register_def)
next
  case (step es c e c')
  have "trace_inv (es @ e) c'" using context_trace.step [OF step.hyps] by (rule context_trace_inv)
  then have "mset (dispatched_in (es @ e)) \<subseteq># mset (registered_in (es @ e))"
    unfolding trace_inv_def by (meson mset_subset_eq_add_left subset_mset.order_trans)
  note bound = this
  from step.hyps(3) show ?case
  proof cases
    case (collect cs w cbs m w')
    from step.IH collect(1) show ?thesis by (rule dispatch_after_register_append) (use bound collect(1) in simp)
  qed (use step.IH in \<open>auto intro: dispatch_after_register_other\<close>)
qed

text \<open>
  C6. In every interleaving of operations on a context, up to the wrap-around of the token counter,
  whatever the kernel delivers: no token is given out twice, with or without a callback; every callback that the loop takes for
  its call was registered before, once more often than it had been taken; the callbacks taken and those that still wait in the map are
  together among those registered, so that none is taken twice or taken and kept; and the mutexes are free
  between operations.
\<close>

theorem callbacks_dispatched_at_most_once:
  assumes "context_trace k lu es c"
  shows "distinct (tokens_in es)
     \<and> (\<forall>xs cb ys. es = xs @ Dispatched cb # ys \<longrightarrow> count_list (dispatched_in xs) cb < count_list (registered_in xs) cb)
     \<and> mset (dispatched_in es) + waiting c \<subseteq># mset (registered_in es)
     \<and> unlocked c"
  using context_trace_inv [OF assms] context_trace_ordered [OF assms]
  by (simp add: trace_inv_def context_ok_def dispatch_after_register_def)

definition one_cqe_liburing :: "'w liburing" where
  "one_cqe_liburing = idle_liburing\<lparr>lu_peek_batch_cqe := (\<lambda>n w. ([0], w))\<rparr>"

theorem callbacks_dispatched_at_most_once_witness:
  "\<exists>c :: bool uring_context. context_trace (writable_clinux :: unit clinux) one_cqe_liburing [Registered 0 (User_cb True), Dispatched (User_cb True)] c
     \<and> waiting c = {#} \<and> unlocked c"
proof -
  let ?c0 = "(context_create 3)\<lparr>r_inited := True, inited := True, waker_evfd := 3\<rparr> :: bool uring_context"
  let ?c1 = "registered ?c0 (User_cb True)"
  let ?lu = "one_cqe_liburing :: unit liburing" and ?k = "writable_clinux :: unit clinux"
  have add: "add_sqe_cb ?k ?lu Prep_nop (User_cb True) ?c0 () = Inr (Inr 0, ?c1, ())"
    by (simp add: add_sqe_cb_def base_add_sqe_def uring_get_sqe_def sqe_prep_def sqe_set_data_def wake_def
        registered_def Let_def one_cqe_liburing_def ready_defs)
  have t1: "context_trace ?k ?lu ([] @ [Registered 0 (User_cb True)]) ?c1"
    by (rule context_trace.step [OF context_trace.start _ context_step.register [OF add]])
       (simp add: context_create_def)
  have "collect_callbacks ?lu (map Some [0]) (callbacks ?c1) () =
      Inr ([(User_cb True, Inr 0)], callbacks ?c1 |` (- fst ` set (batch_read ?lu [0] ())), ())"
    unfolding collect_callbacks_eq by (simp add: registered_def one_cqe_liburing_def result_of_res_def context_create_def ready_defs)
  note collected = context_step.collect [OF _ this, of ?k]
  have "\<not> m_callbacks ?c1" by (simp add: registered_def context_create_def)
  note collected [OF this]
  from context_trace.step [OF t1 _ this] obtain c :: "bool uring_context"
    where c: "context_trace ?k ?lu [Registered 0 (User_cb True), Dispatched (User_cb True)] c"
    by (auto simp: registered_def context_create_def)
  from callbacks_dispatched_at_most_once [OF c] have "waiting c = {#}" "unlocked c" by simp_all
  with c show ?thesis by blast
qed

end
