(* ===== verification/Ark_Context_Handle.thy ===== *)
theory Ark_Context_Handle
  imports Ark_Context
begin

text \<open>
  The class \<open>singlethread_uring_async_context\<close> of \<open>async/io_uring/context.hpp\<close>, which programs know as
  \<open>async_context\<close>: it owns a context through a \<open>unique_ptr\<close> and forwards to it. An empty pointer is what a
  move leaves behind. The overload of \<open>add_sqe\<close> without a callback is a template that the library never instantiates.
\<close>

record 'u async_context =
  base_context :: "'u uring_context option"

definition async_context_create :: "int \<Rightarrow> 'u async_context" where
  "async_context_create evfd = \<lparr>base_context = Some (context_create evfd)\<rparr>"

text \<open>\<open>base_->\<close>: the operation \<open>f\<close> on the owned context.\<close>

definition through :: "('u uring_context \<Rightarrow> failure + 'a) \<Rightarrow> 'u async_context \<Rightarrow> failure + 'a" where
  "through f h = (case base_context h of None \<Rightarrow> Inl Null_deref | Some c \<Rightarrow> f c)"

definition async_context_init ::
  "('w, 'z) clinux_scheme \<Rightarrow> 'w liburing \<Rightarrow> 'u async_context \<Rightarrow> 'w \<Rightarrow> failure + unit result \<times> 'u async_context \<times> 'w"
where
  "async_context_init k lu h w =
     through (\<lambda>c. map_sum id (\<lambda>(r, c', w'). (r, h\<lparr>base_context := Some c'\<rparr>, w')) (context_init k lu c w)) h"

definition async_context_wake :: "('w, 'z) clinux_scheme \<Rightarrow> 'u async_context \<Rightarrow> 'w \<Rightarrow> failure + unit result \<times> 'w" where
  "async_context_wake k h w = through (\<lambda>c. Inr (wake k c w)) h"

definition async_context_add_sqe ::
  "('w, 'z) clinux_scheme \<Rightarrow> 'w liburing \<Rightarrow> sqe_op \<Rightarrow> 'u callback \<Rightarrow> 'u async_context \<Rightarrow> 'w
   \<Rightarrow> failure + token_t result \<times> 'u async_context \<times> 'w"
where
  "async_context_add_sqe k lu op cb h w =
     through (\<lambda>c. map_sum id (\<lambda>(r, c', w'). (r, h\<lparr>base_context := Some c'\<rparr>, w')) (add_sqe_cb k lu op cb c w)) h"

definition async_context_cancel :: "token_t \<Rightarrow> 'u async_context \<Rightarrow> failure + 'u async_context" where
  "async_context_cancel token h = through (\<lambda>c. map_sum id (\<lambda>c'. h\<lparr>base_context := Some c'\<rparr>) (cancel token c)) h"

definition async_context_exit ::
  "('w, 'z) clinux_scheme \<Rightarrow> 'u async_context \<Rightarrow> 'w \<Rightarrow> failure + 'u async_context \<times> 'w"
where
  "async_context_exit k h w = through (\<lambda>c. map_sum id (\<lambda>(c', w'). (h\<lparr>base_context := Some c'\<rparr>, w')) (context_exit k c w)) h"

definition async_context_exit_with ::
  "('w, 'z) clinux_scheme \<Rightarrow> unit result \<Rightarrow> 'u async_context \<Rightarrow> 'w \<Rightarrow> failure + 'u async_context \<times> 'w"
where
  "async_context_exit_with k ret h w =
     through (\<lambda>c. map_sum id (\<lambda>(c', w'). (h\<lparr>base_context := Some c'\<rparr>, w')) (context_exit_with k ret c w)) h"

definition async_context_run ::
  "('w, 'z) clinux_scheme \<Rightarrow> 'w liburing \<Rightarrow> ('u, 's, 'w) user_callback \<Rightarrow> 'u async_context \<times> 's \<times> 'w
   \<Rightarrow> (failure + unit result \<times> 'u async_context \<times> 's \<times> 'w) option"
where
  "async_context_run k lu user st =
     (case st of (h, s, w) \<Rightarrow>
        (case base_context h of
           None \<Rightarrow> Some (Inl Null_deref)
         | Some c \<Rightarrow> map_option (map_sum id (\<lambda>(r, c', s', w'). (r, h\<lparr>base_context := Some c'\<rparr>, s', w'))) (context_run k lu user (c, s, w))))"

text \<open>The implicit move constructor, destructor and move assignment.\<close>

definition async_context_move :: "'u async_context \<Rightarrow> 'u async_context \<times> 'u async_context" where
  "async_context_move h = (h, h\<lparr>base_context := None\<rparr>)"

definition async_context_destroy :: "'w liburing \<Rightarrow> 'u async_context \<Rightarrow> 'w \<Rightarrow> 'w" where
  "async_context_destroy lu h w = (case base_context h of None \<Rightarrow> w | Some c \<Rightarrow> context_destroy lu c w)"

definition async_context_assign :: "'w liburing \<Rightarrow> 'u async_context \<Rightarrow> 'u async_context \<Rightarrow> 'w \<Rightarrow> 'u async_context \<times> 'u async_context \<times> 'w" where
  "async_context_assign lu this other w =
     (let w' = (case base_context this of None \<Rightarrow> w | Some c \<Rightarrow> context_destroy lu c w)
      in (this\<lparr>base_context := base_context other\<rparr>, other\<lparr>base_context := None\<rparr>, w'))"

text \<open>The ring of a context is torn down once, by the handle that owns the context last.\<close>

interpretation context_owner: unique_owner base_context async_context_move "async_context_assign lu" "async_context_destroy lu" "context_destroy lu" for lu
  by unfold_locales
     (auto simp: async_context_move_def async_context_assign_def async_context_destroy_def give_back_def Let_def split: option.splits)

section \<open>Exit and run\<close>

text \<open>
  What a program relies on when it ends its loop: a loop that is asked to exit returns what it was
  asked to return, and is then as good as new. Both classes promise it.
\<close>

definition exit_result :: "unit result \<Rightarrow> unit result" where
  "exit_result ret = (case ret of Inl ec \<Rightarrow> if is_error ec then Inl ec else Inr () | Inr u \<Rightarrow> Inr ())"

locale exit_contract =
  fixes exit_with :: "unit result \<Rightarrow> 'h \<Rightarrow> 'w \<Rightarrow> failure + 'h \<times> 'w"
    and run :: "'h \<times> 's \<times> 'w \<Rightarrow> (failure + unit result \<times> 'h \<times> 's \<times> 'w) option"
    and clean :: "'h \<Rightarrow> bool"
  assumes exits: "exit_with ret h w = Inr (h', w') \<Longrightarrow> clean h \<Longrightarrow> \<exists>h''. clean h'' \<and> run (h', s, w') = Some (Inr (exit_result ret, h'', s, w'))"
begin

lemma run_returns:
  assumes "exit_with ret h w = Inr (h', w')" "clean h" "run (h', s, w') = Some (Inr (out, h'', s'', w''))"
  shows "out = exit_result ret" "clean h''" "s'' = s" "w'' = w'"
  using exits [OF assms(1,2), of s] assms(3) by auto

lemma run_again:
  assumes "exit_with ret h w = Inr (h1, w1)" "clean h" "run (h1, s, w1) = Some (Inr (out, h2, s2, w2))" "exit_with ret' h2 w2 = Inr (h3, w3)"
  shows "\<exists>h4. clean h4 \<and> run (h3, s2, w3) = Some (Inr (exit_result ret', h4, s2, w3))"
  using exits [OF assms(4)] run_returns(2) [OF assms(1-3)] by blast

end

definition exit_clean :: "'u uring_context \<Rightarrow> bool" where
  "exit_clean c \<longleftrightarrow> \<not> is_error (exiting_error c)"

interpretation base_exit: exit_contract "context_exit_with k" "context_run k lu user" exit_clean
  for k :: "('w, 'z) clinux_scheme" and lu and user :: "('u, 's, 'w) user_callback"
proof
  fix ret and c :: "'u uring_context" and w c' w' and s :: 's
  assume exit: "context_exit_with k ret c w = Inr (c', w')" and "exit_clean c"
  then show "\<exists>c''. exit_clean c'' \<and> context_run k lu user (c', s, w') = Some (Inr (exit_result ret, c'', s, w'))"
    unfolding context_exit_with_state [OF exit]
    by (subst context_run.simps) (simp add: run_iteration_def exit_result_def exit_clean_def is_error_def no_error_def split: sum.split)
qed

interpretation handle_exit: exit_contract "async_context_exit_with k" "async_context_run k lu user"
  "\<lambda>h. \<forall>c. base_context h = Some c \<longrightarrow> exit_clean c"
  for k :: "('w, 'z) clinux_scheme" and lu and user :: "('u, 's, 'w) user_callback"
proof
  fix ret and h :: "'u async_context" and w h' w' and s :: 's
  assume exit: "async_context_exit_with k ret h w = Inr (h', w')" and clean: "\<forall>c. base_context h = Some c \<longrightarrow> exit_clean c"
  then obtain c c' where c: "base_context h = Some c" "context_exit_with k ret c w = Inr (c', w')" "h' = h\<lparr>base_context := Some c'\<rparr>"
    by (auto simp: async_context_exit_with_def through_def map_sum_eq_Inr split: option.splits)
  with clean base_exit.exits [of k ret c w c' w' lu user s] obtain c'' where
    "exit_clean c''" "context_run k lu user (c', s, w') = Some (Inr (exit_result ret, c'', s, w'))" by auto
  then show "\<exists>h''. (\<forall>c. base_context h'' = Some c \<longrightarrow> exit_clean c)
      \<and> async_context_run k lu user (h', s, w') = Some (Inr (exit_result ret, h'', s, w'))"
    by (intro exI [of _ "h\<lparr>base_context := Some c''\<rparr>"]) (simp add: async_context_run_def c(3))
qed

end
