(* ===== verification/Ark_Fd.thy ===== *)
theory Ark_Fd
  imports Ark_Bindings Ark_Owner
begin

text \<open>
  \<open>include/ark/async/context.hpp\<close> (\<open>with_async_context\<close>), \<open>include/ark/io/fd.hpp\<close> and the
  concepts \<open>Fd\<close> and \<open>Seekable\<close> of \<open>include/ark/io/concepts.hpp\<close>: io objects.

  An io object holds a nullable pointer to an \<open>async_context\<close> (here its number) and a
  \<open>unique_ptr\<close> to a \<open>base_type\<close>, which closes the descriptor in its destructor. Moving an
  object leaves the source with an empty \<open>unique_ptr\<close> and a copy of the context pointer.
  The locale \<open>seekable_object\<close> is the concept \<open>Seekable\<close> with the laws its documentation
  states.
\<close>

section \<open>Objects\<close>

record with_async_context =
  ctx_ptr :: "nat option"

definition get_context :: "'z with_async_context_scheme \<Rightarrow> failure + nat" where
  "get_context obj = (case ctx_ptr obj of None \<Rightarrow> Inl Contract_violation | Some c \<Rightarrow> Inr c)"

definition set_async_context :: "nat option \<Rightarrow> 'z with_async_context_scheme \<Rightarrow> 'z with_async_context_scheme" where
  "set_async_context ctx obj = obj\<lparr>ctx_ptr := ctx\<rparr>"

record fd_base =
  fildes :: int

record fd = with_async_context +
  base_ptr :: "fd_base option"

record seekable_base = fd_base +
  offset_val :: off_t

record seekable_fd = with_async_context +
  sbase_ptr :: "seekable_base option"

text \<open>\<open>base_type::close\<close>, the same text in both classes.\<close>

definition base_close :: "('w, 'z) clinux_scheme \<Rightarrow> 'b fd_base_scheme \<Rightarrow> 'w \<Rightarrow> unit result \<times> 'w" where
  "base_close k b w =
     (let (r, w') = k_close k (fildes b) w
      in if r \<noteq> 0 then (Inl (errno_ec k w'), w') else (Inr (), w'))"

section \<open>The class fd\<close>

definition fd_empty :: fd where
  "fd_empty = \<lparr>ctx_ptr = None, base_ptr = None\<rparr>"

definition fd_create :: "int \<Rightarrow> fd" where
  "fd_create fd_int = \<lparr>ctx_ptr = None, base_ptr = Some \<lparr>fildes = fd_int\<rparr>\<rparr>"

text \<open>\<open>close()\<close>: the result, the object afterwards, which still holds its \<open>base_\<close>, and the world.\<close>

definition fd_close :: "('w, 'z) clinux_scheme \<Rightarrow> fd \<Rightarrow> 'w \<Rightarrow> unit result \<times> fd \<times> 'w" where
  "fd_close k f w =
     (case base_ptr f of
        Some b \<Rightarrow> (case base_close k b w of (r, w') \<Rightarrow> (r, f, w'))
      | None \<Rightarrow> (Inr (), f, w))"

definition fd_get :: "fd \<Rightarrow> failure + int" where
  "fd_get f = (case base_ptr f of None \<Rightarrow> Inl Contract_violation | Some b \<Rightarrow> Inr (fildes b))"

text \<open>The move constructor (the new object, the moved-from object) and the destructor.\<close>

definition fd_move :: "fd \<Rightarrow> fd \<times> fd" where
  "fd_move f = (f, f\<lparr>base_ptr := None\<rparr>)"

definition fd_destroy :: "('w, 'z) clinux_scheme \<Rightarrow> fd \<Rightarrow> 'w \<Rightarrow> 'w" where
  "fd_destroy k f w = (case base_ptr f of Some b \<Rightarrow> snd (base_close k b w) | None \<Rightarrow> w)"

text \<open>The implicit move assignment: the \<open>unique_ptr\<close> of the target destroys what it held.\<close>

definition fd_assign :: "('w, 'z) clinux_scheme \<Rightarrow> fd \<Rightarrow> fd \<Rightarrow> 'w \<Rightarrow> fd \<times> fd \<times> 'w" where
  "fd_assign k this other w =
     (let w' = (case base_ptr this of Some b \<Rightarrow> snd (base_close k b w) | None \<Rightarrow> w)
      in (this\<lparr>ctx_ptr := ctx_ptr other, base_ptr := base_ptr other\<rparr>, other\<lparr>base_ptr := None\<rparr>, w'))"

section \<open>The class seekable_fd\<close>

definition seekable_fd_empty :: seekable_fd where
  "seekable_fd_empty = \<lparr>ctx_ptr = None, sbase_ptr = None\<rparr>"

definition seekable_fd_create :: "int \<Rightarrow> seekable_fd" where
  "seekable_fd_create fd_int = \<lparr>ctx_ptr = None, sbase_ptr = Some \<lparr>fildes = fd_int, offset_val = 0\<rparr>\<rparr>"

definition seekable_close :: "('w, 'z) clinux_scheme \<Rightarrow> seekable_fd \<Rightarrow> 'w \<Rightarrow> unit result \<times> seekable_fd \<times> 'w" where
  "seekable_close k f w =
     (case sbase_ptr f of
        Some b \<Rightarrow> (case base_close k b w of (r, w') \<Rightarrow> (r, f, w'))
      | None \<Rightarrow> (Inr (), f, w))"

definition seekable_get :: "seekable_fd \<Rightarrow> failure + int" where
  "seekable_get f = (case sbase_ptr f of None \<Rightarrow> Inl Contract_violation | Some b \<Rightarrow> Inr (fildes b))"

definition seekable_offset :: "seekable_fd \<Rightarrow> failure + off_t" where
  "seekable_offset f = (case sbase_ptr f of None \<Rightarrow> Inl Contract_violation | Some b \<Rightarrow> Inr (offset_val b))"

definition seekable_seek :: "seekable_fd \<Rightarrow> off_t \<Rightarrow> failure + seekable_fd" where
  "seekable_seek f off =
     (case sbase_ptr f of None \<Rightarrow> Inl Contract_violation
      | Some b \<Rightarrow> Inr (f\<lparr>sbase_ptr := Some (b\<lparr>offset_val := off\<rparr>)\<rparr>))"

definition seekable_feed :: "seekable_fd \<Rightarrow> off_t \<Rightarrow> failure + seekable_fd" where
  "seekable_feed f rel_off =
     (case sbase_ptr f of None \<Rightarrow> Inl Contract_violation
      | Some b \<Rightarrow>
          (if off_t_in_range (offset_val b + rel_off)
           then Inr (f\<lparr>sbase_ptr := Some (b\<lparr>offset_val := offset_val b + rel_off\<rparr>)\<rparr>)
           else Inl Signed_overflow))"

definition seekable_move :: "seekable_fd \<Rightarrow> seekable_fd \<times> seekable_fd" where
  "seekable_move f = (f, f\<lparr>sbase_ptr := None\<rparr>)"

definition seekable_destroy :: "('w, 'z) clinux_scheme \<Rightarrow> seekable_fd \<Rightarrow> 'w \<Rightarrow> 'w" where
  "seekable_destroy k f w = (case sbase_ptr f of Some b \<Rightarrow> snd (base_close k b w) | None \<Rightarrow> w)"

definition seekable_assign :: "('w, 'z) clinux_scheme \<Rightarrow> seekable_fd \<Rightarrow> seekable_fd \<Rightarrow> 'w \<Rightarrow> seekable_fd \<times> seekable_fd \<times> 'w" where
  "seekable_assign k this other w =
     (let w' = (case sbase_ptr this of Some b \<Rightarrow> snd (base_close k b w) | None \<Rightarrow> w)
      in (this\<lparr>ctx_ptr := ctx_ptr other, sbase_ptr := sbase_ptr other\<rparr>, other\<lparr>sbase_ptr := None\<rparr>, w'))"

section \<open>The concepts Fd and Seekable\<close>

text \<open>
  The I/O templates take any type that satisfies \<open>Fd\<close> and test \<open>Seekable<Fd>\<close> at compile
  time: the object is one of the two classes.
\<close>

datatype io_fd =
    Nonseekable fd
  | Seekable seekable_fd

fun io_get :: "io_fd \<Rightarrow> failure + int" where
  "io_get (Nonseekable f) = fd_get f"
| "io_get (Seekable f) = seekable_get f"

fun io_context :: "io_fd \<Rightarrow> failure + nat" where
  "io_context (Nonseekable f) = get_context f"
| "io_context (Seekable f) = get_context f"

text \<open>\<open>if constexpr (concepts::Seekable<Fd>) f.feed(n);\<close>\<close>

fun io_feed :: "io_fd \<Rightarrow> off_t \<Rightarrow> failure + io_fd" where
  "io_feed (Nonseekable f) n = Inr (Nonseekable f)"
| "io_feed (Seekable f) n =
     (case seekable_feed f n of Inl e \<Rightarrow> Inl e | Inr f' \<Rightarrow> Inr (Seekable f'))"

text \<open>The destructor of an object of either kind, at the end of its scope.\<close>

definition io_destroy :: "('w, 'z) clinux_scheme \<Rightarrow> io_fd \<Rightarrow> 'w \<Rightarrow> 'w" where
  "io_destroy k f w = (case f of Nonseekable d \<Rightarrow> fd_destroy k d w | Seekable s \<Rightarrow> seekable_destroy k s w)"

section \<open>Laws\<close>

text \<open>One feed after another, as a sequence of completed transfers makes them.\<close>

fun feed_all :: "('f \<Rightarrow> off_t \<Rightarrow> failure + 'f) \<Rightarrow> 'f \<Rightarrow> off_t list \<Rightarrow> failure + 'f" where
  "feed_all feed f [] = Inr f"
| "feed_all feed f (n # ns) = (case feed f n of Inl e \<Rightarrow> Inl e | Inr f' \<Rightarrow> feed_all feed f' ns)"

locale seekable_object =
  fixes offset :: "'f \<Rightarrow> failure + off_t"
    and seek :: "'f \<Rightarrow> off_t \<Rightarrow> failure + 'f"
    and feed :: "'f \<Rightarrow> off_t \<Rightarrow> failure + 'f"
  assumes seek_offset: "offset f = Inr a \<Longrightarrow> \<exists>f'. seek f b = Inr f' \<and> offset f' = Inr b"
    and seek_same: "offset f = Inr a \<Longrightarrow> seek f a = Inr f"
    and seek_seek: "seek f a = Inr f' \<Longrightarrow> seek f' b = seek f b"
    and feed_is_seek: "offset f = Inr a \<Longrightarrow> off_t_in_range (a + n) \<Longrightarrow> feed f n = seek f (a + n)"
    and feed_overflow: "offset f = Inr a \<Longrightarrow> \<not> off_t_in_range (a + n) \<Longrightarrow> feed f n = Inl Signed_overflow"
begin

lemma feed_offset:
  "offset f = Inr a \<Longrightarrow> off_t_in_range (a + n) \<Longrightarrow> \<exists>f'. feed f n = Inr f' \<and> offset f' = Inr (a + n)"
  by (simp add: feed_is_seek seek_offset)

lemma feed_feed:
  assumes "offset f = Inr a" "off_t_in_range (a + m)" "off_t_in_range (a + m + n)" "feed f m = Inr f'"
  shows "feed f' n = feed f (m + n)"
proof -
  have "offset f' = Inr (a + m)"
    using feed_offset [OF assms(1,2)] assms(4) by auto
  then have "feed f' n = seek f' (a + m + n)"
    using assms(3) by (rule feed_is_seek)
  also have "\<dots> = seek f (a + m + n)"
    using assms feed_is_seek [OF assms(1,2)] by (auto intro: seek_seek)
  also have "\<dots> = feed f (m + n)"
    using assms by (simp add: feed_is_seek add.assoc)
  finally show ?thesis .
qed

lemma feed_all_seek:
  assumes "offset f = Inr a"
  shows "feed_all feed f ns =
    (if \<forall>i < length ns. off_t_in_range (a + sum_list (take (Suc i) ns)) then seek f (a + sum_list ns) else Inl Signed_overflow)"
  using assms
proof (induction ns arbitrary: f a)
  case Nil
  then show ?case by (simp add: seek_same)
next
  case (Cons n ns)
  have all: "(\<forall>i < length (n # ns). off_t_in_range (a + sum_list (take (Suc i) (n # ns)))) \<longleftrightarrow>
      off_t_in_range (a + n) \<and> (\<forall>i < length ns. off_t_in_range (a + n + sum_list (take (Suc i) ns)))"
    by (simp add: All_less_Suc2 add.assoc)
  show ?case
  proof (cases "off_t_in_range (a + n)")
    case True
    then obtain f' where f': "feed f n = Inr f'" "offset f' = Inr (a + n)" using feed_offset [OF Cons.prems] by blast
    then have "seek f (a + n) = Inr f'" using feed_is_seek [OF Cons.prems True] by simp
    with Cons.IH [OF f'(2)] show ?thesis unfolding all using True by (auto simp: f'(1) seek_seek add.assoc)
  next
    case False
    then show ?thesis unfolding all by (simp add: feed_overflow [OF Cons.prems])
  qed
qed

end

interpretation seekable: seekable_object seekable_offset seekable_seek seekable_feed
  by unfold_locales
     (auto simp: seekable_offset_def seekable_seek_def seekable_feed_def split: option.splits)

text \<open>
  C27. However many transfers have completed on a seekable object, its offset is the initial one plus the sum
  of their sizes, and nothing else of it has changed: a sequence of feeds is one seek. If some partial
  sum leaves the range of \<open>off_t\<close>, the addition is a signed overflow.
\<close>

theorem feed_accumulates:
  assumes "seekable_offset f = Inr a"
  shows "feed_all seekable_feed f ns =
    (if \<forall>i < length ns. off_t_in_range (a + sum_list (take (Suc i) ns)) then seekable_seek f (a + sum_list ns) else Inl Signed_overflow)"
  using assms by (rule seekable.feed_all_seek)

theorem feed_accumulates_witness:
  "feed_all seekable_feed (seekable_fd_create 5) [100, 24, -4] = seekable_seek (seekable_fd_create 5) 120
   \<and> feed_all seekable_feed (seekable_fd_create 5) [9223372036854775807, 1] = Inl Signed_overflow"
proof -
  have "seekable_offset (seekable_fd_create 5) = Inr 0" by (simp add: seekable_offset_def seekable_fd_create_def)
  note feeds = feed_accumulates [OF this]
  have fits: "\<forall>i < length [100, 24, -4]. off_t_in_range (0 + sum_list (take (Suc i) [100, 24, -4]))"
    by (simp add: off_t_in_range_def All_less_Suc2)
  have leaves: "\<not> (\<forall>i < length [9223372036854775807, 1]. off_t_in_range (0 + sum_list (take (Suc i) [9223372036854775807, 1])))"
    by (auto simp: off_t_in_range_def intro!: exI [of _ 1])
  from trans [OF feeds if_P [OF fits]] trans [OF feeds if_not_P [OF leaves]] show ?thesis by simp
qed

section \<open>Ownership\<close>

definition fd_owned :: "fd \<Rightarrow> int option" where
  "fd_owned f = map_option fildes (base_ptr f)"

definition seekable_owned :: "seekable_fd \<Rightarrow> int option" where
  "seekable_owned f = map_option fildes (sbase_ptr f)"

lemma base_close_world: "snd (base_close k b w) = snd (k_close k (fildes b) w)"
  by (simp add: base_close_def split: prod.splits)

interpretation fd_owner: unique_owner fd_owned fd_move "fd_assign k" "fd_destroy k" "\<lambda>n w. snd (k_close k n w)" for k
  by unfold_locales
     (auto simp: fd_owned_def fd_move_def fd_assign_def fd_destroy_def base_close_world give_back_def Let_def split: option.splits)

interpretation seekable_owner: unique_owner seekable_owned seekable_move "seekable_assign k" "seekable_destroy k"
  "\<lambda>n w. snd (k_close k n w)" for k
  by unfold_locales
     (auto simp: seekable_owned_def seekable_move_def seekable_assign_def seekable_destroy_def base_close_world give_back_def Let_def
       split: option.splits)

end
