(* ===== verification/Ark_Buffer.thy ===== *)
theory Ark_Buffer
  imports Ark_Prelude
begin

text \<open>
  \<open>include/ark/buffer/buffer.hpp\<close>: buffers, unowning views of a range of memory.

  A \<open>base_buffer\<close> is a \<open>gsl::span\<close> of one-byte characters and is represented by what a
  span gives access to, its data pointer and its size; \<open>mutable_buffer\<close> and
  \<open>const_buffer\<close> differ in the constness of the characters only. The one operation of
  \<open>gsl::span\<close> the source calls, \<open>subspan\<close>, belongs to the GSL submodule: it is the
  parameter \<open>ss\<close> of the definitions that use it, and \<open>gsl_subspan ss\<close> states what its
  documentation promises (an offset within the span gives the rest of the span). That an offset
  beyond the span violates the contract of \<open>subspan\<close> is \<open>subspan_contract ss\<close>.
\<close>

section \<open>Views\<close>

record base_buffer =
  b_data :: addr
  b_size :: size_t

type_synonym mutable_buffer = base_buffer
type_synonym const_buffer = base_buffer

type_synonym subspan_t = "base_buffer \<Rightarrow> size_t \<Rightarrow> failure + base_buffer"

definition gsl_subspan :: "subspan_t \<Rightarrow> bool" where
  "gsl_subspan ss \<longleftrightarrow>
     (\<forall>b n. n \<le> b_size b \<longrightarrow> ss b n = Inr \<lparr>b_data = b_data b + n, b_size = b_size b - n\<rparr>)"

definition subspan_contract :: "subspan_t \<Rightarrow> bool" where
  "subspan_contract ss \<longleftrightarrow> (\<forall>b n. b_size b < n \<longrightarrow> ss b n = Inl Contract_violation)"

text \<open>One function that keeps these promises; the closed instances of the theorems use it.\<close>

definition plain_subspan :: subspan_t where
  "plain_subspan b n =
     (if n \<le> b_size b then Inr \<lparr>b_data = b_data b + n, b_size = b_size b - n\<rparr> else Inl Contract_violation)"

definition buffer_advance :: "subspan_t \<Rightarrow> base_buffer \<Rightarrow> size_t \<Rightarrow> failure + base_buffer" where
  "buffer_advance ss b offset = ss b offset"

definition buffer_plus :: "base_buffer \<Rightarrow> size_t \<Rightarrow> base_buffer" where
  "buffer_plus b n = \<lparr>b_data = b_data b + min n (b_size b), b_size = b_size b - min n (b_size b)\<rparr>"

section \<open>Creation\<close>

definition buffer_of_ptr :: "addr \<Rightarrow> size_t \<Rightarrow> base_buffer" where
  "buffer_of_ptr p n = \<lparr>b_data = p, b_size = n\<rparr>"

definition buffer_limit :: "base_buffer \<Rightarrow> size_t \<Rightarrow> base_buffer" where
  "buffer_limit b n = \<lparr>b_data = b_data b, b_size = min (b_size b) n\<rparr>"

text \<open>
  The contiguous containers the \<open>buffer\<close> overloads take (built-in arrays, \<open>std::array\<close>,
  \<open>std::vector\<close>, \<open>std::basic_string\<close>, \<open>std::basic_string_view\<close>), by the address of
  their first element, the number of elements and the size of one.
\<close>

record container =
  c_begin :: addr
  c_count :: size_t
  c_elem_size :: size_t

definition buffer_of_data :: "container \<Rightarrow> base_buffer" where
  "buffer_of_data c =
     buffer_of_ptr (if c_count c \<noteq> 0 then c_begin c else nullptr) (c_count c * c_elem_size c)"

definition buffer_of_data_n :: "container \<Rightarrow> size_t \<Rightarrow> base_buffer" where
  "buffer_of_data_n c n = buffer_limit (buffer_of_data c) n"

section \<open>The bytes of a buffer\<close>

definition buf_addrs :: "base_buffer \<Rightarrow> addr list" where
  "buf_addrs b = addr_range (b_data b) (unat (b_size b))"

lemma gsl_subspan_plain [simp]: "gsl_subspan plain_subspan"
  by (simp add: gsl_subspan_def plain_subspan_def)

lemma subspan_contract_plain [simp]: "subspan_contract plain_subspan"
  by (auto simp: subspan_contract_def plain_subspan_def)

lemma length_buf_addrs [simp]: "length (buf_addrs b) = unat (b_size b)"
  by (simp add: buf_addrs_def)

lemma buf_addrs_advance:
  assumes "gsl_subspan ss" and "n \<le> b_size b"
  obtains b' where "buffer_advance ss b n = Inr b'" and "b_size b' = b_size b - n"
    and "buf_addrs b' = drop (unat n) (buf_addrs b)"
  using assms by (auto simp: gsl_subspan_def buffer_advance_def buf_addrs_def ark_range ark_word)

lemma buf_addrs_plus: "buf_addrs (buffer_plus b n) = drop (unat n) (buf_addrs b)"
  by (auto simp: buffer_plus_def buf_addrs_def ark_range ark_word min_def)

lemma buf_addrs_limit: "buf_addrs (buffer_limit b n) = take (unat n) (buf_addrs b)"
  by (simp add: buffer_limit_def buf_addrs_def ark_range ark_word min.commute)

lemma buf_addrs_of_data:
  assumes "unat (c_count c) * unat (c_elem_size c) < 2 ^ 64"
  shows "buf_addrs (buffer_of_data c) = addr_range (c_begin c) (unat (c_count c) * unat (c_elem_size c))"
  using assms by (auto simp: buffer_of_data_def buffer_of_ptr_def buf_addrs_def unat_word_ariths)

section \<open>Sequences of operations\<close>

text \<open>
  What a program does to a buffer it got from a container: \<open>+\<close>, \<open>+=\<close>, and \<open>buffer(b, n)\<close>. On the list of the
  bytes that the buffer gives access to, the first two are \<open>drop\<close> and the third is \<open>take\<close>.
\<close>

datatype buffer_op = Plus size_t | Advance size_t | Limit size_t

primrec apply_op :: "subspan_t \<Rightarrow> buffer_op \<Rightarrow> base_buffer \<Rightarrow> failure + base_buffer" where
  "apply_op ss (Plus n) b = Inr (buffer_plus b n)"
| "apply_op ss (Advance n) b = buffer_advance ss b n"
| "apply_op ss (Limit n) b = Inr (buffer_limit b n)"

primrec apply_ops :: "subspan_t \<Rightarrow> buffer_op list \<Rightarrow> base_buffer \<Rightarrow> failure + base_buffer" where
  "apply_ops ss [] b = Inr b"
| "apply_ops ss (oper # opers) b = (case apply_op ss oper b of Inl e \<Rightarrow> Inl e | Inr b' \<Rightarrow> apply_ops ss opers b')"

primrec op_bytes :: "buffer_op \<Rightarrow> 'a list \<Rightarrow> 'a list" where
  "op_bytes (Plus n) xs = drop (unat n) xs"
| "op_bytes (Advance n) xs = drop (unat n) xs"
| "op_bytes (Limit n) xs = take (unat n) xs"

text \<open>Only \<open>+=\<close> has a precondition, that of \<open>subspan\<close>: the offset lies in the buffer.\<close>

primrec ops_fit :: "buffer_op list \<Rightarrow> 'a list \<Rightarrow> bool" where
  "ops_fit [] xs \<longleftrightarrow> True"
| "ops_fit (oper # opers) xs \<longleftrightarrow>
     (case oper of Advance n \<Rightarrow> unat n \<le> length xs | _ \<Rightarrow> True) \<and> ops_fit opers (op_bytes oper xs)"

lemma apply_op_bytes:
  assumes "gsl_subspan ss" and "ops_fit [oper] (buf_addrs b)"
  obtains b' where "apply_op ss oper b = Inr b'" and "buf_addrs b' = op_bytes oper (buf_addrs b)"
proof (cases oper)
  case (Advance n)
  with assms(2) have "n \<le> b_size b" by (simp add: word_le_nat_alt)
  then obtain b' where "buffer_advance ss b n = Inr b'" "buf_addrs b' = drop (unat n) (buf_addrs b)"
    by (rule buf_addrs_advance [OF assms(1)])
  with Advance that show ?thesis by simp
qed (use that in \<open>simp_all add: buf_addrs_plus buf_addrs_limit\<close>)

lemma apply_ops_bytes:
  assumes "gsl_subspan ss" and "ops_fit opers (buf_addrs b)"
  shows "\<exists>b'. apply_ops ss opers b = Inr b' \<and> buf_addrs b' = fold op_bytes opers (buf_addrs b)"
  using assms(2)
proof (induction opers arbitrary: b)
  case (Cons oper opers)
  then obtain b1 where "apply_op ss oper b = Inr b1" "buf_addrs b1 = op_bytes oper (buf_addrs b)"
    using apply_op_bytes [OF assms(1), of oper b] by auto
  with Cons.IH [of b1] Cons.prems show ?case by simp
qed simp

lemma apply_ops_unfit:
  assumes "gsl_subspan ss" and "subspan_contract ss" and "\<not> ops_fit opers (buf_addrs b)"
  shows "apply_ops ss opers b = Inl Contract_violation"
  using assms(3)
proof (induction opers arbitrary: b)
  case (Cons oper opers)
  show ?case
  proof (cases "ops_fit [oper] (buf_addrs b)")
    case True
    then obtain b1 where "apply_op ss oper b = Inr b1" "buf_addrs b1 = op_bytes oper (buf_addrs b)"
      by (rule apply_op_bytes [OF assms(1)])
    with Cons.IH [of b1] Cons.prems True show ?thesis by simp
  next
    case False
    with assms(2) show ?thesis
      by (auto simp: subspan_contract_def buffer_advance_def word_less_nat_alt split: buffer_op.splits)
  qed
qed simp

lemma op_bytes_part: "\<exists>before after. xs = before @ op_bytes oper xs @ after"
  by (cases oper) (metis append.right_neutral append_take_drop_id op_bytes.simps, metis append.right_neutral append_take_drop_id op_bytes.simps,
      metis append.left_neutral append_take_drop_id op_bytes.simps(3))

lemma fold_op_bytes_part: "\<exists>before after. xs = before @ fold op_bytes opers xs @ after"
proof (induction opers arbitrary: xs)
  case (Cons oper opers)
  obtain b1 a1 where 1: "xs = b1 @ op_bytes oper xs @ a1" using op_bytes_part by blast
  obtain b2 a2 where 2: "op_bytes oper xs = b2 @ fold op_bytes opers (op_bytes oper xs) @ a2" using Cons.IH by blast
  have "xs = b1 @ (b2 @ fold op_bytes opers (op_bytes oper xs) @ a2) @ a1" unfolding 2 [symmetric] by (rule 1)
  then have "xs = (b1 @ b2) @ fold op_bytes (oper # opers) xs @ (a2 @ a1)" by simp
  then show ?case by blast
qed (use append.right_neutral append.left_neutral in \<open>metis fold_simps(1)\<close>)

text \<open>
  C8. Buffer arithmetic stays inside the container. A buffer made from a container of less than \<open>2 ^ 64\<close> bytes is put
  through any sequence of \<open>+\<close>, \<open>+=\<close> and \<open>buffer(b, n)\<close>, with limits of any size and offsets of any size. If every offset
  of a \<open>+=\<close> lies within the buffer it is added to, the buffer gives access to exactly the bytes that dropping and
  taking as many leaves, a contiguous part of the bytes of the container; so a write through it changes no byte outside
  the container. Otherwise the program stops on the contract of \<open>subspan\<close>: unlike \<open>+\<close>, \<open>+=\<close> does not clamp its offset.
\<close>

theorem buffer_stays_inside:
  assumes "gsl_subspan ss" and "subspan_contract ss" and "unat (c_count c) * unat (c_elem_size c) < 2 ^ 64"
    and "region = addr_range (c_begin c) (unat (c_count c) * unat (c_elem_size c))"
  shows "if ops_fit opers region
    then \<exists>b. apply_ops ss opers (buffer_of_data c) = Inr b \<and> buf_addrs b = fold op_bytes opers region
      \<and> (\<exists>before after. region = before @ buf_addrs b @ after)
      \<and> (\<forall>m bs a. a \<notin> set region \<longrightarrow> store m (buf_addrs b) bs a = m a)
    else apply_ops ss opers (buffer_of_data c) = Inl Contract_violation"
proof (cases "ops_fit opers region")
  case True
  have r: "buf_addrs (buffer_of_data c) = region" using buf_addrs_of_data [OF assms(3)] assms(4) by simp
  then obtain b where b: "apply_ops ss opers (buffer_of_data c) = Inr b" "buf_addrs b = fold op_bytes opers region"
    using apply_ops_bytes [OF assms(1), of opers "buffer_of_data c"] True by auto
  have part: "\<exists>before after. region = before @ buf_addrs b @ after" using fold_op_bytes_part [of region opers] b(2) by simp
  then have "set (buf_addrs b) \<subseteq> set region" by (metis Un_iff set_append subsetI)
  then have "store m (buf_addrs b) bs a = m a" if "a \<notin> set region" for m bs a using that by (auto intro: store_other)
  with b part True show ?thesis by auto
next
  case False
  then show ?thesis
    using apply_ops_unfit [OF assms(1,2), of opers "buffer_of_data c"] buf_addrs_of_data [OF assms(3)] assms(4) by simp
qed

theorem buffer_stays_inside_witness:
  "(\<exists>b. apply_ops plain_subspan [Plus 2, Advance 3, Limit 100, Plus (- 1), Limit 1]
       (buffer_of_data \<lparr>c_begin = 4096, c_count = 4, c_elem_size = 2\<rparr>) = Inr b
     \<and> buf_addrs b = fold op_bytes [Plus 2, Advance 3, Limit 100, Plus (- 1), Limit 1] (addr_range 4096 8))
   \<and> apply_ops plain_subspan [Plus 2, Advance 7] (buffer_of_data \<lparr>c_begin = 4096, c_count = 4, c_elem_size = 2\<rparr>) = Inl Contract_violation"
  using buffer_stays_inside [of plain_subspan "\<lparr>c_begin = 4096, c_count = 4, c_elem_size = 2\<rparr>" "addr_range 4096 8"
      "[Plus 2, Advance 3, Limit 100, Plus (- 1), Limit 1]"]
    buffer_stays_inside [of plain_subspan "\<lparr>c_begin = 4096, c_count = 4, c_elem_size = 2\<rparr>" "addr_range 4096 8"
      "[Plus 2, Advance 7]"] by auto

end
