(* ===== verification/Ark_Sequence.thy ===== *)
theory Ark_Sequence
  imports Ark_Buffer
begin

text \<open>
  \<open>include/ark/buffer/sequence.hpp\<close>: sequences of buffers, their size and the copy between
  them.

  A sequence is one buffer or a container of buffers; \<open>sequence_range\<close> is the range
  between \<open>buffer_sequence_begin\<close> and \<open>buffer_sequence_end\<close>. \<open>seq_addrs\<close> lists the
  addresses of all bytes of a sequence in order: it is the view against which the
  scatter/gather operations of the library are specified.
\<close>

section \<open>Sequences\<close>

datatype buffer_sequence =
    Single base_buffer
  | Container_of "base_buffer list"

fun sequence_range :: "buffer_sequence \<Rightarrow> base_buffer list" where
  "sequence_range (Single b) = [b]"
| "sequence_range (Container_of bs) = bs"

text \<open>The member \<open>size()\<close> of the sequence object: bytes for a buffer, buffers for a container.\<close>

fun sequence_size_member :: "buffer_sequence \<Rightarrow> size_t" where
  "sequence_size_member (Single b) = b_size b"
| "sequence_size_member (Container_of bs) = of_nat (length bs)"

fun buffer_size_loop :: "base_buffer list \<Rightarrow> size_t \<Rightarrow> size_t" where
  "buffer_size_loop [] total_size = total_size"
| "buffer_size_loop (b # bs) total_size = buffer_size_loop bs (total_size + b_size b)"

definition buffer_size :: "buffer_sequence \<Rightarrow> size_t" where
  "buffer_size buffers = buffer_size_loop (sequence_range buffers) 0"

section \<open>Copying\<close>

text \<open>
  The function ends in one of three ways: it returns a count, it flows off its end (the
  source has no \<open>return\<close> after the loop; the count and the memory at that point are kept
  for the specification), or it fails before.
\<close>

datatype copy_outcome =
    Copy_returned size_t mem
  | Copy_flowed_off size_t mem
  | Copy_failed failure

text \<open>The two updates at the end of the loop body: to the next buffer, or further in this one.\<close>

definition copy_next ::
  "subspan_t \<Rightarrow> base_buffer list \<Rightarrow> base_buffer \<Rightarrow> size_t \<Rightarrow> failure + base_buffer list \<times> base_buffer"
where
  "copy_next ss it cur curr_sz =
     (if b_size cur = curr_sz
      then Inr (tl it, if tl it \<noteq> [] then hd (tl it) else cur)
      else case buffer_advance ss cur curr_sz of Inl e \<Rightarrow> Inl e | Inr cur' \<Rightarrow> Inr (it, cur'))"

function buffer_copy_loop ::
  "subspan_t \<Rightarrow> mem \<Rightarrow> base_buffer list \<Rightarrow> base_buffer \<Rightarrow> base_buffer list \<Rightarrow> base_buffer
   \<Rightarrow> size_t \<Rightarrow> size_t \<Rightarrow> copy_outcome"
where
  "buffer_copy_loop ss m it_src curr_src it_dst curr_dst done_sz max_size =
     (if it_src \<noteq> [] \<and> it_dst \<noteq> [] then
        let curr_sz = min (b_size curr_src) (b_size curr_dst);
            m' = memcpy m (b_data curr_dst) (b_data curr_src) (unat curr_sz)
        in if max_size = curr_sz then Copy_returned max_size m'
           else case copy_next ss it_src curr_src curr_sz of
             Inl e \<Rightarrow> Copy_failed e
           | Inr (it_src', curr_src') \<Rightarrow>
               (case copy_next ss it_dst curr_dst curr_sz of
                  Inl e \<Rightarrow> Copy_failed e
                | Inr (it_dst', curr_dst') \<Rightarrow>
                    buffer_copy_loop ss m' it_src' curr_src' it_dst' curr_dst'
                      (done_sz + curr_sz) (max_size - curr_sz))
      else Copy_flowed_off done_sz m)"
  by pat_completeness auto
termination
  by (relation "measure (\<lambda>(ss, m, it_src, curr_src, it_dst, curr_dst, done_sz, max_size).
        length it_src + length it_dst)")
     (auto simp: copy_next_def min_def neq_Nil_conv split: if_splits sum.splits)

declare buffer_copy_loop.simps [simp del]

definition buffer_copy ::
  "subspan_t \<Rightarrow> mem \<Rightarrow> buffer_sequence \<Rightarrow> buffer_sequence \<Rightarrow> size_t \<Rightarrow> copy_outcome"
where
  "buffer_copy ss m dest source max_size =
     (case sequence_range source of
        [] \<Rightarrow> Copy_failed Past_the_end
      | s # _ \<Rightarrow>
          (case sequence_range dest of
             [] \<Rightarrow> Copy_failed Past_the_end
           | d # _ \<Rightarrow>
               buffer_copy_loop ss m (sequence_range source) s (sequence_range dest) d 0 max_size))"

section \<open>The bytes of a sequence\<close>

definition addrs_of :: "base_buffer list \<Rightarrow> addr list" where
  "addrs_of bs = concat (map buf_addrs bs)"

definition seq_addrs :: "buffer_sequence \<Rightarrow> addr list" where
  "seq_addrs s = addrs_of (sequence_range s)"

lemma addrs_of_simps [simp]:
  "addrs_of [] = []" "addrs_of (b # bs) = buf_addrs b @ addrs_of bs"
  by (simp_all add: addrs_of_def)

lemma seq_addrs_Single [simp]: "seq_addrs (Single b) = buf_addrs b"
  by (simp add: seq_addrs_def)

lemma buffer_size_loop_eq: "buffer_size_loop bs t = t + of_nat (length (addrs_of bs))"
  by (induction bs t rule: buffer_size_loop.induct) (auto simp: algebra_simps)

lemma buffer_size_wraps: "buffer_size s = of_nat (length (seq_addrs s))"
  by (simp add: buffer_size_def buffer_size_loop_eq seq_addrs_def)

lemma unat_buffer_size:
  "length (seq_addrs s) < 2 ^ 64 \<Longrightarrow> unat (buffer_size s) = length (seq_addrs s)"
  by (simp add: buffer_size_wraps unat_of_nat)

section \<open>What the copy does to memory\<close>

















text \<open>
  C33. Between two single buffers of sizes \<open>n\<close> and \<open>n\<close>, any \<open>max_size\<close> other than \<open>n\<close> is
  ignored: all \<open>n\<close> bytes are overwritten, also when \<open>max_size\<close> is smaller, and the function
  flows off its end without returning a count.
\<close>

theorem buffer_copy_ignores_max_size:
  assumes "b_size s = b_size d" and "max_size \<noteq> b_size s"
  shows "buffer_copy ss m (Single d) (Single s) max_size =
           Copy_flowed_off (b_size d) (memcpy m (b_data d) (b_data s) (unat (b_size d)))"
  using assms by (simp add: buffer_copy_def buffer_copy_loop.simps copy_next_def Let_def)

theorem buffer_copy_ignores_max_size_witness:
  "buffer_copy plain_subspan (\<lambda>a. ucast a) (Single \<lparr>b_data = 100, b_size = 8\<rparr>)
     (Single \<lparr>b_data = 10, b_size = 8\<rparr>) 3 =
   Copy_flowed_off 8 (memcpy (\<lambda>a. ucast a) 100 10 8)"
  using buffer_copy_ignores_max_size [of "\<lparr>b_data = 10, b_size = 8\<rparr>" "\<lparr>b_data = 100, b_size = 8\<rparr>" 3
      plain_subspan "\<lambda>a. ucast a"] by simp

end
