(* ===== verification/Ark_General.thy ===== *)
theory Ark_General
  imports Ark_Fd
begin

text \<open>
  \<open>include/ark/general\<close>: the io objects made by eventfd(2), memfd_create(2), open(2),
  mkostemp(3) and pipe2(2).

  Each creation function calls the kernel, returns the errno on failure, and otherwise wraps
  the descriptor in an io object bound to an optional context. \<open>event_fd\<close> and \<open>pipe_fd\<close> are
  \<open>fd\<close>s, \<open>mem_fd\<close> and \<open>normal_file\<close> are \<open>seekable_fd\<close>s that start at offset 0. The functions
  take the context as an option: the overloads without a context pass a null pointer.
\<close>

text \<open>\<open>c_str()\<close>: the callee reads up to the first null character.\<close>

definition c_str :: "string \<Rightarrow> string" where
  "c_str s = takeWhile (\<lambda>c. c \<noteq> CHR 0x00) s"

text \<open>The end of every creation function: construct, bind to the context, return by move.\<close>

definition wrap_fd :: "nat option \<Rightarrow> int \<Rightarrow> fd" where
  "wrap_fd ctx ret = fst (fd_move (set_async_context ctx (fd_create ret)))"

definition wrap_seekable :: "nat option \<Rightarrow> int \<Rightarrow> seekable_fd" where
  "wrap_seekable ctx ret = fst (seekable_move (set_async_context ctx (seekable_fd_create ret)))"

definition event_fd_create ::
  "('w, 'z) clinux_scheme \<Rightarrow> nat option \<Rightarrow> int \<Rightarrow> int \<Rightarrow> 'w \<Rightarrow> fd result \<times> 'w"
where
  "event_fd_create k ctx count flags w =
     (let (ret, w') = k_eventfd k count flags w
      in if ret = - 1 then (Inl (errno_ec k w'), w') else (Inr (wrap_fd ctx ret), w'))"

definition mem_fd_create ::
  "('w, 'z) clinux_scheme \<Rightarrow> nat option \<Rightarrow> string \<Rightarrow> int \<Rightarrow> 'w \<Rightarrow> seekable_fd result \<times> 'w"
where
  "mem_fd_create k ctx name flags w =
     (let (ret, w') = k_memfd_create k (c_str name) flags w
      in if ret = - 1 then (Inl (errno_ec k w'), w') else (Inr (wrap_seekable ctx ret), w'))"

definition normal_file_open_mode ::
  "('w, 'z) clinux_scheme \<Rightarrow> nat option \<Rightarrow> string \<Rightarrow> int \<Rightarrow> int \<Rightarrow> 'w \<Rightarrow> seekable_fd result \<times> 'w"
where
  "normal_file_open_mode k ctx path flags mode w =
     (let (ret, w') = k_open k (c_str path) flags mode w
      in if ret = - 1 then (Inl (errno_ec k w'), w') else (Inr (wrap_seekable ctx ret), w'))"

text \<open>The default mode is 0755, octal.\<close>

definition normal_file_open ::
  "('w, 'z) clinux_scheme \<Rightarrow> nat option \<Rightarrow> string \<Rightarrow> int \<Rightarrow> 'w \<Rightarrow> seekable_fd result \<times> 'w"
where
  "normal_file_open k ctx path flags w = normal_file_open_mode k ctx path flags (7 * 64 + 5 * 8 + 5) w"

text \<open>
  mkostemp(3) replaces the last six characters of the template in place; the source casts
  the constness of the caller's string away, so the string after the call is returned too.
\<close>

definition normal_file_mkostemp ::
  "('w, 'z) clinux_scheme \<Rightarrow> nat option \<Rightarrow> string \<Rightarrow> int \<Rightarrow> 'w \<Rightarrow> seekable_fd result \<times> string \<times> 'w"
where
  "normal_file_mkostemp k ctx templ flags w =
     (let (ret, written, w') = k_mkostemp k (c_str templ) flags w;
          templ' = written @ drop (length written) templ
      in if ret = - 1 then (Inl (errno_ec k w'), templ', w') else (Inr (wrap_seekable ctx ret), templ', w'))"

definition pipe_fd_create ::
  "('w, 'z) clinux_scheme \<Rightarrow> nat option \<Rightarrow> 'w \<Rightarrow> (fd \<times> fd) result \<times> 'w"
where
  "pipe_fd_create k ctx w =
     (let (ret, fd0, fd1, w') = k_pipe2 k 0 w
      in if ret = - 1 then (Inl (errno_ec k w'), w')
         else (Inr (wrap_fd ctx fd0, wrap_fd ctx fd1), w'))"

section \<open>Ownership\<close>

lemma wrap_fd_sel:
  "fd_get (wrap_fd ctx n) = Inr n" "ctx_ptr (wrap_fd ctx n) = ctx"
  "fd_destroy k (wrap_fd ctx n) w = snd (k_close k n w)"
  by (auto simp: wrap_fd_def fd_move_def fd_create_def set_async_context_def fd_get_def fd_destroy_def
      base_close_def split: prod.splits)

lemma wrap_seekable_sel:
  "seekable_get (wrap_seekable ctx n) = Inr n" "ctx_ptr (wrap_seekable ctx n) = ctx"
  "seekable_offset (wrap_seekable ctx n) = Inr 0"
  "seekable_destroy k (wrap_seekable ctx n) w = snd (k_close k n w)"
  by (auto simp: wrap_seekable_def seekable_move_def seekable_fd_create_def set_async_context_def seekable_get_def
      seekable_offset_def seekable_destroy_def base_close_def split: prod.splits)

text \<open>What a creation function promises of an object it returns.\<close>

definition owns_fd :: "('w, 'z) clinux_scheme \<Rightarrow> nat option \<Rightarrow> int \<Rightarrow> fd \<Rightarrow> bool" where
  "owns_fd k ctx n f \<longleftrightarrow> fd_get f = Inr n \<and> ctx_ptr f = ctx \<and> (\<forall>w. fd_destroy k f w = snd (k_close k n w))"

definition owns_seekable :: "('w, 'z) clinux_scheme \<Rightarrow> nat option \<Rightarrow> int \<Rightarrow> seekable_fd \<Rightarrow> bool" where
  "owns_seekable k ctx n f \<longleftrightarrow>
     seekable_get f = Inr n \<and> ctx_ptr f = ctx \<and> seekable_offset f = Inr 0 \<and>
     (\<forall>w. seekable_destroy k f w = snd (k_close k n w))"

lemma owns_wrap [simp]: "owns_fd k ctx n (wrap_fd ctx n)" "owns_seekable k ctx n (wrap_seekable ctx n)"
  by (simp_all add: owns_fd_def owns_seekable_def wrap_fd_sel wrap_seekable_sel)

end
