(* ===== verification/Ark_Address.thy ===== *)
theory Ark_Address
  imports Ark_Bindings Ark_General
begin

text \<open>
  \<open>include/ark/net/address.hpp\<close>: network addresses.

  An address is the 128 bytes of a \<open>sockaddr_storage\<close>, read as a \<open>sockaddr_in\<close> or
  \<open>sockaddr_in6\<close> by its family. The layout is that of 64-bit Linux on a little-endian
  machine: the family in bytes 0 and 1, the port in bytes 2 and 3, the IPv4 address in
  bytes 4 to 7, the IPv6 address in bytes 8 to 23. The conversions between addresses and text,
  inet_pton(3) and inet_ntop(3), are not part of the library: they are the record \<open>inet_lib\<close>,
  and \<open>inet_law\<close> states what their manual pages promise.
\<close>

section \<open>Storage\<close>

type_synonym sa_family_t = "16 word"
type_synonym port_t = "16 word"

record address =
  sa :: "byte list"

abbreviation (input) AF_UNSPEC :: sa_family_t where "AF_UNSPEC \<equiv> 0"
abbreviation (input) AF_INET :: sa_family_t where "AF_INET \<equiv> 2"
abbreviation (input) AF_INET6 :: sa_family_t where "AF_INET6 \<equiv> 10"

definition put_bytes :: "nat \<Rightarrow> byte list \<Rightarrow> byte list \<Rightarrow> byte list" where
  "put_bytes off bs xs = take off xs @ bs @ drop (off + length bs) xs"

definition get_bytes :: "nat \<Rightarrow> nat \<Rightarrow> byte list \<Rightarrow> byte list" where
  "get_bytes off n xs = take n (drop off xs)"

text \<open>A 16-bit field of the host, least significant byte first.\<close>

definition bytes_of_16 :: "16 word \<Rightarrow> byte list" where
  "bytes_of_16 v = [ucast v, ucast (v div 256)]"

definition word_of_16 :: "byte list \<Rightarrow> 16 word" where
  "word_of_16 bs = (case bs of [lo, hi] \<Rightarrow> ucast lo + 256 * ucast hi | _ \<Rightarrow> 0)"

definition swap_16 :: "16 word \<Rightarrow> 16 word" where
  "swap_16 v = (v mod 256) * 256 + v div 256"

definition htons :: "16 word \<Rightarrow> 16 word" where "htons v = swap_16 v"
definition ntohs :: "16 word \<Rightarrow> 16 word" where "ntohs v = swap_16 v"

section \<open>The class address\<close>

definition set_family :: "sa_family_t \<Rightarrow> address \<Rightarrow> address" where
  "set_family f a = a\<lparr>sa := put_bytes 0 (bytes_of_16 f) (sa a)\<rparr>"

definition sa_family :: "address \<Rightarrow> sa_family_t" where
  "sa_family a = word_of_16 (get_bytes 0 2 (sa a))"

text \<open>The constructor: the family is set, \<open>raw\<close> are the other, indeterminate bytes.\<close>

definition address_create :: "byte list \<Rightarrow> address" where
  "address_create raw = set_family AF_UNSPEC \<lparr>sa = raw\<rparr>"

definition sa_len :: "address \<Rightarrow> 32 word" where
  "sa_len a = 128"

section \<open>The class address_with_family\<close>

definition family_create :: "sa_family_t \<Rightarrow> byte list \<Rightarrow> address" where
  "family_create fam raw = set_family fam (address_create raw)"

definition family_of_address :: "sa_family_t \<Rightarrow> address \<Rightarrow> failure + address" where
  "family_of_address fam addr = (if sa_family addr = fam then Inr addr else Inl Contract_violation)"

definition to_address :: "address \<Rightarrow> address" where
  "to_address a = a"

section \<open>The classes inet_address and inet6_address\<close>

text \<open>
  \<open>pton family text\<close>: the return value and, when it is positive, the bytes stored;
  \<open>ntop family bytes size\<close>: the errno, or the text.
\<close>

record inet_lib =
  pton :: "sa_family_t \<Rightarrow> string \<Rightarrow> int \<times> byte list"
  ntop :: "sa_family_t \<Rightarrow> byte list \<Rightarrow> nat \<Rightarrow> int + string"

definition inet_host :: "inet_lib \<Rightarrow> address \<Rightarrow> string result" where
  "inet_host lib a =
     (case ntop lib AF_INET (get_bytes 4 4 (sa a)) 16 of Inl errno \<Rightarrow> Inl (as_ec errno) | Inr s \<Rightarrow> Inr s)"

definition inet_set_host :: "inet_lib \<Rightarrow> string \<Rightarrow> address \<Rightarrow> unit result \<times> address" where
  "inet_set_host lib host_s a =
     (let (ret, bs) = pton lib AF_INET (c_str host_s)
      in if ret \<le> 0 then (Inl (as_ec EINVAL), a) else (Inr (), a\<lparr>sa := put_bytes 4 bs (sa a)\<rparr>))"

definition inet_port :: "address \<Rightarrow> port_t" where
  "inet_port a = ntohs (word_of_16 (get_bytes 2 2 (sa a)))"

definition inet_set_port :: "port_t \<Rightarrow> address \<Rightarrow> address" where
  "inet_set_port p a = a\<lparr>sa := put_bytes 2 (bytes_of_16 (htons p)) (sa a)\<rparr>"

text \<open>The decimal digits the stream inserts for an unsigned number.\<close>

definition digit_char :: "nat \<Rightarrow> char" where
  "digit_char d = ''0123456789'' ! d"

fun decimal :: "nat \<Rightarrow> string" where
  "decimal n = (if n < 10 then [digit_char n] else decimal (n div 10) @ [digit_char (n mod 10)])"

declare decimal.simps [simp del]

definition inet_to_string :: "inet_lib \<Rightarrow> address \<Rightarrow> string result" where
  "inet_to_string lib a =
     (case inet_host lib a of
        Inl ec \<Rightarrow> Inl ec
      | Inr host_s \<Rightarrow> Inr (host_s @ '':'' @ decimal (unat (inet_port a))))"

text \<open>The constructor from an \<open>address\<close> checks the family again with \<open>Expects\<close>.\<close>

definition inet_from_address :: "address \<Rightarrow> failure + address result" where
  "inet_from_address addr =
     (if sa_family addr \<noteq> AF_INET then Inr (Inl (as_ec EAFNOSUPPORT))
      else case family_of_address AF_INET addr of Inl e \<Rightarrow> Inl e | Inr a \<Rightarrow> Inr (Inr a))"

definition inet6_host :: "inet_lib \<Rightarrow> address \<Rightarrow> string result" where
  "inet6_host lib a =
     (case ntop lib AF_INET6 (get_bytes 8 16 (sa a)) 64 of Inl errno \<Rightarrow> Inl (as_ec errno) | Inr s \<Rightarrow> Inr s)"

definition inet6_set_host :: "inet_lib \<Rightarrow> string \<Rightarrow> address \<Rightarrow> unit result \<times> address" where
  "inet6_set_host lib host_s a =
     (let (ret, bs) = pton lib AF_INET6 (c_str host_s)
      in if ret \<le> 0 then (Inl (as_ec EINVAL), a) else (Inr (), a\<lparr>sa := put_bytes 8 bs (sa a)\<rparr>))"

definition inet6_port :: "address \<Rightarrow> port_t" where
  "inet6_port a = ntohs (word_of_16 (get_bytes 2 2 (sa a)))"

definition inet6_set_port :: "port_t \<Rightarrow> address \<Rightarrow> address" where
  "inet6_set_port p a = a\<lparr>sa := put_bytes 2 (bytes_of_16 (htons p)) (sa a)\<rparr>"

definition inet6_to_string :: "inet_lib \<Rightarrow> address \<Rightarrow> string result" where
  "inet6_to_string lib a =
     (case inet6_host lib a of
        Inl ec \<Rightarrow> Inl ec
      | Inr host_s \<Rightarrow> Inr (''['' @ host_s @ '']:'' @ decimal (unat (inet6_port a))))"

definition inet6_from_address :: "address \<Rightarrow> failure + address result" where
  "inet6_from_address addr =
     (if sa_family addr \<noteq> AF_INET6 then Inr (Inl (as_ec EAFNOSUPPORT))
      else case family_of_address AF_INET6 addr of Inl e \<Rightarrow> Inl e | Inr a \<Rightarrow> Inr (Inr a))"

section \<open>The visitor to_string\<close>

definition address_to_string :: "inet_lib \<Rightarrow> address \<Rightarrow> failure + string result" where
  "address_to_string lib addr =
     (if sa_family addr = AF_INET then
        (case inet_from_address addr of
           Inl e \<Rightarrow> Inl e
         | Inr (Inl ec) \<Rightarrow> Inr (Inl ec)
         | Inr (Inr ret) \<Rightarrow> Inr (inet_to_string lib ret))
      else if sa_family addr = AF_INET6 then
        (case inet6_from_address addr of
           Inl e \<Rightarrow> Inl e
         | Inr (Inl ec) \<Rightarrow> Inr (Inl ec)
         | Inr (Inr ret) \<Rightarrow> Inr (inet6_to_string lib ret))
      else Inr (Inl (as_ec EAFNOSUPPORT)))"

section \<open>Fields\<close>

lemma length_put_bytes [simp]: "off + length bs \<le> length xs \<Longrightarrow> length (put_bytes off bs xs) = length xs"
  by (simp add: put_bytes_def)

lemma length_bytes_of_16 [simp]: "length (bytes_of_16 v) = 2"
  by (simp add: bytes_of_16_def)

lemma get_put_same: "off + length bs \<le> length xs \<Longrightarrow> n = length bs \<Longrightarrow> get_bytes off n (put_bytes off bs xs) = bs"
  by (simp add: get_bytes_def put_bytes_def)

lemma get_put_other:
  assumes "off + length bs \<le> length xs" "o' + n \<le> off \<or> off + length bs \<le> o'"
  shows "get_bytes o' n (put_bytes off bs xs) = get_bytes o' n xs"
proof (rule nth_equalityI)
  show "length (get_bytes o' n (put_bytes off bs xs)) = length (get_bytes o' n xs)"
    using assms(1) by (simp add: get_bytes_def)
next
  fix i assume "i < length (get_bytes o' n (put_bytes off bs xs))"
  then have "i < n" "o' + i < length xs" using assms(1) by (auto simp: get_bytes_def)
  with assms show "get_bytes o' n (put_bytes off bs xs) ! i = get_bytes o' n xs ! i"
    by (auto simp: get_bytes_def put_bytes_def nth_append)
qed

lemma word_of_16_bytes [simp]: "word_of_16 (bytes_of_16 v) = v"
proof -
  have "unat v < 65536" using unsigned_less [of v] by simp
  then show ?thesis
    by (simp add: word_of_16_def bytes_of_16_def word_unat_eq_iff unat_word_ariths unat_div unsigned_ucast_eq take_bit_eq_mod)
qed

lemma ntohs_htons [simp]: "ntohs (htons p) = p"
proof -
  have "unat p < 65536" using unsigned_less [of p] by simp
  then have "unat p div 256 < 256" by simp
  then show ?thesis
    using \<open>unat p < 65536\<close>
    by (simp add: ntohs_def htons_def swap_16_def word_unat_eq_iff unat_word_ariths unat_div unat_mod)
qed

section \<open>Decimal numbers\<close>

definition undecimal :: "string \<Rightarrow> nat" where
  "undecimal s = foldl (\<lambda>v c. 10 * v + (of_char c - 48)) 0 s"

lemma of_char_digit: "d < 10 \<Longrightarrow> of_char (digit_char d) = (48 + d :: nat)"
proof -
  have "list_all (\<lambda>d. of_char (digit_char d) = (48 + d :: nat)) [0..<10]"
    by code_simp
  then show "d < 10 \<Longrightarrow> of_char (digit_char d) = (48 + d :: nat)"
    by (simp add: list_all_iff)
qed

lemma undecimal_decimal [simp]: "undecimal (decimal n) = n"
proof (induction n rule: decimal.induct)
  case (1 n)
  show ?case
  proof (cases "n < 10")
    case True
    then show ?thesis by (simp add: decimal.simps [of n] undecimal_def of_char_digit)
  next
    case False
    with 1 show ?thesis by (simp add: decimal.simps [of n] undecimal_def of_char_digit)
  qed
qed

lemma decimal_inject [simp]: "decimal m = decimal n \<longleftrightarrow> m = n"
  by (metis undecimal_decimal)

lemma set_decimal: "set (decimal n) \<subseteq> set ''0123456789''"
proof (induction n rule: decimal.induct)
  case (1 n)
  have "digit_char d \<in> set ''0123456789''" if "d < 10" for d
    unfolding digit_char_def by (rule nth_mem) (use that in simp)
  with 1 show ?case by (subst decimal.simps) auto
qed

lemma decimal_not_Nil [simp]: "decimal n \<noteq> []"
  by (subst decimal.simps) simp

section \<open>What the manual pages promise\<close>

text \<open>
  For a family whose addresses have \<open>len\<close> bytes: inet_pton(3) stores that many bytes;
  inet_ntop(3) prints every address into a buffer of the size the library passes, in a form
  that inet_pton(3) reads back. IPv4 addresses are printed with digits and dots, IPv6
  addresses without brackets.
\<close>

definition family_law :: "inet_lib \<Rightarrow> sa_family_t \<Rightarrow> nat \<Rightarrow> nat \<Rightarrow> (string \<Rightarrow> bool) \<Rightarrow> bool" where
  "family_law lib fam len buf_sz form \<longleftrightarrow>
     (\<forall>s. 0 < fst (pton lib fam s) \<longrightarrow> length (snd (pton lib fam s)) = len)
     \<and> (\<forall>bs. length bs = len \<longrightarrow>
          (\<exists>s. ntop lib fam bs buf_sz = Inr s \<and> form s \<and> 0 < fst (pton lib fam s) \<and> snd (pton lib fam s) = bs))"

definition ip4_form :: "string \<Rightarrow> bool" where
  "ip4_form s \<longleftrightarrow> set s \<subseteq> set ''0123456789.''"

definition ip6_form :: "string \<Rightarrow> bool" where
  "ip6_form s \<longleftrightarrow> CHR '']'' \<notin> set s"

definition inet_law :: "inet_lib \<Rightarrow> bool" where
  "inet_law lib \<longleftrightarrow> family_law lib AF_INET 4 16 ip4_form \<and> family_law lib AF_INET6 16 64 ip6_form"

definition well_formed :: "address \<Rightarrow> bool" where
  "well_formed a \<longleftrightarrow> length (sa a) = 128"

lemma length_get_bytes: "well_formed a \<Longrightarrow> off + n \<le> 128 \<Longrightarrow> length (get_bytes off n (sa a)) = n"
  by (simp add: well_formed_def get_bytes_def)

lemma inet_host_total:
  assumes "inet_law lib" "well_formed a"
  shows "\<exists>s. inet_host lib a = Inr s \<and> ip4_form s \<and> 0 < fst (pton lib AF_INET s) \<and> snd (pton lib AF_INET s) = get_bytes 4 4 (sa a)"
proof -
  have "length (get_bytes 4 4 (sa a)) = 4" by (rule length_get_bytes [OF assms(2)]) simp
  then obtain s where "ntop lib AF_INET (get_bytes 4 4 (sa a)) 16 = Inr s" "ip4_form s" "0 < fst (pton lib AF_INET s)"
    "snd (pton lib AF_INET s) = get_bytes 4 4 (sa a)"
    using assms(1) unfolding inet_law_def family_law_def by blast
  then show ?thesis by (simp add: inet_host_def)
qed

lemma inet6_host_total:
  assumes "inet_law lib" "well_formed a"
  shows "\<exists>s. inet6_host lib a = Inr s \<and> ip6_form s \<and> 0 < fst (pton lib AF_INET6 s) \<and> snd (pton lib AF_INET6 s) = get_bytes 8 16 (sa a)"
proof -
  have "length (get_bytes 8 16 (sa a)) = 16" by (rule length_get_bytes [OF assms(2)]) simp
  then obtain s where "ntop lib AF_INET6 (get_bytes 8 16 (sa a)) 64 = Inr s" "ip6_form s" "0 < fst (pton lib AF_INET6 s)"
    "snd (pton lib AF_INET6 s) = get_bytes 8 16 (sa a)"
    using assms(1) unfolding inet_law_def family_law_def by blast
  then show ?thesis by (simp add: inet6_host_def)
qed

text \<open>A field that is set is the only one that changes.\<close>

lemma inet_set_port_fields:
  assumes "well_formed a"
  shows "well_formed (inet_set_port p a)" and "get_bytes 2 2 (sa (inet_set_port p a)) = bytes_of_16 (htons p)"
    and "o' + n \<le> 2 \<or> 4 \<le> o' \<Longrightarrow> get_bytes o' n (sa (inet_set_port p a)) = get_bytes o' n (sa a)"
  using assms by (simp_all add: inet_set_port_def well_formed_def get_put_same get_put_other)

lemma put_host_fields:
  assumes "well_formed a" "length bs = n" "4 \<le> off" "off + n \<le> 128"
  shows "well_formed (a\<lparr>sa := put_bytes off bs (sa a)\<rparr>)"
    and "get_bytes off n (sa (a\<lparr>sa := put_bytes off bs (sa a)\<rparr>)) = bs"
    and "get_bytes 2 2 (sa (a\<lparr>sa := put_bytes off bs (sa a)\<rparr>)) = get_bytes 2 2 (sa a)"
    and "get_bytes 0 2 (sa (a\<lparr>sa := put_bytes off bs (sa a)\<rparr>)) = get_bytes 0 2 (sa a)"
  using assms by (simp_all add: well_formed_def get_put_same get_put_other)

lemma inet_set_host_correct:
  assumes "inet_law lib" and "well_formed a" and "inet_set_host lib h a = (r, a')"
  shows "(r = Inl (as_ec EINVAL) \<and> a' = a)
    \<or> (r = Inr () \<and> well_formed a' \<and> inet_port a' = inet_port a \<and> sa_family a' = sa_family a
       \<and> (\<exists>s. inet_host lib a' = Inr s \<and> snd (pton lib AF_INET s) = snd (pton lib AF_INET (c_str h))))"
proof (cases "0 < fst (pton lib AF_INET (c_str h))")
  case True
  let ?bs = "snd (pton lib AF_INET (c_str h))"
  have "length ?bs = 4" using assms(1) True by (simp add: inet_law_def family_law_def)
  note fields = put_host_fields [OF assms(2) this, of 4]
  have a': "r = Inr ()" "a' = a\<lparr>sa := put_bytes 4 ?bs (sa a)\<rparr>"
    using True assms(3) by (auto simp: inet_set_host_def split: prod.splits if_splits)
  have "well_formed a'" "get_bytes 4 4 (sa a') = ?bs" "get_bytes 2 2 (sa a') = get_bytes 2 2 (sa a)"
    "get_bytes 0 2 (sa a') = get_bytes 0 2 (sa a)"
    using fields unfolding a'(2) by simp_all
  with inet_host_total [OF assms(1), of a'] a'(1) show ?thesis
    by (auto simp: inet_port_def sa_family_def)
qed (use assms(3) in \<open>auto simp: inet_set_host_def split: prod.splits if_splits\<close>)

lemma inet6_set_host_correct:
  assumes "inet_law lib" and "well_formed a" and "inet6_set_host lib h a = (r, a')"
  shows "(r = Inl (as_ec EINVAL) \<and> a' = a)
    \<or> (r = Inr () \<and> well_formed a' \<and> inet6_port a' = inet6_port a \<and> sa_family a' = sa_family a
       \<and> (\<exists>s. inet6_host lib a' = Inr s \<and> snd (pton lib AF_INET6 s) = snd (pton lib AF_INET6 (c_str h))))"
proof (cases "0 < fst (pton lib AF_INET6 (c_str h))")
  case True
  let ?bs = "snd (pton lib AF_INET6 (c_str h))"
  have "length ?bs = 16" using assms(1) True by (simp add: inet_law_def family_law_def)
  note fields = put_host_fields [OF assms(2) this, of 8]
  have a': "r = Inr ()" "a' = a\<lparr>sa := put_bytes 8 ?bs (sa a)\<rparr>"
    using True assms(3) by (auto simp: inet6_set_host_def split: prod.splits if_splits)
  have "well_formed a'" "get_bytes 8 16 (sa a') = ?bs" "get_bytes 2 2 (sa a') = get_bytes 2 2 (sa a)"
    "get_bytes 0 2 (sa a') = get_bytes 0 2 (sa a)"
    using fields unfolding a'(2) by simp_all
  with inet6_host_total [OF assms(1), of a'] a'(1) show ?thesis
    by (auto simp: inet6_port_def sa_family_def)
qed (use assms(3) in \<open>auto simp: inet6_set_host_def split: prod.splits if_splits\<close>)

section \<open>Unambiguous text\<close>

lemma append_sep_inject:
  assumes "c \<notin> set xs" "c \<notin> set ys" "xs @ c # us = ys @ c # vs"
  shows "xs = ys \<and> us = vs"
  using assms
proof (induction xs arbitrary: ys)
  case Nil
  then show ?case by (cases ys) auto
next
  case (Cons x xs)
  then show ?case by (cases ys) auto
qed

text \<open>The two forms of text, told apart by the first character.\<close>

lemma to_string_forms:
  assumes "ip4_form h" "ip4_form h'"
  shows "h @ '':'' @ x = h' @ '':'' @ x' \<Longrightarrow> h = h' \<and> x = x'"
    and "h @ '':'' @ x \<noteq> ''['' @ y"
proof -
  have "CHR '':'' \<notin> set h" "CHR '':'' \<notin> set h'"
    using assms unfolding ip4_form_def by auto
  then show "h @ '':'' @ x = h' @ '':'' @ x' \<Longrightarrow> h = h' \<and> x = x'"
    using append_sep_inject [of "CHR '':''" h h' x x'] by simp
  have "CHR ''['' \<notin> set h" using assms(1) unfolding ip4_form_def by auto
  then show "h @ '':'' @ x \<noteq> ''['' @ y" by (cases h) auto
qed

lemma to_string6_inject:
  assumes "ip6_form h" "ip6_form h'" "''['' @ h @ '']:'' @ x = ''['' @ h' @ '']:'' @ x'"
  shows "h = h' \<and> x = x'"
  using append_sep_inject [of "CHR '']''" h h' "CHR '':'' # x" "CHR '':'' # x'"] assms
  by (simp add: ip6_form_def)

lemma address_to_string_cases:
  assumes "inet_law lib" "well_formed a" "address_to_string lib a = Inr (Inr s)"
  obtains (ip4) h where "sa_family a = AF_INET" "ip4_form h" "snd (pton lib AF_INET h) = get_bytes 4 4 (sa a)"
      "s = h @ '':'' @ decimal (unat (inet_port a))"
  | (ip6) h where "sa_family a = AF_INET6" "ip6_form h" "snd (pton lib AF_INET6 h) = get_bytes 8 16 (sa a)"
      "s = ''['' @ h @ '']:'' @ decimal (unat (inet6_port a))"
proof (cases "sa_family a = AF_INET")
  case True
  with assms(3) inet_host_total [OF assms(1,2)] ip4 show ?thesis
    by (auto simp: address_to_string_def inet_from_address_def family_of_address_def inet_to_string_def)
next
  case False
  then have "sa_family a = AF_INET6"
    using assms(3) by (auto simp: address_to_string_def split: if_splits)
  with False assms(3) inet6_host_total [OF assms(1,2)] ip6 show ?thesis
    by (auto simp: address_to_string_def inet6_from_address_def family_of_address_def inet6_to_string_def)
qed

lemma address_to_string_total:
  assumes "inet_law lib" "well_formed a"
  shows "(\<exists>t. address_to_string lib a = Inr (Inr t)) = (sa_family a = AF_INET \<or> sa_family a = AF_INET6)"
  using inet_host_total [OF assms] inet6_host_total [OF assms]
  by (auto simp: address_to_string_def inet_from_address_def inet6_from_address_def family_of_address_def
      inet_to_string_def inet6_to_string_def split: if_splits)

lemma address_to_string_inject:
  assumes "inet_law lib" and "well_formed a" and "well_formed a'"
    and "address_to_string lib a = Inr (Inr s)" and "address_to_string lib a' = Inr (Inr s)"
  shows "sa_family a = sa_family a'
    \<and> (if sa_family a = AF_INET
       then inet_port a = inet_port a' \<and> get_bytes 4 4 (sa a) = get_bytes 4 4 (sa a')
       else inet6_port a = inet6_port a' \<and> get_bytes 8 16 (sa a) = get_bytes 8 16 (sa a'))"
  using assms(1,2,4)
proof (cases rule: address_to_string_cases)
  case (ip4 h)
  note a = ip4
  from assms(1,3,5) show ?thesis
  proof (cases rule: address_to_string_cases)
    case (ip4 h')
    then have "h @ '':'' @ decimal (unat (inet_port a)) = h' @ '':'' @ decimal (unat (inet_port a'))"
      using a by metis
    from to_string_forms(1) [OF a(2) ip4(2) this] a ip4 show ?thesis by (simp add: word_unat_eq_iff)
  next
    case (ip6 h')
    with a to_string_forms(2) [OF a(2) a(2)] show ?thesis by metis
  qed
next
  case (ip6 h)
  note a = ip6
  from assms(1,3,5) show ?thesis
  proof (cases rule: address_to_string_cases)
    case (ip4 h')
    with a to_string_forms(2) [OF ip4(2) ip4(2)] show ?thesis by metis
  next
    case (ip6 h')
    then have "''['' @ h @ '']:'' @ decimal (unat (inet6_port a)) = ''['' @ h' @ '']:'' @ decimal (unat (inet6_port a'))"
      using a by metis
    from to_string6_inject [OF a(2) ip6(2) this] a ip6 show ?thesis by (simp add: word_unat_eq_iff)
  qed
qed

text \<open>
  C21. The fields of an address. Setting the port of an IPv4 or IPv6 address makes it the port
  read, whatever it is, and changes neither the host nor the family; setting the host from a
  text inet_pton(3) accepts stores that host, so that the text read back denotes the same
  address, and changes neither the port nor the family. A text it refuses gives \<open>EINVAL\<close> and
  leaves the address as it was. The size of the storage never changes. All this holds of both classes.
\<close>

theorem address_fields:
  assumes "inet_law lib" and "well_formed a"
    and "inet_set_host lib h a = (r4, a4)" and "inet6_set_host lib h a = (r6, a6)"
  shows "inet_port (inet_set_port p a) = p \<and> inet_host lib (inet_set_port p a) = inet_host lib a
    \<and> sa_family (inet_set_port p a) = sa_family a \<and> well_formed (inet_set_port p a)
    \<and> inet6_port (inet6_set_port p a) = p \<and> inet6_host lib (inet6_set_port p a) = inet6_host lib a
    \<and> sa_family (inet6_set_port p a) = sa_family a \<and> well_formed (inet6_set_port p a)
    \<and> (if 0 < fst (pton lib AF_INET (c_str h))
       then r4 = Inr () \<and> well_formed a4 \<and> inet_port a4 = inet_port a \<and> sa_family a4 = sa_family a
         \<and> (\<exists>s. inet_host lib a4 = Inr s \<and> snd (pton lib AF_INET s) = snd (pton lib AF_INET (c_str h)))
       else r4 = Inl (as_ec EINVAL) \<and> a4 = a)
    \<and> (if 0 < fst (pton lib AF_INET6 (c_str h))
       then r6 = Inr () \<and> well_formed a6 \<and> inet6_port a6 = inet6_port a \<and> sa_family a6 = sa_family a
         \<and> (\<exists>s. inet6_host lib a6 = Inr s \<and> snd (pton lib AF_INET6 s) = snd (pton lib AF_INET6 (c_str h)))
       else r6 = Inl (as_ec EINVAL) \<and> a6 = a)"
proof -
  have "inet6_set_port p a = inet_set_port p a"
    by (simp add: inet_set_port_def inet6_set_port_def)
  then have port: "inet_port (inet_set_port p a) = p \<and> inet_host lib (inet_set_port p a) = inet_host lib a
    \<and> sa_family (inet_set_port p a) = sa_family a \<and> well_formed (inet_set_port p a)
    \<and> inet6_port (inet6_set_port p a) = p \<and> inet6_host lib (inet6_set_port p a) = inet6_host lib a
    \<and> sa_family (inet6_set_port p a) = sa_family a \<and> well_formed (inet6_set_port p a)"
    using inet_set_port_fields [OF assms(2)]
    by (simp add: inet_port_def inet6_port_def inet_host_def inet6_host_def sa_family_def)
  have "r4 = Inr () \<longleftrightarrow> 0 < fst (pton lib AF_INET (c_str h))" "r6 = Inr () \<longleftrightarrow> 0 < fst (pton lib AF_INET6 (c_str h))"
    using assms(3,4) by (auto simp: inet_set_host_def inet6_set_host_def split: prod.splits if_splits)
  with port inet_set_host_correct [OF assms(1-3)] inet6_set_host_correct [OF assms(1,2,4)] show ?thesis by auto
qed

text \<open>
  C20. The text of an address is unambiguous: two addresses that print alike have the same family, the
  same port and the same host, and an address prints whenever its family is IPv4 or IPv6.
\<close>

theorem address_text_unambiguous:
  assumes "inet_law lib" and "well_formed a" and "well_formed a'" and "well_formed b"
    and "address_to_string lib a = Inr (Inr s)" and "address_to_string lib a' = Inr (Inr s)"
  shows "sa_family a = sa_family a'
    \<and> (if sa_family a = AF_INET
       then inet_port a = inet_port a' \<and> get_bytes 4 4 (sa a) = get_bytes 4 4 (sa a')
       else inet6_port a = inet6_port a' \<and> get_bytes 8 16 (sa a) = get_bytes 8 16 (sa a'))
    \<and> ((\<exists>t. address_to_string lib b = Inr (Inr t)) = (sa_family b = AF_INET \<or> sa_family b = AF_INET6))"
proof (intro conjI address_to_string_total [OF assms(1,4)])
  show "sa_family a = sa_family a'" "if sa_family a = AF_INET
       then inet_port a = inet_port a' \<and> get_bytes 4 4 (sa a) = get_bytes 4 4 (sa a')
       else inet6_port a = inet6_port a' \<and> get_bytes 8 16 (sa a) = get_bytes 8 16 (sa a')"
    using address_to_string_inject [OF assms(1-3,5,6)] by blast+
qed

section \<open>An instance\<close>

text \<open>
  Conversions that keep the promises: dotted decimal for IPv4, and for IPv6 the bytes in decimal
  with colons. The closed instances of the theorems use them.
\<close>

fun join_on :: "char \<Rightarrow> string list \<Rightarrow> string" where
  "join_on c [] = []"
| "join_on c [x] = x"
| "join_on c (x # y # zs) = x @ c # join_on c (y # zs)"

fun split_on :: "char \<Rightarrow> string \<Rightarrow> string list" where
  "split_on c [] = [[]]"
| "split_on c (x # xs) =
     (if x = c then [] # split_on c xs
      else case split_on c xs of [] \<Rightarrow> [[x]] | y # ys \<Rightarrow> (x # y) # ys)"

lemma split_on_plain: "c \<notin> set x \<Longrightarrow> split_on c x = [x]"
  by (induction x) auto

lemma split_on_sep: "c \<notin> set x \<Longrightarrow> split_on c (x @ c # r) = x # split_on c r"
  by (induction x) auto

lemma split_join: "xs \<noteq> [] \<Longrightarrow> \<forall>x \<in> set xs. c \<notin> set x \<Longrightarrow> split_on c (join_on c xs) = xs"
  by (induction c xs rule: join_on.induct) (auto simp: split_on_plain split_on_sep)

lemma set_join: "set (join_on c xs) \<subseteq> insert c (\<Union> (set ` set xs))"
  by (induction c xs rule: join_on.induct) auto

definition plain_ntop :: "char \<Rightarrow> byte list \<Rightarrow> string" where
  "plain_ntop c bs = join_on c (map (\<lambda>b. decimal (unat b)) bs)"

definition plain_pton :: "char \<Rightarrow> nat \<Rightarrow> string \<Rightarrow> int \<times> byte list" where
  "plain_pton c n s =
     (let bs = map (\<lambda>x. of_nat (undecimal x)) (split_on c s) in if length bs = n then (1, bs) else (0, []))"

definition plain_inet_lib :: inet_lib where
  "plain_inet_lib =
     \<lparr>pton = (\<lambda>fam s. if fam = AF_INET then plain_pton CHR ''.'' 4 s else plain_pton CHR '':'' 16 s),
      ntop = (\<lambda>fam bs buf_sz. Inr (if fam = AF_INET then plain_ntop CHR ''.'' bs else plain_ntop CHR '':'' bs))\<rparr>"

lemma plain_round_trip:
  assumes "c \<notin> set ''0123456789''" "bs \<noteq> []" "length bs = n"
  shows "plain_pton c n (plain_ntop c bs) = (1, bs)"
proof -
  have "split_on c (plain_ntop c bs) = map (\<lambda>b. decimal (unat b)) bs"
    unfolding plain_ntop_def using assms(1,2) set_decimal by (intro split_join) auto
  then show ?thesis using assms(3) by (simp add: plain_pton_def o_def)
qed

lemma set_plain_ntop: "set (plain_ntop c bs) \<subseteq> insert c (set ''0123456789'')"
  unfolding plain_ntop_def
  using set_join [of c "map (\<lambda>b. decimal (unat b)) bs"] set_decimal by fastforce

lemma plain_family_law:
  assumes "c \<notin> set ''0123456789''" "0 < n" "\<And>s. pton lib fam s = plain_pton c n s"
    and "\<And>bs. ntop lib fam bs z = Inr (plain_ntop c bs)" "\<And>bs. form (plain_ntop c bs)"
  shows "family_law lib fam n z form"
  unfolding family_law_def
proof (intro conjI allI impI)
  fix s assume "0 < fst (pton lib fam s)"
  then show "length (snd (pton lib fam s)) = n"
    using assms(3) by (auto simp: plain_pton_def Let_def split: if_splits)
next
  fix bs :: "byte list" assume "length bs = n"
  then show "\<exists>s. ntop lib fam bs z = Inr s \<and> form s \<and> 0 < fst (pton lib fam s) \<and> snd (pton lib fam s) = bs"
    using assms(2-5) plain_round_trip [OF assms(1), of bs n] by (intro exI [of _ "plain_ntop c bs"]) auto
qed

lemma plain_ntop_form: "ip4_form (plain_ntop CHR ''.'' bs)" "ip6_form (plain_ntop CHR '':'' bs)"
proof -
  have "insert CHR ''.'' (set ''0123456789'') \<subseteq> set ''0123456789.''" by simp
  then show "ip4_form (plain_ntop CHR ''.'' bs)"
    using set_plain_ntop [of "CHR ''.''" bs] unfolding ip4_form_def by (rule order_trans [rotated])
  have "CHR '']'' \<notin> insert CHR '':'' (set ''0123456789'')" by simp
  then show "ip6_form (plain_ntop CHR '':'' bs)"
    using set_plain_ntop [of "CHR '':''" bs] unfolding ip6_form_def by blast
qed

lemma plain_inet_law: "inet_law plain_inet_lib"
  unfolding inet_law_def
proof (intro conjI)
  show "family_law plain_inet_lib AF_INET 4 16 ip4_form"
    by (rule plain_family_law [where c = "CHR ''.''"]) (simp_all add: plain_inet_lib_def plain_ntop_form)
  show "family_law plain_inet_lib AF_INET6 16 64 ip6_form"
    by (rule plain_family_law [where c = "CHR '':''"]) (simp_all add: plain_inet_lib_def plain_ntop_form)
qed

theorem address_fields_witness:
  "\<exists>a'. inet_set_host plain_inet_lib ''127.0.0.1'' (family_create AF_INET (replicate 128 0)) = (Inr (), a')
     \<and> inet_host plain_inet_lib a' = Inr ''127.0.0.1'' \<and> inet_port (inet_set_port 8080 a') = 8080
     \<and> sa_family (inet6_set_port 8080 (family_create AF_INET6 (replicate 128 0))) = AF_INET6"
proof -
  let ?a = "family_create AF_INET (replicate 128 0)" and ?b = "family_create AF_INET6 (replicate 128 0)"
  have wf: "well_formed ?b" "sa_family ?b = AF_INET6" by code_simp+
  have eq: "inet_set_host plain_inet_lib ''127.0.0.1'' ?a =
      (Inr (), \<lparr>sa = [2, 0, 0, 0, 127, 0, 0, 1] @ replicate 120 0\<rparr>)"
    by code_simp
  let ?a' = "\<lparr>sa = [2, 0, 0, 0, 127, 0, 0, 1] @ replicate 120 0\<rparr>"
  have wf': "well_formed ?a'" by code_simp
  obtain r4 a4 r6 a6 where "inet_set_host plain_inet_lib ''127.0.0.1'' ?a' = (r4, a4)"
    "inet6_set_host plain_inet_lib ''127.0.0.1'' ?a' = (r6, a6)" by fastforce
  from address_fields [OF plain_inet_law wf' this, of 8080]
  have "inet_port (inet_set_port 8080 ?a') = 8080" by blast
  moreover obtain r4 a4 r6 a6 where "inet_set_host plain_inet_lib ''127.0.0.1'' ?b = (r4, a4)"
    "inet6_set_host plain_inet_lib ''127.0.0.1'' ?b = (r6, a6)" by fastforce
  from address_fields [OF plain_inet_law wf(1) this, of 8080] wf(2)
  have "sa_family (inet6_set_port 8080 ?b) = AF_INET6" by metis
  moreover have "inet_host plain_inet_lib ?a' = Inr ''127.0.0.1''" by code_simp
  ultimately show ?thesis using eq by blast
qed

theorem address_text_unambiguous_witness:
  "\<exists>a a'. a \<noteq> a' \<and> address_to_string plain_inet_lib a = Inr (Inr ''7.7.7.7:80'')
     \<and> address_to_string plain_inet_lib a' = Inr (Inr ''7.7.7.7:80'')
     \<and> inet_port a = inet_port a' \<and> get_bytes 4 4 (sa a) = get_bytes 4 4 (sa a')"
proof -
  define a where "a = inet_set_port 80 (family_create AF_INET (replicate 128 7))"
  define a' where "a' = inet_set_port 80 (family_create AF_INET (replicate 8 7 @ replicate 120 0))"
  have wf: "well_formed a" "well_formed a'" "sa_family a = AF_INET" "a \<noteq> a'"
    unfolding a_def a'_def by code_simp+
  have printed: "address_to_string plain_inet_lib a = Inr (Inr ''7.7.7.7:80'')"
    "address_to_string plain_inet_lib a' = Inr (Inr ''7.7.7.7:80'')"
    unfolding a_def a'_def by code_simp+
  have "inet_port a = inet_port a' \<and> get_bytes 4 4 (sa a) = get_bytes 4 4 (sa a')"
    using address_text_unambiguous [OF plain_inet_law wf(1,2,1) printed] by (simp only: wf(3) refl if_True)
  with wf(4) printed show ?thesis by blast
qed

end
