(* ===== verification/Ark_Async.thy ===== *)
theory Ark_Async
  imports Ark_Context Ark_Fd Ark_Sequence Ark_Address
begin

text \<open>
  \<open>include/ark/async/callback.hpp\<close>, \<open>async_op.hpp\<close> and \<open>io_uring/async_syscall.hpp\<close>: the
  objects an asynchronous operation refers to, the callbacks, the operations that survive a
  system call, and the submission of system calls.

  Operations hold references to io objects, buffer sequences and addresses of their callers.
  The record \<open>io_store\<close> gives the objects alive at each address; using a reference whose
  object is gone is the failure \<open>Dangling_reference\<close>. The closures the library registers
  with the context are the constructors of \<open>closure\<close>, each with the values it captures. The
  callbacks of the users of the library are values of the type \<open>'f\<close>; calling one is the
  parameter \<open>fin\<close> of the definitions. A moved-from callback is \<open>None\<close>.
\<close>

section \<open>Objects\<close>

record io_store =
  st_fds :: "addr \<rightharpoonup> fd"
  st_seekables :: "addr \<rightharpoonup> seekable_fd"
  st_buffers :: "addr \<rightharpoonup> buffer_sequence"
  st_addresses :: "addr \<rightharpoonup> address"

text \<open>A reference \<open>Fd &\<close>, whose type tells the two classes apart.\<close>

datatype fd_ref = Fd_ref addr | Seekable_ref addr

fun fd_at :: "'x io_store_scheme \<Rightarrow> fd_ref \<Rightarrow> failure + io_fd" where
  "fd_at s (Fd_ref a) = (case st_fds s a of None \<Rightarrow> Inl Dangling_reference | Some f \<Rightarrow> Inr (Nonseekable f))"
| "fd_at s (Seekable_ref a) =
     (case st_seekables s a of None \<Rightarrow> Inl Dangling_reference | Some f \<Rightarrow> Inr (Seekable f))"

definition buffers_at :: "'x io_store_scheme \<Rightarrow> addr \<Rightarrow> failure + buffer_sequence" where
  "buffers_at s a = (case st_buffers s a of None \<Rightarrow> Inl Dangling_reference | Some b \<Rightarrow> Inr b)"

text \<open>\<open>if constexpr (concepts::Seekable<Fd>) f.feed(n);\<close> on a referenced object.\<close>

fun feed_at :: "'x io_store_scheme \<Rightarrow> fd_ref \<Rightarrow> off_t \<Rightarrow> failure + 'x io_store_scheme" where
  "feed_at s (Fd_ref a) n = Inr s"
| "feed_at s (Seekable_ref a) n =
     (case st_seekables s a of
        None \<Rightarrow> Inl Dangling_reference
      | Some f \<Rightarrow>
          (case seekable_feed f n of
             Inl e \<Rightarrow> Inl e
           | Inr f' \<Rightarrow> Inr (s\<lparr>st_seekables := (st_seekables s)(a \<mapsto> f')\<rparr>)))"

text \<open>\<open>off = 0; if constexpr (concepts::Seekable<Fd>) off = f.offset();\<close>\<close>

fun io_offset :: "io_fd \<Rightarrow> failure + off_t" where
  "io_offset (Nonseekable f) = Inr 0"
| "io_offset (Seekable f) = seekable_offset f"

section \<open>Operations and callbacks\<close>

datatype io_operation = Read_op | Write_op

record io_locals =
  l_f :: fd_ref
  l_b :: addr
  l_cond :: "size_t \<Rightarrow> size_t \<Rightarrow> size_t"
  l_done_sz :: size_t
  l_iov :: "iovec list"

record accept_locals =
  al_self :: addr
  al_f :: addr
  al_endpoint :: addr
  al_addrlen_buf :: "32 word"

record ('f, 'l) async_op =
  op_cb :: "'f option"
  op_ctx :: nat
  op_locals :: "'l option"

text \<open>The values the callbacks of the users take.\<close>

datatype completion =
    Size_result "size_t result"
  | Void_result "unit result"
  | Socket_result "fd result"

text \<open>
  The closures registered with the context: the continuations \<open>async_op::yield_syscall\<close>
  makes, with the operation moved into them, and the lambdas of the TCP operations.
\<close>

datatype 'f closure =
    Io_go_on io_operation "('f, io_locals) async_op"
  | Accept_finish "('f, accept_locals) async_op"
  | Connect_done 'f
  | Accept_done nat 'f

type_synonym ('f, 'x, 'w) async_state = "('f closure, 'x io_store_scheme, 'w) uring_state"

type_synonym ('f, 'x, 'w) final_callback =
  "'f \<Rightarrow> completion \<Rightarrow> ('f, 'x, 'w) async_state \<Rightarrow> failure + ('f, 'x, 'w) async_state"

definition call_callback ::
  "('f, 'x, 'w) final_callback \<Rightarrow> 'f option \<Rightarrow> completion \<Rightarrow> ('f, 'x, 'w) async_state
   \<Rightarrow> failure + ('f, 'x, 'w) async_state"
where
  "call_callback fin cb r st = (case cb of None \<Rightarrow> Inl Empty_call | Some f \<Rightarrow> fin f r st)"

definition op_create :: "nat \<Rightarrow> 'f \<Rightarrow> 'l \<Rightarrow> ('f, 'l) async_op" where
  "op_create ctx cb locals = \<lparr>op_cb = Some cb, op_ctx = ctx, op_locals = Some locals\<rparr>"

text \<open>\<open>yield\<close>: the closure that holds the operation, and what is left of it in place.\<close>

definition op_yield ::
  "(('f, 'l) async_op \<Rightarrow> 'f closure) \<Rightarrow> ('f, 'l) async_op \<Rightarrow> 'f closure \<times> ('f, 'l) async_op"
where
  "op_yield next op = (next op, op\<lparr>op_cb := None, op_locals := None\<rparr>)"

definition op_complete ::
  "('f, 'x, 'w) final_callback \<Rightarrow> ('f, 'l) async_op \<Rightarrow> completion \<Rightarrow> ('f, 'x, 'w) async_state
   \<Rightarrow> failure + ('f, 'x, 'w) async_state"
where
  "op_complete fin op r st = call_callback fin (op_cb op) r st"

section \<open>Submission of system calls\<close>

type_synonym ('f, 'w) submit_outcome =
  "failure + token_t result \<times> 'f closure uring_context \<times> 'w"

definition async_syscall_read ::
  "('w, 'z) clinux_scheme \<Rightarrow> 'w liburing \<Rightarrow> int \<Rightarrow> addr \<Rightarrow> 32 word \<Rightarrow> off_t \<Rightarrow> 'f closure
   \<Rightarrow> 'f closure uring_context \<Rightarrow> 'w \<Rightarrow> ('f, 'w) submit_outcome"
where
  "async_syscall_read k lu fd buf nbytes offset cb c w =
     add_sqe_cb k lu (Prep_read fd buf nbytes offset) (User_cb cb) c w"

definition async_syscall_write ::
  "('w, 'z) clinux_scheme \<Rightarrow> 'w liburing \<Rightarrow> int \<Rightarrow> addr \<Rightarrow> 32 word \<Rightarrow> off_t \<Rightarrow> 'f closure
   \<Rightarrow> 'f closure uring_context \<Rightarrow> 'w \<Rightarrow> ('f, 'w) submit_outcome"
where
  "async_syscall_write k lu fd buf nbytes offset cb c w =
     add_sqe_cb k lu (Prep_write fd buf nbytes offset) (User_cb cb) c w"

definition async_syscall_connect ::
  "('w, 'z) clinux_scheme \<Rightarrow> 'w liburing \<Rightarrow> int \<Rightarrow> addr \<Rightarrow> 32 word \<Rightarrow> 'f closure
   \<Rightarrow> 'f closure uring_context \<Rightarrow> 'w \<Rightarrow> ('f, 'w) submit_outcome"
where
  "async_syscall_connect k lu fd addr addrlen cb c w =
     add_sqe_cb k lu (Prep_connect fd addr addrlen) (User_cb cb) c w"

definition async_syscall_readv ::
  "('w, 'z) clinux_scheme \<Rightarrow> 'w liburing \<Rightarrow> int \<Rightarrow> iovec list \<Rightarrow> 32 word \<Rightarrow> off_t \<Rightarrow> 'f closure
   \<Rightarrow> 'f closure uring_context \<Rightarrow> 'w \<Rightarrow> ('f, 'w) submit_outcome"
where
  "async_syscall_readv k lu fd iovecs nr_vecs offset cb c w =
     add_sqe_cb k lu (Prep_readv fd iovecs nr_vecs offset) (User_cb cb) c w"

definition async_syscall_writev ::
  "('w, 'z) clinux_scheme \<Rightarrow> 'w liburing \<Rightarrow> int \<Rightarrow> iovec list \<Rightarrow> 32 word \<Rightarrow> off_t \<Rightarrow> 'f closure
   \<Rightarrow> 'f closure uring_context \<Rightarrow> 'w \<Rightarrow> ('f, 'w) submit_outcome"
where
  "async_syscall_writev k lu fd iovecs nr_vecs offset cb c w =
     add_sqe_cb k lu (Prep_writev fd iovecs nr_vecs offset) (User_cb cb) c w"

definition async_syscall_accept ::
  "('w, 'z) clinux_scheme \<Rightarrow> 'w liburing \<Rightarrow> int \<Rightarrow> addr \<Rightarrow> addr \<Rightarrow> int \<Rightarrow> 'f closure
   \<Rightarrow> 'f closure uring_context \<Rightarrow> 'w \<Rightarrow> ('f, 'w) submit_outcome"
where
  "async_syscall_accept k lu fd addr addrlen flags cb c w =
     add_sqe_cb k lu (Prep_accept fd addr addrlen flags) (User_cb cb) c w"

section \<open>What the event loop owes an operation\<close>

text \<open>
  A context that can take submissions: initialised, not locked, with the waker \<open>ev\<close>.
  \<open>submits\<close> is the effect of a successful submission of \<open>sqe\<close> on the world.
\<close>

definition context_ready :: "int \<Rightarrow> 'u uring_context \<Rightarrow> bool" where
  "context_ready ev c \<longleftrightarrow> unlocked c \<and> r_inited c \<and> waker_evfd c = ev"

definition submits ::
  "('w, 'z) clinux_scheme \<Rightarrow> 'w liburing \<Rightarrow> sqe_op \<Rightarrow> 'u uring_context \<Rightarrow> 'w \<Rightarrow> 'w \<Rightarrow> bool"
where
  "submits k lu sqe c w w1 \<longleftrightarrow>
     (\<exists>slot w0. lu_get_sqe lu w = (Some slot, w0)
        \<and> wake k c (lu_sqe_set_data lu slot (callbacks_idx c) (lu_prep lu slot sqe w0)) = (Inr (), w1))"

text \<open>
  A submission finds an entry, wakes the loop, and leaves alone the part of the world that
  \<open>view\<close> gives: io_uring_get_sqe(3) and the functions that fill an entry touch the ring only.
\<close>

definition submission_ok ::
  "('w, 'z) clinux_scheme \<Rightarrow> 'w liburing \<Rightarrow> int \<Rightarrow> ('w \<Rightarrow> 'v) \<Rightarrow> bool"
where
  "submission_ok k lu ev view \<longleftrightarrow>
     (\<forall>w. \<exists>slot w0. lu_get_sqe lu w = (Some slot, w0) \<and> view w0 = view w)
     \<and> (\<forall>slot sqe w. view (lu_prep lu slot sqe w) = view w)
     \<and> (\<forall>slot t w. view (lu_sqe_set_data lu slot t w) = view w)
     \<and> (\<forall>w. fst (k_write_bytes k ev [1, 0, 0, 0, 0, 0, 0, 0] w) \<noteq> - 1
          \<and> view (snd (k_write_bytes k ev [1, 0, 0, 0, 0, 0, 0, 0] w)) = view w)"

lemma submission_ok_wake:
  assumes "submission_ok k lu ev view" and "context_ready ev c"
  shows "fst (wake k c v) = Inr ()" and "view (snd (wake k c v)) = view v"
proof -
  have ev: "waker_evfd c = ev" using assms(2) by (simp add: context_ready_def)
  obtain r v' where "k_write_bytes k ev [1, 0, 0, 0, 0, 0, 0, 0] v = (r, v')" by fastforce
  moreover from this assms(1) have "r \<noteq> - 1 \<and> view v' = view v"
    unfolding submission_ok_def by (metis fst_conv snd_conv)
  ultimately show "fst (wake k c v) = Inr ()" "view (snd (wake k c v)) = view v"
    by (simp_all add: wake_def ev)
qed

lemma submission_okE:
  assumes "submission_ok k lu ev view" and "context_ready ev c"
  obtains w1 where "add_sqe_cb k lu sqe cb c w = Inr (Inr (callbacks_idx c), registered c cb, w1)"
    and "submits k lu sqe c w w1" and "view w1 = view w"
proof -
  have c: "unlocked c" "r_inited c"
    using assms(2) by (simp_all add: context_ready_def)
  note wake_ok = submission_ok_wake [OF assms]
  obtain slot w0 where get: "lu_get_sqe lu w = (Some slot, w0)" "view w0 = view w"
    using assms(1) unfolding submission_ok_def by blast
  from c show ?thesis
  proof (cases rule: add_sqe_cb_cases [where lu = lu and w = w and k = k and op = sqe and cb = cb])
    case (added slot' w0' w1)
    then have "view w1 = view w"
      using get assms(1) wake_ok(2) [of "lu_sqe_set_data lu slot (callbacks_idx c) (lu_prep lu slot sqe w0)"]
      by (simp add: submission_ok_def)
    then show ?thesis
      using added that unfolding submits_def by blast
  next
    case (deadlock slot' w0' ec w1)
    then show ?thesis
      using wake_ok(1) [of "lu_sqe_set_data lu slot' (callbacks_idx c) (lu_prep lu slot' sqe w0')"] by simp
  qed (use get in simp)
qed

text \<open>
  Total correctness of an operation against every environment. \<open>completes_with \<dots> Q p st\<close>: the code
  \<open>p\<close>, started in \<open>st\<close>, ends by calling a callback, with a result and in a state that satisfy
  \<open>Q\<close>; or it registers one closure and returns, and then, once the kernel has performed the
  submitted call and the loop invokes the closure with its result, whatever has happened in
  between to the context, within \<open>R\<close> to the objects, and outside \<open>view\<close> to the world, the
  closure does so. \<open>call\<close> runs a
  closure and \<open>perform\<close> is the effect of a submitted call; all submitted calls satisfy \<open>calls\<close>, each
  run of the operation changes the objects within \<open>own\<close>, and it touches the context and the
  world by its submissions only. The definition is
  inductive: a chain of closures that never ends does not satisfy it.
\<close>

inductive completes_with ::
  "('w, 'z) clinux_scheme \<Rightarrow> 'w liburing \<Rightarrow> int \<Rightarrow> (sqe_op \<Rightarrow> 'w \<Rightarrow> int \<times> 'w) \<Rightarrow> (sqe_op \<Rightarrow> bool) \<Rightarrow> ('w \<Rightarrow> 'v)
   \<Rightarrow> (('f, 'x, 'w) final_callback \<Rightarrow> 'f closure \<Rightarrow> int result \<Rightarrow> ('f, 'x, 'w) async_state \<Rightarrow> failure + ('f, 'x, 'w) async_state)
   \<Rightarrow> ('x io_store_scheme \<Rightarrow> 'x io_store_scheme \<Rightarrow> bool) \<Rightarrow> ('x io_store_scheme \<Rightarrow> 'x io_store_scheme \<Rightarrow> bool)
   \<Rightarrow> ('f \<Rightarrow> completion \<Rightarrow> ('f, 'x, 'w) async_state \<Rightarrow> bool)
   \<Rightarrow> (('f, 'x, 'w) final_callback \<Rightarrow> ('f, 'x, 'w) async_state \<Rightarrow> failure + ('f, 'x, 'w) async_state)
   \<Rightarrow> ('f, 'x, 'w) async_state \<Rightarrow> bool"
  for k lu ev perform calls view call own R Q
where
  finished: "\<lbrakk>\<And>fin. p fin (c, s, w) = fin cb r (c, s', w); own s s'; Q cb r (c, s', w)\<rbrakk>
    \<Longrightarrow> completes_with k lu ev perform calls view call own R Q p (c, s, w)"
| suspended: "\<lbrakk>\<And>fin. p fin (c, s, w) = Inr (registered c (User_cb cl), s', w1); own s s'; calls sqe; submits k lu sqe c w w1;
     \<And>c2 s2 v res v' w2. \<lbrakk>context_ready ev c2; R s' s2; view v = view w1; perform sqe v = (res, v'); view w2 = view v'\<rbrakk>
       \<Longrightarrow> completes_with k lu ev perform calls view call own R Q (\<lambda>fin. call fin cl (result_of_res res)) (c2, s2, w2)\<rbrakk>
    \<Longrightarrow> completes_with k lu ev perform calls view call own R Q p (c, s, w)"

text \<open>Code that changes the objects, and then does what other code does.\<close>

lemma completes_with_cong:
  assumes "completes_with k lu ev perform calls view call own R Q q (c, s', w)" and "\<And>fin. p fin (c, s, w) = q fin (c, s', w)"
    and "\<And>s''. own s' s'' \<Longrightarrow> own s s''"
  shows "completes_with k lu ev perform calls view call own R Q p (c, s, w)"
  using assms(1)
proof cases
  case (finished cb r s'')
  from finished(1) assms(2) have "\<And>fin. p fin (c, s, w) = fin cb r (c, s'', w)" by simp
  then show ?thesis using assms(3) [OF finished(2)] finished(3) by (rule completes_with.finished)
next
  case (suspended cl s'' w1 sqe)
  from suspended(1) assms(2) have "\<And>fin. p fin (c, s, w) = Inr (registered c (User_cb cl), s'', w1)" by simp
  then show ?thesis using assms(3) [OF suspended(2)] suspended(3-5) by (rule completes_with.suspended)
qed

text \<open>Less is asked of the operation: a weaker result, a tamer environment.\<close>

lemma completes_with_mono:
  assumes "completes_with k lu ev perform calls view call own R Q p st" and "\<And>cb r st. Q cb r st \<Longrightarrow> Q' cb r st"
    and "\<And>s s'. R' s s' \<Longrightarrow> R s s'" and "\<And>v w. view' v = view' w \<Longrightarrow> view v = view w"
  shows "completes_with k lu ev perform calls view' call own R' Q' p st"
  using assms(1)
proof (induction rule: completes_with.induct)
  case (finished p c s w cb r s')
  show ?case by (rule completes_with.finished, rule finished(1), rule finished(2)) (rule assms(2) [OF finished(3)])
next
  case (suspended p c s w cl s' w1 sqe)
  show ?case
    by (rule completes_with.suspended, rule suspended(1), rule suspended(2), rule suspended(3), rule suspended(4))
       (rule suspended.IH, (assumption | erule assms(3,4))+)
qed

text \<open>
  What the submitted calls and the submissions leave alone is left alone by the operation, if
  the environment leaves it alone.
\<close>

lemma submission_ok_mono:
  assumes "submission_ok k lu ev view'" and "\<And>v w. view' v = view' w \<Longrightarrow> view v = view w"
  shows "submission_ok k lu ev view"
  using assms unfolding submission_ok_def by blast

lemma submits_view:
  assumes "submits k lu sqe c w w1" and "submission_ok k lu ev view" and "context_ready ev c"
  shows "view w1 = view w"
proof -
  from assms(1) obtain slot w0 where sub: "lu_get_sqe lu w = (Some slot, w0)"
    "wake k c (lu_sqe_set_data lu slot (callbacks_idx c) (lu_prep lu slot sqe w0)) = (Inr (), w1)"
    unfolding submits_def by blast
  have "view w1 = view (lu_sqe_set_data lu slot (callbacks_idx c) (lu_prep lu slot sqe w0))"
    using submission_ok_wake(2) [OF assms(2,3)] sub(2) by (metis snd_conv)
  moreover have "view w0 = view w" using sub(1) assms(2) unfolding submission_ok_def by (metis Pair_inject)
  ultimately show ?thesis using assms(2) by (simp add: submission_ok_def)
qed

lemma completes_with_frame:
  fixes p :: "('f, 'x, 'w) final_callback \<Rightarrow> ('f, 'x, 'w) async_state \<Rightarrow> failure + ('f, 'x, 'w) async_state"
  assumes "completes_with k lu ev perform calls view call own R Q p st" and "submission_ok k lu ev ext"
    and "\<And>sqe v. calls sqe \<Longrightarrow> ext (snd (perform sqe v)) = ext v"
    and "\<And>s s'. own s s' \<or> R s s' \<Longrightarrow> part s' = part s"
    and "context_ready ev (fst st)"
  shows "completes_with k lu ev perform calls (\<lambda>w. (view w, ext w)) call own R
    (\<lambda>cb r st'. Q cb r st' \<and> part (fst (snd st')) = part (fst (snd st)) \<and> ext (snd (snd st')) = ext (snd (snd st))
       \<and> context_ready ev (fst st')) p st"
proof -
  define y x where "y = part (fst (snd st))" and "x = ext (snd (snd st))"
  let ?Q = "\<lambda>cb r st'. Q cb r st' \<and> part (fst (snd st')) = y \<and> ext (snd (snd st')) = x \<and> context_ready ev (fst st')"
  have "completes_with k lu ev perform calls (\<lambda>w. (view w, ext w)) call own R ?Q p st"
    if "context_ready ev (fst st)" "part (fst (snd st)) = y" "ext (snd (snd st)) = x"
    using assms(1) that
  proof (induction rule: completes_with.induct)
    case (finished p c s w cb r s')
    show ?case
      by (rule completes_with.finished, rule finished(1), rule finished(2)) (use finished assms(4) [of s s'] in simp)
  next
    case (suspended p c s w cl s' w1 sqe)
    have w1: "ext w1 = x" and s': "part s' = y"
      using submits_view [OF suspended(4) assms(2)] suspended(2) suspended.prems assms(4) [of s s'] by simp_all
    show ?case
    proof (rule completes_with.suspended, rule suspended(1), rule suspended(2), rule suspended(3), rule suspended(4))
      fix c2 :: "'f closure uring_context" and s2 v res v' w2
      assume env: "context_ready ev c2" "R s' s2" "(view v, ext v) = (view w1, ext w1)" "perform sqe v = (res, v')"
        "(view w2, ext w2) = (view v', ext v')"
      have "ext w2 = x" "part s2 = y"
        using env(2-5) w1 s' assms(3) [OF suspended(3), of v] assms(4) [of s' s2] by simp_all
      then show "completes_with k lu ev perform calls (\<lambda>w. (view w, ext w)) call own R ?Q
          (\<lambda>fin. call fin cl (result_of_res res)) (c2, s2, w2)"
        by (intro suspended.IH [OF env(1,2) _ env(4)]) (use env in simp_all)
    qed
  qed
  then show ?thesis using assms(5) by (simp add: x_def y_def)
qed

section \<open>Chains of operations\<close>

text \<open>
  Outside the functions of liburing, the system calls leave the rings alone: \<open>ring\<close> is their part of
  the world. A step of a program that submits nothing leaves the ring and the
  registered callbacks as they are; it may ask the loop to exit.
\<close>

definition calls_keep :: "('w, 'z) clinux_scheme \<Rightarrow> ('w \<Rightarrow> 'r) \<Rightarrow> bool" where
  "calls_keep k ring \<longleftrightarrow>
     (\<forall>n w. ring (snd (k_close k n w)) = ring w) \<and> (\<forall>path flags mode w. ring (snd (k_open k path flags mode w)) = ring w)
     \<and> (\<forall>n bs w. ring (snd (k_write_bytes k n bs w)) = ring w) \<and> (\<forall>n sz w. ring (snd (k_read_discard k n sz w)) = ring w)"

definition loop_kept :: "('w \<Rightarrow> 'r) \<Rightarrow> 'u uring_context \<Rightarrow> 'w \<Rightarrow> 'u uring_context \<Rightarrow> 'w \<Rightarrow> bool" where
  "loop_kept ring c w c' w' \<longleftrightarrow> ring w' = ring w \<and> (\<exists>x. c' = c\<lparr>exiting := x\<rparr>)"

lemma loop_kept_exit: "ring w' = ring w \<Longrightarrow> loop_kept ring c w (c\<lparr>exiting := x\<rparr>) w'"
  unfolding loop_kept_def by blast

lemma loop_kept_same: "ring w' = ring w \<Longrightarrow> loop_kept ring c w c w'"
  using loop_kept_exit [of ring w' w c "exiting c"] by simp

lemma calls_keep_destroy:
  assumes "calls_keep k ring"
  shows "ring (fd_destroy k d w) = ring w" and "ring (seekable_destroy k f w) = ring w"
  using assms by (auto simp: calls_keep_def fd_destroy_def seekable_destroy_def base_close_def Let_def split: option.splits prod.splits)
     (metis snd_conv)+

text \<open>
  A program that submits its next operation when the one before has completed. \<open>runs_to \<dots> Q p st\<close>: the code
  \<open>p\<close>, started in \<open>st\<close>, returns in a state that satisfies \<open>Q\<close>; or it returns after registering one
  closure, and then, once the kernel has performed the submitted call and the loop invokes
  the closure, within the same freedom of the environment, the closure does so. Apart from that one
  submission, each run leaves the loop alone, and it may ask the loop to exit when it does not submit. Like \<open>completes_with\<close> it is inductive, so that the chain ends.
\<close>

inductive runs_to ::
  "('w, 'z) clinux_scheme \<Rightarrow> 'w liburing \<Rightarrow> int \<Rightarrow> (sqe_op \<Rightarrow> 'w \<Rightarrow> int \<times> 'w) \<Rightarrow> ('w \<Rightarrow> 'v) \<Rightarrow> ('w \<Rightarrow> 'r)
   \<Rightarrow> ('u \<Rightarrow> int result \<Rightarrow> ('u, 's, 'w) uring_state \<Rightarrow> failure + ('u, 's, 'w) uring_state) \<Rightarrow> ('s \<Rightarrow> 's \<Rightarrow> bool)
   \<Rightarrow> (('u, 's, 'w) uring_state \<Rightarrow> bool)
   \<Rightarrow> (('u, 's, 'w) uring_state \<Rightarrow> failure + ('u, 's, 'w) uring_state) \<Rightarrow> ('u, 's, 'w) uring_state \<Rightarrow> bool"
  for k lu ev perform view ring call R Q
where
  returns: "\<lbrakk>p (c, s, w) = Inr (c', s', w'); loop_kept ring c w c' w'; Q (c', s', w')\<rbrakk>
    \<Longrightarrow> runs_to k lu ev perform view ring call R Q p (c, s, w)"
| waits: "\<lbrakk>p (c, s, w) = Inr (registered c (User_cb cl), s', w1); ring w' = ring w; submits k lu sqe c w' w1;
     \<And>c2 s2 v res v' w2. \<lbrakk>context_ready ev c2; R s' s2; view v = view w1; perform sqe v = (res, v'); view w2 = view v'\<rbrakk>
       \<Longrightarrow> runs_to k lu ev perform view ring call R Q (call cl (result_of_res res)) (c2, s2, w2)\<rbrakk>
    \<Longrightarrow> runs_to k lu ev perform view ring call R Q p (c, s, w)"

text \<open>Code that leaves the loop alone, and then does what other code does.\<close>

lemma runs_to_after:
  assumes "runs_to k lu ev perform view ring call R Q q (c, s', w')" and "p (c, s, w) = q (c, s', w')" and "ring w' = ring w"
  shows "runs_to k lu ev perform view ring call R Q p (c, s, w)"
  using assms(1)
proof cases
  case (returns c2 s2 w2)
  then have "loop_kept ring c w c2 w2" using assms(3) by (simp add: loop_kept_def)
  with returns assms(2) show ?thesis by (metis runs_to.returns)
next
  case (waits cl s2 w1 w2 sqe)
  from waits(1) assms(2) have "p (c, s, w) = Inr (registered c (User_cb cl), s2, w1)" by simp
  then show ?thesis using waits(2) [unfolded assms(3)] waits(3,4) by (rule runs_to.waits)
qed

lemma runs_to_cong:
  assumes "runs_to k lu ev perform view ring call R Q q (c, s', w)" and "p (c, s, w) = q (c, s', w)"
  shows "runs_to k lu ev perform view ring call R Q p (c, s, w)"
  using assms refl by (rule runs_to_after)

text \<open>An operation, and then what its callback starts.\<close>

lemma completes_with_runs_to:
  assumes "completes_with k lu ev perform calls view call own R Q p st"
    and "\<And>cb r st'. Q cb r st' \<Longrightarrow> runs_to k lu ev perform view ring (call fin) R Q' (fin cb r) st'"
  shows "runs_to k lu ev perform view ring (call fin) R Q' (p fin) st"
  using assms(1)
proof (induction rule: completes_with.induct)
  case (finished p c s w cb r s')
  show ?case by (rule runs_to_cong [OF assms(2) [OF finished(3)]]) (rule finished(1))
next
  case (suspended p c s w cl s' w1 sqe)
  show ?case by (rule runs_to.waits, rule suspended(1), rule refl, rule suspended(4)) (rule suspended.IH)
qed

text \<open>
  The same for an operation that does not complete at once: it may be started with any
  callback, such as one with less fuel, and the loop runs the closures with another.
\<close>

lemma completes_with_runs_to_later:
  assumes "completes_with k lu ev perform calls view call own R Q p st"
    and "p (\<lambda>cb r st. Inl Aborted) st = Inr st0"
    and "\<And>cb r st'. Q cb r st' \<Longrightarrow> runs_to k lu ev perform view ring (call fin) R Q' (fin cb r) st'"
  shows "runs_to k lu ev perform view ring (call fin) R Q' (p fin') st"
  using assms(1)
proof cases
  case (finished c s w cb r s')
  with assms(2) show ?thesis by simp
next
  case (suspended c s w cl s' w1 sqe)
  show ?thesis
    unfolding suspended(1)
    by (rule runs_to.waits, rule suspended(2), rule refl, rule suspended(5))
       (rule completes_with_runs_to [OF suspended(6) assms(3)])
qed

text \<open>
  One operation of a chain, in an environment that leaves more alone: \<open>part\<close> of the objects and \<open>ext\<close> of
  the world, which the operation does not touch.
\<close>

lemma completes_with_chain:
  fixes p :: "('f, 'x, 'w) final_callback \<Rightarrow> ('f, 'x, 'w) async_state \<Rightarrow> failure + ('f, 'x, 'w) async_state"
  assumes op: "completes_with k lu ev perform calls V call own R0 post p (c, s, w)"
    and later: "p (\<lambda>cb r st. Inl Aborted) (c, s, w) = Inr st0" and ready: "context_ready ev c"
    and ok: "submission_ok k lu ev view"
    and view: "\<And>v w. view v = view w \<Longrightarrow> V v = V w" "\<And>v w. view v = view w \<Longrightarrow> ext v = ext w"
    and ext: "\<And>sqe v. calls sqe \<Longrightarrow> ext (snd (perform sqe v)) = ext v"
    and env: "\<And>s s'. R s s' \<Longrightarrow> R0 s s'" "\<And>s s'. R s s' \<Longrightarrow> part s' = part s" "\<And>s s'. own s s' \<Longrightarrow> part s' = part s"
    and rest: "\<And>cb r c2 s2 w2. \<lbrakk>post cb r (c2, s2, w2); part s2 = part s; ext w2 = ext w; context_ready ev c2\<rbrakk>
      \<Longrightarrow> runs_to k lu ev perform view ring (call fin) R Q (fin cb r) (c2, s2, w2)"
  shows "runs_to k lu ev perform view ring (call fin) R Q (p fin') (c, s, w)"
proof -
  let ?post = "\<lambda>cb r st'. post cb r st' \<and> part (fst (snd st')) = part s \<and> ext (snd (snd st')) = ext w \<and> context_ready ev (fst st')"
  have ext_ok: "submission_ok k lu ev ext" using ok view(2) by (rule submission_ok_mono)
  have op': "completes_with k lu ev perform calls V call own R post p (c, s, w)"
    using op by (rule completes_with_mono) (assumption | erule env(1))+
  have "completes_with k lu ev perform calls (\<lambda>w. (V w, ext w)) call own R
      (\<lambda>cb r st'. post cb r st' \<and> part (fst (snd st')) = part (fst (snd (c, s, w)))
         \<and> ext (snd (snd st')) = ext (snd (snd (c, s, w))) \<and> context_ready ev (fst st')) p (c, s, w)"
    by (rule completes_with_frame [where Q = post and part = part and ext = ext and view = V])
       (rule op', rule ext_ok, erule ext, erule disjE, erule env(3), erule env(2), simp add: ready)
  then have "completes_with k lu ev perform calls view call own R ?post p (c, s, w)"
    by (rule completes_with_mono) (simp, assumption, rule iffD2 [OF prod.inject, OF conjI], erule view(1), erule view(2))
  then show ?thesis
    using later
  proof (rule completes_with_runs_to_later)
    fix cb r and st' :: "('f, 'x, 'w) async_state"
    assume "?post cb r st'"
    then show "runs_to k lu ev perform view ring (call fin) R Q (fin cb r) st'"
      by (cases st') (auto intro: rest)
  qed
qed

end
