(* ===== verification/Ark_Iovecs.thy ===== *)
theory Ark_Iovecs
  imports Ark_Bindings Ark_Sequence
begin

text \<open>
  \<open>include/ark/io/iovecs.hpp\<close>: the scatter/gather list for one system call, made of the
  bytes of a buffer sequence after the first \<open>skip\<close>, at most \<open>max_len\<close> of them.
\<close>

definition to_iovec :: "const_buffer \<Rightarrow> iovec" where
  "to_iovec buf = \<lparr>iov_base = b_data buf, iov_len = b_size buf\<rparr>"

text \<open>The output iterator is a \<open>back_inserter\<close>: the vector behind it is the last argument.\<close>

fun transform_to_iovecs ::
  "subspan_t \<Rightarrow> base_buffer list \<Rightarrow> size_t \<Rightarrow> size_t \<Rightarrow> iovec list \<Rightarrow> failure + iovec list"
where
  "transform_to_iovecs ss [] skip max_len out = Inr out"
| "transform_to_iovecs ss (b # it) skip max_len out =
     (if b_size b \<le> skip then transform_to_iovecs ss it (skip - b_size b) max_len out
      else case buffer_advance ss b skip of
        Inl e \<Rightarrow> Inl e
      | Inr b1 \<Rightarrow>
          let b2 = (if max_len < b_size b1 then buffer_limit b1 max_len else b1);
              out' = out @ [to_iovec b2];
              max_len' = max_len - b_size b2
          in if max_len' = 0 then Inr out'
             else transform_to_iovecs ss it 0 max_len' out')"

text \<open>\<open>to_iovecs\<close> returns the number of elements it reserves and the elements.\<close>

definition to_iovecs ::
  "subspan_t \<Rightarrow> buffer_sequence \<Rightarrow> size_t \<Rightarrow> size_t \<Rightarrow> failure + size_t \<times> iovec list"
where
  "to_iovecs ss bseq skip max_len =
     (case transform_to_iovecs ss (sequence_range bseq) skip max_len [] of
        Inl e \<Rightarrow> Inl e
      | Inr ret \<Rightarrow> Inr (sequence_size_member bseq, ret))"

section \<open>The window of the sequence\<close>

lemma to_iovec_addrs [simp]:
  "addr_range (iov_base (to_iovec b)) (unat (iov_len (to_iovec b))) = buf_addrs b"
  by (simp add: to_iovec_def buf_addrs_def)

definition window :: "buffer_sequence \<Rightarrow> size_t \<Rightarrow> size_t \<Rightarrow> addr list" where
  "window bseq skip max_len = take (unat max_len) (drop (unat skip) (seq_addrs bseq))"

text \<open>The buffer of one iteration: it contributes the start of the window.\<close>

lemma limit_window:
  assumes "max_len \<noteq> 0" and "b_size b1 \<noteq> 0"
    and "b2 = (if max_len < b_size b1 then buffer_limit b1 max_len else b1)"
  shows "buf_addrs b2 = take (unat max_len) (buf_addrs b1)"
    and "unat (b_size b2) = min (unat max_len) (unat (b_size b1))"
    and "b_size b2 \<le> max_len" and "b_size b2 \<noteq> 0"
  using assms
  by (auto simp: buf_addrs_limit ark_word) (auto simp: buffer_limit_def ark_word min_def)

lemma transform_to_iovecs_step:
  assumes "skip < b_size b" and "buffer_advance ss b skip = Inr b1"
    and "b2 = (if max_len < b_size b1 then buffer_limit b1 max_len else b1)"
  shows "transform_to_iovecs ss (b # it) skip max_len out =
           (if max_len - b_size b2 = 0 then Inr (out @ [to_iovec b2])
            else transform_to_iovecs ss it 0 (max_len - b_size b2) (out @ [to_iovec b2]))"
proof -
  have "\<not> b_size b \<le> skip" using assms(1) by simp
  then show ?thesis using assms(2,3) by (simp add: Let_def)
qed

lemma transform_to_iovecs_window:
  assumes "gsl_subspan ss" and "max_len \<noteq> 0"
  shows "\<exists>iov. transform_to_iovecs ss bs skip max_len out = Inr (out @ iov)
            \<and> iov_addrs iov = take (unat max_len) (drop (unat skip) (addrs_of bs))
            \<and> (\<forall>v \<in> set iov. iov_len v \<noteq> 0) \<and> length iov \<le> length bs"
  using assms(2)
proof (induction bs arbitrary: skip max_len out)
  case Nil
  then show ?case by simp
next
  case (Cons b bs)
  show ?case
  proof (cases "b_size b \<le> skip")
    case True
    from Cons.IH [OF Cons.prems, of "skip - b_size b" out]
    show ?thesis
      using True by (auto simp: ark_word)
  next
    case False
    then have less: "skip < b_size b" by simp
    obtain b1 where adv: "buffer_advance ss b skip = Inr b1"
      and size: "b_size b1 = b_size b - skip" and addrs: "buf_addrs b1 = drop (unat skip) (buf_addrs b)"
      using buf_addrs_advance [OF assms(1)] less by (metis less_imp_le)
    define b2 where "b2 = (if max_len < b_size b1 then buffer_limit b1 max_len else b1)"
    have "b_size b1 \<noteq> 0" using less size by auto
    note lim = limit_window [OF Cons.prems this b2_def]
    note step = transform_to_iovecs_step [OF less adv b2_def, of bs out]
    have tail: "drop (unat skip) (addrs_of (b # bs)) = buf_addrs b1 @ addrs_of bs"
      using less by (simp add: addrs word_less_nat_alt)
    have len2: "iov_len (to_iovec b2) \<noteq> 0" using lim(4) by (simp add: to_iovec_def)
    show ?thesis
    proof (cases "max_len - b_size b2 = 0")
      case True
      then have "unat max_len \<le> unat (b_size b1)"
        using lim(2) by (metis eq_iff_diff_eq_0 min.cobounded2)
      then have "iov_addrs [to_iovec b2] = take (unat max_len) (drop (unat skip) (addrs_of (b # bs)))"
        unfolding tail using lim(1) by simp
      with True len2 show ?thesis
        unfolding step by (intro exI [of _ "[to_iovec b2]"]) simp
    next
      case False
      from Cons.IH [OF False, of 0 "out @ [to_iovec b2]"] obtain iov where
        iov: "transform_to_iovecs ss bs 0 (max_len - b_size b2) (out @ [to_iovec b2]) = Inr (out @ to_iovec b2 # iov)"
        "iov_addrs iov = take (unat (max_len - b_size b2)) (addrs_of bs)"
        "\<forall>v \<in> set iov. iov_len v \<noteq> 0" "length iov \<le> length bs"
        by auto
      have "b2 = b1" and le: "b_size b1 \<le> max_len"
        using False by (auto simp: b2_def buffer_limit_def split: if_splits)
      then have "iov_addrs (to_iovec b2 # iov) = take (unat max_len) (drop (unat skip) (addrs_of (b # bs)))"
        unfolding tail using iov(2) le by (simp add: word_le_nat_alt unat_sub)
      with False iov len2 show ?thesis
        unfolding step by (intro exI [of _ "to_iovec b2 # iov"]) simp
    qed
  qed
qed

lemma to_iovecs_window:
  assumes "gsl_subspan ss" and "max_len \<noteq> 0"
  obtains iov where "to_iovecs ss bseq skip max_len = Inr (sequence_size_member bseq, iov)"
    and "iov_addrs iov = window bseq skip max_len"
    and "\<forall>v \<in> set iov. iov_len v \<noteq> 0" and "length iov \<le> length (sequence_range bseq)"
  using transform_to_iovecs_window [OF assms, of "sequence_range bseq" skip "[]"]
  by (auto simp: to_iovecs_def window_def seq_addrs_def)

text \<open>
  C7. The scatter/gather list of a call addresses exactly the bytes of the buffer sequence from
  offset \<open>skip\<close> on, \<open>max_len\<close> of them or as many as there are, in order; it has no empty
  element and no more elements than the sequence has buffers, and building it never steps
  outside a buffer.
\<close>

theorem to_iovecs_exact:
  assumes "gsl_subspan ss" and "max_len \<noteq> 0"
  shows "\<exists>iov. to_iovecs ss bseq skip max_len = Inr (sequence_size_member bseq, iov)
           \<and> iov_addrs iov = take (unat max_len) (drop (unat skip) (seq_addrs bseq))
           \<and> 0 \<notin> iov_len ` set iov \<and> length iov \<le> length (sequence_range bseq)"
proof -
  obtain iov where "to_iovecs ss bseq skip max_len = Inr (sequence_size_member bseq, iov)"
    "iov_addrs iov = window bseq skip max_len" "\<forall>v \<in> set iov. iov_len v \<noteq> 0"
    "length iov \<le> length (sequence_range bseq)"
    using to_iovecs_window [OF assms] by blast
  then show ?thesis by (auto simp: window_def)
qed

theorem to_iovecs_exact_witness:
  "\<exists>iov. to_iovecs plain_subspan (Container_of [\<lparr>b_data = 10, b_size = 4\<rparr>, \<lparr>b_data = 50, b_size = 6\<rparr>]) 3 5 =
       Inr (2, iov)
     \<and> iov_addrs iov = [13, 50, 51, 52, 53]
     \<and> 0 \<notin> iov_len ` set iov \<and> length iov \<le> Suc (Suc 0)"
proof -
  let ?b = "Container_of [\<lparr>b_data = 10, b_size = 4\<rparr>, \<lparr>b_data = 50, b_size = 6\<rparr>]"
  have "take (unat (5 :: size_t)) (drop (unat (3 :: size_t)) (seq_addrs ?b)) = [13, 50, 51, 52, 53]"
    by code_simp
  then show ?thesis
    using to_iovecs_exact [of plain_subspan 5 ?b 3] by simp
qed

text \<open>
  For a single buffer, as opposed to a container of buffers, \<open>to_iovecs\<close> reserves one
  \<open>iovec\<close> for every byte of the buffer, although it produces at most one.
\<close>

lemma to_iovecs_single_reserve:
  assumes "gsl_subspan ss" and "max_len \<noteq> 0"
  shows "\<exists>iov. to_iovecs ss (Single b) skip max_len = Inr (b_size b, iov) \<and> length iov \<le> 1"
proof -
  obtain iov where "to_iovecs ss (Single b) skip max_len = Inr (sequence_size_member (Single b), iov)"
    "length iov \<le> length (sequence_range (Single b))"
    using to_iovecs_window [OF assms] by blast
  then show ?thesis by simp
qed

end
