(* ===== verification/Ark_Completion.thy ===== *)
theory Ark_Completion
  imports Ark_Prelude
begin

text \<open>
  \<open>include/ark/io/completion_condition.hpp\<close> and the concept \<open>CompletionCondition\<close> of
  \<open>include/ark/io/concepts.hpp\<close>: how many bytes an I/O operation may transfer next, 0 to
  stop, from the size of the buffer and the number of bytes done.

  The locale \<open>completion_condition\<close> is the contract the read and write loops rely on. A
  condition has a \<open>goal\<close>, the number of bytes below which it keeps going, and a \<open>cap\<close>, the
  number of bytes it never lets the operation pass.
\<close>

type_synonym completion_fun = "size_t \<Rightarrow> size_t \<Rightarrow> size_t"

definition transfer_all_t :: completion_fun where
  "transfer_all_t buffer_sz done_sz = (if done_sz < buffer_sz then buffer_sz - done_sz else 0)"

definition transfer_at_least_t :: "size_t \<Rightarrow> completion_fun" where
  "transfer_at_least_t n buffer_sz done_sz =
     (if done_sz < min n buffer_sz then buffer_sz - done_sz else 0)"

definition transfer_exactly_t :: "size_t \<Rightarrow> completion_fun" where
  "transfer_exactly_t n buffer_sz done_sz =
     (if done_sz < min n buffer_sz then min n buffer_sz - done_sz else 0)"

section \<open>The contract\<close>

locale completion_condition =
  fixes cond :: completion_fun
    and goal :: "size_t \<Rightarrow> size_t"
    and cap :: "size_t \<Rightarrow> size_t"
  assumes goal_le_cap: "goal b \<le> cap b"
    and cap_le: "cap b \<le> b"
    and stop_iff: "cond b d = 0 \<longleftrightarrow> goal b \<le> d"
    and cond_le: "d < goal b \<Longrightarrow> cond b d \<le> cap b - d"
begin

lemma go_on_less: "cond b d \<noteq> 0 \<Longrightarrow> d < cap b"
  using stop_iff [of b d] goal_le_cap [of b] by (meson not_le order.strict_trans2)

lemma window_fits: "cond b d \<noteq> 0 \<Longrightarrow> unat d + unat (cond b d) \<le> unat (cap b)"
proof -
  assume c: "cond b d \<noteq> 0"
  then have "unat (cond b d) \<le> unat (cap b) - unat d"
    using stop_iff [of b d] cond_le [of d b] go_on_less [OF c]
    by (simp add: not_le word_le_nat_alt unat_sub word_less_nat_alt)
  moreover have "unat d < unat (cap b)"
    using go_on_less [OF c] by (simp add: word_less_nat_alt)
  ultimately show ?thesis by simp
qed

lemma window_fits_buffer: "cond b d \<noteq> 0 \<Longrightarrow> unat d + unat (cond b d) \<le> unat b"
  using window_fits [of b d] cap_le [of b] by (simp add: word_le_nat_alt)

end

interpretation transfer_all: completion_condition transfer_all_t "\<lambda>b. b" "\<lambda>b. b"
  by unfold_locales (auto simp: transfer_all_t_def not_less)

interpretation transfer_at_least: completion_condition "transfer_at_least_t n" "min n" "\<lambda>b. b" for n
  by unfold_locales (auto simp: transfer_at_least_t_def not_less min_le_iff_disj)

interpretation transfer_exactly: completion_condition "transfer_exactly_t n" "min n" "min n" for n
  by unfold_locales (auto simp: transfer_exactly_t_def not_less min_le_iff_disj)

text \<open>
  C22. The three completion conditions never ask for more bytes than the buffer has left, so the
  unsigned subtractions in them do not wrap and the running count stays within the buffer:
  the count plus the bytes asked for is at most the size of the buffer, and for
  \<open>transfer_exactly n\<close> at most \<open>n\<close>. Each stops exactly when its goal is reached: the whole
  buffer, or \<open>n\<close> bytes of it.
\<close>

theorem completion_conditions_bounded:
  assumes "d \<le> b"
  shows "unat d + unat (transfer_all_t b d) \<le> unat b
    \<and> unat d + unat (transfer_at_least_t n b d) \<le> unat b
    \<and> (d \<le> n \<longrightarrow> unat d + unat (transfer_exactly_t n b d) \<le> min (unat n) (unat b))
    \<and> (transfer_all_t b d = 0 \<longleftrightarrow> d = b)
    \<and> (transfer_at_least_t n b d = 0 \<longleftrightarrow> min n b \<le> d)
    \<and> (transfer_exactly_t n b d = 0 \<longleftrightarrow> min n b \<le> d)"
proof (intro conjI impI)
  have le: "unat d \<le> unat b" using assms by (simp add: word_le_nat_alt)
  show "unat d + unat (transfer_all_t b d) \<le> unat b"
    using transfer_all.window_fits [of b d] le by (cases "transfer_all_t b d = 0") auto
  show "unat d + unat (transfer_at_least_t n b d) \<le> unat b"
    using transfer_at_least.window_fits [of n b d] le by (cases "transfer_at_least_t n b d = 0") auto
  show "unat d + unat (transfer_exactly_t n b d) \<le> min (unat n) (unat b)" if "d \<le> n"
    using transfer_exactly.window_fits [of n b d] le that
    by (cases "transfer_exactly_t n b d = 0") (auto simp: unat_min word_le_nat_alt)
  show "transfer_all_t b d = 0 \<longleftrightarrow> d = b"
    using assms by (auto simp: transfer_all.stop_iff)
qed (rule transfer_at_least.stop_iff transfer_exactly.stop_iff)+

theorem completion_conditions_bounded_witness:
  "(10 :: nat) + unat (transfer_exactly_t 30 1024 10) \<le> 30
   \<and> (10 :: nat) + unat (transfer_all_t 1024 10) \<le> 1024"
  using completion_conditions_bounded [of 10 1024 30] by simp

end
