(* ===== verification/Ark_Kernel.thy ===== *)
theory Ark_Kernel
  imports Ark_Bindings
begin

text \<open>
  What the manual pages of readv(2), preadv2(2), writev(2) and pwritev2(2) promise, as
  hypotheses on the parameter \<open>clinux\<close>. They are stated over an abstract view of the
  world: its memory, the bytes a stream descriptor will still deliver before end of file,
  the bytes it has accepted, and the contents of a file. The last section gives one kernel
  that keeps these promises and makes short transfers of at most three bytes; the closed
  instances of the theorems use it.
\<close>

section \<open>What the kernel documents\<close>

text \<open>The bytes were stored along the scatter list, from its start.\<close>

definition scattered :: "mem \<Rightarrow> iovec list \<Rightarrow> byte list \<Rightarrow> mem \<Rightarrow> bool" where
  "scattered m iov bs m' \<longleftrightarrow>
     length bs \<le> length (iov_addrs iov) \<and> m' = store m (take (length bs) (iov_addrs iov)) bs"

definition readv_law ::
  "('w, 'z) clinux_scheme \<Rightarrow> ('w \<Rightarrow> mem) \<Rightarrow> (int \<Rightarrow> 'w \<Rightarrow> byte list) \<Rightarrow> bool"
where
  "readv_law k memory stream \<longleftrightarrow>
     (\<forall>n iov w r w'. k_readv k n iov w = (r, w') \<longrightarrow>
        r = - 1 \<or>
        (\<exists>bs. r = int (length bs) \<and> stream n w = bs @ stream n w' \<and>
              scattered (memory w) iov bs (memory w') \<and>
              (bs = [] \<longrightarrow> iov_addrs iov = [] \<or> stream n w = [])))"

definition preadv2_law ::
  "('w, 'z) clinux_scheme \<Rightarrow> ('w \<Rightarrow> mem) \<Rightarrow> (int \<Rightarrow> 'w \<Rightarrow> byte list) \<Rightarrow> bool"
where
  "preadv2_law k memory file \<longleftrightarrow>
     (\<forall>n iov off w r w'. 0 \<le> off \<longrightarrow> k_preadv2 k n iov off 0 w = (r, w') \<longrightarrow>
        r = - 1 \<or>
        (\<exists>bs. r = int (length bs) \<and> drop (nat off) (file n w) = bs @ drop (nat off + length bs) (file n w) \<and>
              file n w' = file n w \<and> off_t_in_range (off + r) \<and>
              scattered (memory w) iov bs (memory w') \<and>
              (bs = [] \<longrightarrow> iov_addrs iov = [] \<or> drop (nat off) (file n w) = [])))"

definition writev_law ::
  "('w, 'z) clinux_scheme \<Rightarrow> ('w \<Rightarrow> mem) \<Rightarrow> (int \<Rightarrow> 'w \<Rightarrow> byte list) \<Rightarrow> bool"
where
  "writev_law k memory sink \<longleftrightarrow>
     (\<forall>n iov w r w'. k_writev k n iov w = (r, w') \<longrightarrow>
        memory w' = memory w \<and>
        (r = - 1 \<or>
         (0 \<le> r \<and> nat r \<le> length (iov_addrs iov) \<and>
          sink n w' = sink n w @ map (memory w) (take (nat r) (iov_addrs iov)))))"

definition overwrite :: "byte list \<Rightarrow> nat \<Rightarrow> byte list \<Rightarrow> byte list" where
  "overwrite xs off bs =
     (if bs = [] then xs
      else take off xs @ replicate (off - length xs) 0 @ bs @ drop (off + length bs) xs)"

definition pwritev2_law ::
  "('w, 'z) clinux_scheme \<Rightarrow> ('w \<Rightarrow> mem) \<Rightarrow> (int \<Rightarrow> 'w \<Rightarrow> byte list) \<Rightarrow> bool"
where
  "pwritev2_law k memory file \<longleftrightarrow>
     (\<forall>n iov off w r w'. 0 \<le> off \<longrightarrow> k_pwritev2 k n iov off 0 w = (r, w') \<longrightarrow>
        memory w' = memory w \<and>
        (r = - 1 \<or>
         (0 \<le> r \<and> nat r \<le> length (iov_addrs iov) \<and> off_t_in_range (off + r) \<and>
          file n w' = overwrite (file n w) (nat off) (map (memory w) (take (nat r) (iov_addrs iov))))))"

text \<open>A call with something to write writes something or fails.\<close>

definition write_progress :: "('w, 'z) clinux_scheme \<Rightarrow> bool" where
  "write_progress k \<longleftrightarrow>
     (\<forall>n iov w. iov_addrs iov \<noteq> [] \<longrightarrow> fst (k_writev k n iov w) \<noteq> 0 \<and>
        (\<forall>off. fst (k_pwritev2 k n iov off 0 w) \<noteq> 0))"

section \<open>A kernel with short transfers\<close>

record demo_world =
  dw_mem :: mem
  dw_in :: "int \<Rightarrow> byte list"
  dw_out :: "int \<Rightarrow> byte list"
  dw_file :: "int \<Rightarrow> byte list"

definition demo_chunk :: "iovec list \<Rightarrow> byte list \<Rightarrow> byte list" where
  "demo_chunk iov xs = take (min 3 (length (iov_addrs iov))) xs"

definition demo_gather :: "demo_world \<Rightarrow> iovec list \<Rightarrow> byte list" where
  "demo_gather w iov = map (dw_mem w) (take 3 (iov_addrs iov))"

definition demo_scatter :: "demo_world \<Rightarrow> iovec list \<Rightarrow> byte list \<Rightarrow> demo_world" where
  "demo_scatter w iov bs = w\<lparr>dw_mem := store (dw_mem w) (take (length bs) (iov_addrs iov)) bs\<rparr>"

definition demo_readv :: "int \<Rightarrow> iovec list \<Rightarrow> demo_world \<Rightarrow> ssize_t \<times> demo_world" where
  "demo_readv n iov w =
     (let bs = demo_chunk iov (dw_in w n)
      in (int (length bs),
          demo_scatter (w\<lparr>dw_in := (dw_in w)(n := drop (length bs) (dw_in w n))\<rparr>) iov bs))"

definition demo_preadv2 :: "int \<Rightarrow> iovec list \<Rightarrow> off_t \<Rightarrow> int \<Rightarrow> demo_world \<Rightarrow> ssize_t \<times> demo_world" where
  "demo_preadv2 n iov off flags w =
     (let bs = demo_chunk iov (drop (nat off) (dw_file w n))
      in if off_t_in_range (off + int (length bs)) then (int (length bs), demo_scatter w iov bs) else (- 1, w))"

definition demo_writev :: "int \<Rightarrow> iovec list \<Rightarrow> demo_world \<Rightarrow> ssize_t \<times> demo_world" where
  "demo_writev n iov w =
     (let bs = demo_gather w iov
      in (int (length bs), w\<lparr>dw_out := (dw_out w)(n := dw_out w n @ bs)\<rparr>))"

definition demo_pwritev2 :: "int \<Rightarrow> iovec list \<Rightarrow> off_t \<Rightarrow> int \<Rightarrow> demo_world \<Rightarrow> ssize_t \<times> demo_world" where
  "demo_pwritev2 n iov off flags w =
     (let bs = demo_gather w iov
      in if off_t_in_range (off + int (length bs))
         then (int (length bs), w\<lparr>dw_file := (dw_file w)(n := overwrite (dw_file w n) (nat off) bs)\<rparr>)
         else (- 1, w))"

definition demo_clinux :: "demo_world clinux" where
  "demo_clinux = failing_clinux\<lparr>k_readv := demo_readv, k_preadv2 := demo_preadv2,
     k_writev := demo_writev, k_pwritev2 := demo_pwritev2, k_close := (\<lambda>n w. (0, w))\<rparr>"

definition demo_start :: demo_world where
  "demo_start = \<lparr>dw_mem = (\<lambda>a. ucast a), dw_in = (\<lambda>n. [1, 2, 3, 4, 5, 6, 7, 8]),
     dw_out = (\<lambda>n. []), dw_file = (\<lambda>n. [10, 20, 30, 40])\<rparr>"

lemma demo_clinux_sel [simp]:
  "k_readv demo_clinux = demo_readv" "k_preadv2 demo_clinux = demo_preadv2"
  "k_writev demo_clinux = demo_writev" "k_pwritev2 demo_clinux = demo_pwritev2"
  by (simp_all add: demo_clinux_def)

lemma length_demo_chunk: "length (demo_chunk iov xs) \<le> length (iov_addrs iov)"
  by (simp add: demo_chunk_def)

lemma demo_chunk_prefix: "demo_chunk iov xs @ drop (length (demo_chunk iov xs)) xs = xs"
  by (cases "min 3 (length (iov_addrs iov)) \<le> length xs") (simp_all add: demo_chunk_def min_def)

lemma demo_chunk_Nil: "demo_chunk iov xs = [] \<longleftrightarrow> iov_addrs iov = [] \<or> xs = []"
  by (auto simp: demo_chunk_def min_def split: if_splits)

lemma demo_readv_law: "readv_law demo_clinux dw_mem (\<lambda>n w. dw_in w n)"
  by (auto simp: readv_law_def demo_readv_def demo_scatter_def scattered_def Let_def demo_chunk_prefix
      length_demo_chunk demo_chunk_Nil)

lemma demo_preadv2_law: "preadv2_law demo_clinux dw_mem (\<lambda>n w. dw_file w n)"
proof -
  have "drop i xs = demo_chunk iov (drop i xs) @ drop (i + length (demo_chunk iov (drop i xs))) xs" for i xs iov
    using demo_chunk_prefix [of iov "drop i xs"] by (simp add: add.commute)
  then show ?thesis
    by (auto simp: preadv2_law_def demo_preadv2_def demo_scatter_def scattered_def Let_def
        length_demo_chunk demo_chunk_Nil split: if_splits)
qed

lemma length_demo_gather: "length (demo_gather w iov) = min 3 (length (iov_addrs iov))"
  by (simp add: demo_gather_def)

lemma demo_gather_eq:
  "demo_gather w iov = map (dw_mem w) (take (length (demo_gather w iov)) (iov_addrs iov))"
  by (simp add: length_demo_gather) (simp add: demo_gather_def min_def)

lemma demo_writev_law: "writev_law demo_clinux dw_mem (\<lambda>n w. dw_out w n)"
  using demo_gather_eq by (auto simp: writev_law_def demo_writev_def Let_def length_demo_gather)

lemma demo_pwritev2_law: "pwritev2_law demo_clinux dw_mem (\<lambda>n w. dw_file w n)"
  using demo_gather_eq
  by (auto simp: pwritev2_law_def demo_pwritev2_def Let_def length_demo_gather split: if_splits)

lemma demo_write_progress: "write_progress demo_clinux"
  by (auto simp: write_progress_def demo_writev_def demo_pwritev2_def Let_def length_demo_gather)

end
