(* ===== verification/Ark_Sync_IO.thy ===== *)
theory Ark_Sync_IO
  imports Ark_Iovecs Ark_Completion Ark_Fd Ark_Kernel
begin

text \<open>
  \<open>include/ark/io/sync.hpp\<close>: the blocking \<open>read\<close> and \<open>write\<close> loops.

  A loop need not end (a completion condition or a kernel may keep it going), so the loops
  are partial functions with \<open>None\<close> for a run that does not return. A run that returns
  gives the failure it met, or the \<open>result<size_t>\<close> with the io object and the world after
  it. The kernel is a parameter, whose documented behaviour \<open>Ark_Kernel\<close> states.
\<close>

section \<open>The calls\<close>

definition sync_read_call ::
  "('w, 'z) clinux_scheme \<Rightarrow> io_fd \<Rightarrow> iovec list \<Rightarrow> 'w \<Rightarrow> failure + ssize_t \<times> 'w"
where
  "sync_read_call k f iov w =
     (case f of
        Seekable s \<Rightarrow>
          (case seekable_get s of Inl e \<Rightarrow> Inl e
           | Inr n \<Rightarrow>
               (case seekable_offset s of Inl e \<Rightarrow> Inl e
                | Inr off \<Rightarrow> Inr (k_preadv2 k n iov off 0 w)))
      | Nonseekable d \<Rightarrow>
          (case fd_get d of Inl e \<Rightarrow> Inl e
           | Inr n \<Rightarrow> Inr (k_readv k n iov w)))"

definition sync_write_call ::
  "('w, 'z) clinux_scheme \<Rightarrow> io_fd \<Rightarrow> iovec list \<Rightarrow> 'w \<Rightarrow> failure + ssize_t \<times> 'w"
where
  "sync_write_call k f iov w =
     (case f of
        Seekable s \<Rightarrow>
          (case seekable_get s of Inl e \<Rightarrow> Inl e
           | Inr n \<Rightarrow>
               (case seekable_offset s of Inl e \<Rightarrow> Inl e
                | Inr off \<Rightarrow> Inr (k_pwritev2 k n iov off 0 w)))
      | Nonseekable d \<Rightarrow>
          (case fd_get d of Inl e \<Rightarrow> Inl e
           | Inr n \<Rightarrow> Inr (k_writev k n iov w)))"

section \<open>The loops\<close>

type_synonym 'w io_outcome = "failure + size_t result \<times> io_fd \<times> 'w"

partial_function (option) sync_read_loop ::
  "subspan_t \<Rightarrow> ('w, 'z) clinux_scheme \<Rightarrow> completion_fun \<Rightarrow> buffer_sequence
   \<Rightarrow> io_fd \<Rightarrow> 'w \<Rightarrow> size_t \<Rightarrow> 'w io_outcome option"
where
  "sync_read_loop ss k cond b f w done_sz =
     (let to_transfer_max = cond (buffer_size b) done_sz in
      if to_transfer_max = 0 then Some (Inr (Inr done_sz, f, w))
      else case to_iovecs ss b done_sz to_transfer_max of
        Inl e \<Rightarrow> Some (Inl e)
      | Inr (reserved, iov) \<Rightarrow>
          (case sync_read_call k f iov w of
             Inl e \<Rightarrow> Some (Inl e)
           | Inr (syscall_ret, w') \<Rightarrow>
               (if syscall_ret = - 1 then Some (Inr (Inl (errno_ec k w'), f, w'))
                else if syscall_ret = 0 then Some (Inr (Inr done_sz, f, w'))
                else case io_feed f syscall_ret of
                  Inl e \<Rightarrow> Some (Inl e)
                | Inr f' \<Rightarrow>
                    sync_read_loop ss k cond b f' w' (done_sz + word_of_int syscall_ret))))"

definition sync_read ::
  "subspan_t \<Rightarrow> ('w, 'z) clinux_scheme \<Rightarrow> io_fd \<Rightarrow> buffer_sequence \<Rightarrow> completion_fun \<Rightarrow> 'w
   \<Rightarrow> 'w io_outcome option"
where
  "sync_read ss k f b cond w = sync_read_loop ss k cond b f w 0"

definition sync_read_all ::
  "subspan_t \<Rightarrow> ('w, 'z) clinux_scheme \<Rightarrow> io_fd \<Rightarrow> buffer_sequence \<Rightarrow> 'w \<Rightarrow> 'w io_outcome option"
where
  "sync_read_all ss k f b w = sync_read ss k f b transfer_all_t w"

partial_function (option) sync_write_loop ::
  "subspan_t \<Rightarrow> ('w, 'z) clinux_scheme \<Rightarrow> completion_fun \<Rightarrow> buffer_sequence
   \<Rightarrow> io_fd \<Rightarrow> 'w \<Rightarrow> size_t \<Rightarrow> 'w io_outcome option"
where
  "sync_write_loop ss k cond b f w done_sz =
     (let to_transfer_max = cond (buffer_size b) done_sz in
      if to_transfer_max = 0 then Some (Inr (Inr done_sz, f, w))
      else case to_iovecs ss b done_sz to_transfer_max of
        Inl e \<Rightarrow> Some (Inl e)
      | Inr (reserved, iov) \<Rightarrow>
          (case sync_write_call k f iov w of
             Inl e \<Rightarrow> Some (Inl e)
           | Inr (syscall_ret, w') \<Rightarrow>
               (if syscall_ret = - 1 then Some (Inr (Inl (errno_ec k w'), f, w'))
                else case io_feed f syscall_ret of
                  Inl e \<Rightarrow> Some (Inl e)
                | Inr f' \<Rightarrow>
                    sync_write_loop ss k cond b f' w' (done_sz + word_of_int syscall_ret))))"

definition sync_write ::
  "subspan_t \<Rightarrow> ('w, 'z) clinux_scheme \<Rightarrow> io_fd \<Rightarrow> buffer_sequence \<Rightarrow> completion_fun \<Rightarrow> 'w
   \<Rightarrow> 'w io_outcome option"
where
  "sync_write ss k f b cond w = sync_write_loop ss k cond b f w 0"

definition sync_write_all ::
  "subspan_t \<Rightarrow> ('w, 'z) clinux_scheme \<Rightarrow> io_fd \<Rightarrow> buffer_sequence \<Rightarrow> 'w \<Rightarrow> 'w io_outcome option"
where
  "sync_write_all ss k f b w = sync_write ss k f b transfer_all_t w"

section \<open>Views of an io object\<close>

text \<open>An object with a descriptor and, if it is seekable, an offset that is a file position.\<close>

fun io_live :: "io_fd \<Rightarrow> bool" where
  "io_live (Nonseekable f) \<longleftrightarrow> base_ptr f \<noteq> None"
| "io_live (Seekable f) \<longleftrightarrow> (\<exists>b. sbase_ptr f = Some b \<and> 0 \<le> offset_val b \<and> off_t_in_range (offset_val b))"

text \<open>The bytes the next reads of an object will deliver, up to end of file.\<close>

definition pending ::
  "(int \<Rightarrow> 'w \<Rightarrow> byte list) \<Rightarrow> (int \<Rightarrow> 'w \<Rightarrow> byte list) \<Rightarrow> io_fd \<Rightarrow> 'w \<Rightarrow> byte list"
where
  "pending stream file f w =
     (case f of
        Nonseekable d \<Rightarrow> (case base_ptr d of None \<Rightarrow> [] | Some b \<Rightarrow> stream (fildes b) w)
      | Seekable s \<Rightarrow>
          (case sbase_ptr s of None \<Rightarrow> []
           | Some b \<Rightarrow> drop (nat (offset_val b)) (file (fildes b) w)))"

lemma seekable_liveE:
  assumes "io_live (Seekable s)"
  obtains b where "sbase_ptr s = Some b" "0 \<le> offset_val b" "off_t_in_range (offset_val b)"
    "seekable_get s = Inr (fildes b)" "seekable_offset s = Inr (offset_val b)"
  using assms by (auto simp: seekable_get_def seekable_offset_def)

lemma nonseekable_liveE:
  assumes "io_live (Nonseekable d)"
  obtains b where "base_ptr d = Some b" "fd_get d = Inr (fildes b)"
  using assms by (auto simp: fd_get_def)

lemma io_feed_0: "io_live f \<Longrightarrow> io_feed f 0 = Inr f"
  by (cases f) (auto simp: seekable_feed_def)

lemma io_feed_feed:
  assumes "io_live f" "io_feed f m = Inr f'" "io_feed f' n = Inr f''"
  shows "io_feed f (m + n) = Inr f''"
proof (cases f)
  case (Seekable s)
  with assms(1) obtain b where b: "sbase_ptr s = Some b" "seekable_offset s = Inr (offset_val b)"
    using seekable_liveE by metis
  from Seekable assms(2) obtain s' where s': "f' = Seekable s'" "seekable_feed s m = Inr s'"
    by (auto split: sum.splits)
  then have range: "off_t_in_range (offset_val b + m)"
    using seekable.feed_overflow [OF b(2)] by fastforce
  then have "seekable_offset s' = Inr (offset_val b + m)"
    using seekable.feed_offset [OF b(2)] s'(2) by fastforce
  then have "off_t_in_range (offset_val b + m + n)"
    using seekable.feed_overflow assms(3) s'(1) by (fastforce split: sum.splits)
  then have "seekable_feed s' n = seekable_feed s (m + n)"
    using seekable.feed_feed b(2) range s'(2) by blast
  with Seekable s' assms(3) show ?thesis by simp
next
  case (Nonseekable d)
  with assms show ?thesis by auto
qed

section \<open>One read\<close>

text \<open>
  The abstract specification of one call of the read loop, for both kinds of object: an
  error, end of file, or some bytes of what is pending, stored along the scatter list.
\<close>

inductive read_step ::
  "('w \<Rightarrow> mem) \<Rightarrow> (io_fd \<Rightarrow> 'w \<Rightarrow> byte list) \<Rightarrow> io_fd \<Rightarrow> iovec list \<Rightarrow> 'w \<Rightarrow> failure + ssize_t \<times> 'w \<Rightarrow> bool"
  for memory pend f iov w
where
  error: "read_step memory pend f iov w (Inr (- 1, w'))"
| eof: "\<lbrakk>pend f w = []; memory w' = memory w; pend f w' = []\<rbrakk>
    \<Longrightarrow> read_step memory pend f iov w (Inr (0, w'))"
| data: "\<lbrakk>bs \<noteq> []; io_feed f (int (length bs)) = Inr f'; io_live f'; pend f w = bs @ pend f' w';
     scattered (memory w) iov bs (memory w')\<rbrakk>
    \<Longrightarrow> read_step memory pend f iov w (Inr (int (length bs), w'))"

text \<open>What is true of all of memory is true of a part that has the bytes of the call.\<close>

lemma read_step_on:
  assumes "read_step memory pend f iov w x" and "set (iov_addrs iov) \<subseteq> A"
  shows "read_step (\<lambda>w. mem_on A (memory w)) pend f iov w x"
  using assms(1)
proof cases
  case (data bs f' w')
  have "set (take (length bs) (iov_addrs iov)) \<subseteq> A" using assms(2) set_take_subset by fast
  with data(6) have "scattered (mem_on A (memory w)) iov bs (mem_on A (memory w'))" by (simp add: scattered_def mem_on_store)
  with data show ?thesis by (auto intro: read_step.data)
qed (auto intro: read_step.intros)

lemma read_step_nonseekable:
  assumes "readv_law k memory stream" "io_live (Nonseekable d)" "iov_addrs iov \<noteq> []"
  shows "read_step memory (pending stream file) (Nonseekable d) iov w (sync_read_call k (Nonseekable d) iov w)"
proof -
  obtain b where b: "base_ptr d = Some b" "fd_get d = Inr (fildes b)"
    using assms(2) nonseekable_liveE by blast
  obtain r w' where call: "k_readv k (fildes b) iov w = (r, w')" by fastforce
  then have eq: "sync_read_call k (Nonseekable d) iov w = Inr (r, w')"
    using b by (simp add: sync_read_call_def)
  have P: "pending stream file (Nonseekable d) v = stream (fildes b) v" for v
    using b by (simp add: pending_def)
  have "r = - 1 \<or> (\<exists>bs. r = int (length bs) \<and> stream (fildes b) w = bs @ stream (fildes b) w' \<and>
      scattered (memory w) iov bs (memory w') \<and> (bs = [] \<longrightarrow> stream (fildes b) w = []))"
    using assms(1,3) call unfolding readv_law_def by blast
  then show ?thesis
  proof (elim disjE exE conjE)
    fix bs
    assume bs: "r = int (length bs)" "stream (fildes b) w = bs @ stream (fildes b) w'"
      "scattered (memory w) iov bs (memory w')" "bs = [] \<longrightarrow> stream (fildes b) w = []"
    then show ?thesis
      unfolding eq using assms(2) P
      by (cases "bs = []") (auto simp: scattered_def intro!: read_step.eof read_step.data)
  qed (simp add: eq read_step.error)
qed

lemma read_step_seekable:
  assumes "preadv2_law k memory file" "io_live (Seekable s)" "iov_addrs iov \<noteq> []"
  shows "read_step memory (pending stream file) (Seekable s) iov w (sync_read_call k (Seekable s) iov w)"
proof -
  obtain b where b: "sbase_ptr s = Some b" "0 \<le> offset_val b"
      "seekable_get s = Inr (fildes b)" "seekable_offset s = Inr (offset_val b)"
    using assms(2) seekable_liveE by blast
  let ?o = "offset_val b" and ?file = "file (fildes b)"
  obtain r w' where call: "k_preadv2 k (fildes b) iov ?o 0 w = (r, w')" by fastforce
  then have eq: "sync_read_call k (Seekable s) iov w = Inr (r, w')"
    using b by (simp add: sync_read_call_def)
  have P: "pending stream file (Seekable s) v = drop (nat ?o) (?file v)" for v
    using b by (simp add: pending_def)
  have "r = - 1 \<or> (\<exists>bs. r = int (length bs) \<and> drop (nat ?o) (?file w) = bs @ drop (nat ?o + length bs) (?file w) \<and>
      ?file w' = ?file w \<and> off_t_in_range (?o + r) \<and>
      scattered (memory w) iov bs (memory w') \<and> (bs = [] \<longrightarrow> drop (nat ?o) (?file w) = []))"
    using assms(1,3) call b(2) unfolding preadv2_law_def by blast
  then show ?thesis
  proof (elim disjE exE conjE)
    fix bs
    assume bs: "r = int (length bs)" "drop (nat ?o) (?file w) = bs @ drop (nat ?o + length bs) (?file w)"
      "?file w' = ?file w" "off_t_in_range (?o + r)"
      "scattered (memory w) iov bs (memory w')" "bs = [] \<longrightarrow> drop (nat ?o) (?file w) = []"
    let ?s = "s\<lparr>sbase_ptr := Some (b\<lparr>offset_val := ?o + int (length bs)\<rparr>)\<rparr>"
    have feed: "io_feed (Seekable s) (int (length bs)) = Inr (Seekable ?s)"
      using b bs(1,4) by (simp add: seekable_feed_def)
    have live: "io_live (Seekable ?s)"
      using b(2) bs(1,4) by simp
    have pend: "pending stream file (Seekable ?s) w' = drop (nat ?o + length bs) (?file w)"
      using bs(3) b(2) by (simp add: pending_def nat_add_distrib)
    have split: "pending stream file (Seekable s) w = bs @ pending stream file (Seekable ?s) w'"
      unfolding P pend by (rule bs(2))
    note data = read_step.data [OF _ feed live split bs(5)]
    show ?thesis
      unfolding eq bs(1) using data bs(3,5,6) P
      by (cases "bs = []") (auto simp: scattered_def intro: read_step.eof)
  qed (simp add: eq read_step.error)
qed

lemma sync_read_call_step:
  assumes "readv_law k memory stream" "preadv2_law k memory file" "io_live f" "iov_addrs iov \<noteq> []"
  shows "read_step memory (pending stream file) f iov w (sync_read_call k f iov w)"
proof (cases f)
  case (Nonseekable d)
  then show ?thesis using read_step_nonseekable assms(1,3,4) by simp
next
  case (Seekable s)
  then show ?thesis using read_step_seekable assms(2-4) by simp
qed

section \<open>The read loop\<close>

text \<open>\<open>n\<close> bytes of \<open>P\<close> are in the first \<open>n\<close> bytes of the buffer sequence, and no other byte changed.\<close>

definition received :: "mem \<Rightarrow> addr list \<Rightarrow> byte list \<Rightarrow> nat \<Rightarrow> mem" where
  "received M A P n = store M (take n A) (take n P)"

lemma received_0 [simp]: "received M A P 0 = M"
  by (simp add: received_def)

lemma received_step:
  assumes "drop d P = bs @ P'" and "d \<le> length P" and "d + length bs \<le> length A"
  shows "store (received M A P d) (take (length bs) (drop d A)) bs = received M A P (d + length bs)"
proof -
  have "take (d + length bs) P = take d P @ bs"
    using assms(1) by (simp add: take_add)
  then show ?thesis
    unfolding received_def using assms by (simp add: store_windows)
qed

definition read_result ::
  "(size_t \<Rightarrow> size_t) \<Rightarrow> (size_t \<Rightarrow> size_t) \<Rightarrow> size_t \<Rightarrow> byte list \<Rightarrow> nat \<Rightarrow> bool"
where
  "read_result goal cap B P n \<longleftrightarrow>
     n \<le> unat (cap B) \<and> n \<le> length P \<and> (unat (goal B) \<le> n \<or> n = length P)"

lemma window_length:
  assumes "unat d + unat c \<le> length (seq_addrs b)"
  shows "length (window b d c) = unat c"
  using assms by (simp add: window_def)

text \<open>
  What holds between two calls of a read that started on \<open>f0\<close> with memory \<open>M\<close> and the bytes
  \<open>P\<close> before it, when \<open>d\<close> of them are done. The loop that blocks and the operation that is
  resumed by the event loop keep the same invariant.
\<close>

definition read_inv ::
  "('w \<Rightarrow> mem) \<Rightarrow> (io_fd \<Rightarrow> 'w \<Rightarrow> byte list) \<Rightarrow> buffer_sequence \<Rightarrow> (size_t \<Rightarrow> size_t) \<Rightarrow> io_fd \<Rightarrow> mem \<Rightarrow> byte list
   \<Rightarrow> io_fd \<Rightarrow> 'w \<Rightarrow> size_t \<Rightarrow> bool"
where
  "read_inv memory pend b cap f0 M P f w d \<longleftrightarrow>
     io_live f \<and> d \<le> cap (buffer_size b) \<and> unat d \<le> length P \<and> pend f w = drop (unat d) P
     \<and> memory w = received M (seq_addrs b) P (unat d) \<and> io_feed f0 (int (unat d)) = Inr f"

lemma read_inv_start:
  "io_live f \<Longrightarrow> read_inv memory pend b cap f (memory w) (pend f w) f w 0"
  by (simp add: read_inv_def io_feed_0)

lemma io_window_fits:
  assumes "completion_condition cond goal cap" and "length (seq_addrs b) < 2 ^ 64"
    and "cond (buffer_size b) d \<noteq> 0"
  shows "unat d + unat (cond (buffer_size b) d) \<le> unat (cap (buffer_size b))"
    and "unat (cap (buffer_size b)) \<le> length (seq_addrs b)"
    and "length (window b d (cond (buffer_size b) d)) = unat (cond (buffer_size b) d)"
proof -
  show fits: "unat d + unat (cond (buffer_size b) d) \<le> unat (cap (buffer_size b))"
    using completion_condition.window_fits [OF assms(1,3)] .
  show cap: "unat (cap (buffer_size b)) \<le> length (seq_addrs b)"
    using completion_condition.cap_le [OF assms(1), of "buffer_size b"] unat_buffer_size [OF assms(2)]
    by (simp add: word_le_nat_alt)
  show "length (window b d (cond (buffer_size b) d)) = unat (cond (buffer_size b) d)"
    using fits cap by (simp add: window_length)
qed

lemma unat_add_count:
  assumes "unat d + n \<le> unat (c :: size_t)"
  shows "unat (d + word_of_int (int n) :: size_t) = unat d + n"
  using assms unat_less_64 [of c] by (subst unat_add_no_wrap) (simp_all add: unat_of_nat)

lemma read_inv_data:
  assumes cc: "completion_condition cond goal cap" "length (seq_addrs b) < 2 ^ 64" "cond (buffer_size b) d \<noteq> 0"
    and live0: "io_live f0" and inv: "read_inv memory pend b cap f0 M P f w d"
    and iov: "iov_addrs iov = window b d (cond (buffer_size b) d)"
    and data: "io_feed f (int (length bs)) = Inr f'" "io_live f'" "pend f w = bs @ pend f' w'"
      "scattered (memory w) iov bs (memory w')"
  shows "unat (d + word_of_int (int (length bs))) = unat d + length bs
    \<and> read_inv memory pend b cap f0 M P f' w' (d + word_of_int (int (length bs)))"
proof -
  let ?A = "seq_addrs b" and ?B = "buffer_size b" and ?d = "d + word_of_int (int (length bs))"
  note fits = io_window_fits [OF cc]
  note inv = inv [unfolded read_inv_def]
  have le: "length bs \<le> unat (cond ?B d)"
    using data(4) iov fits(3) by (simp add: scattered_def)
  then have d: "unat ?d = unat d + length bs"
    using fits(1) by (intro unat_add_count [of _ _ "cap ?B"]) simp
  have P: "drop (unat d) P = bs @ pend f' w'"
    using data(3) inv by simp
  have "?d \<le> cap ?B" "unat ?d \<le> length P"
    using d le fits(1) P inv by (auto simp: word_le_nat_alt dest: arg_cong [of _ _ length])
  moreover have "pend f' w' = drop (unat ?d) P"
    using P d by (metis add.commute append_eq_conv_conj drop_drop)
  moreover have "memory w' = received M ?A P (unat ?d)"
    using received_step [OF P, of ?A M] data(4) iov d le fits inv
    by (simp add: scattered_def window_def)
  moreover have "io_feed f0 (int (unat ?d)) = Inr f'"
    using io_feed_feed [OF live0 _ data(1), of "int (unat d)"] d inv by simp
  ultimately show ?thesis
    using d data(2) unfolding read_inv_def by blast
qed

lemma sync_read_loop_total:
  assumes laws: "readv_law k memory stream" "preadv2_law k memory file" "gsl_subspan ss"
    and cc: "completion_condition cond goal cap"
    and size: "length (seq_addrs b) < 2 ^ 64" and live0: "io_live f0"
    and "read_inv memory (pending stream file) b cap f0 M P f w d"
  shows "\<exists>out f' w' m. sync_read_loop ss k cond b f w d = Some (Inr (out, f', w')) \<and> io_live f' \<and>
     io_feed f0 (int m) = Inr f' \<and> m \<le> unat (cap (buffer_size b)) \<and>
     (case out of
        Inl e \<Rightarrow> e = errno_ec k w'
      | Inr n \<Rightarrow> m = unat n \<and> read_result goal cap (buffer_size b) P m
               \<and> pending stream file f' w' = drop m P
               \<and> memory w' = received M (seq_addrs b) P m)"
  using assms(7)
proof (induction "unat (cap (buffer_size b)) - unat d" arbitrary: f w d rule: less_induct)
  case less
  let ?B = "buffer_size b"
  note inv = less.prems [unfolded read_inv_def]
  show ?case
  proof (cases "cond ?B d = 0")
    case True
    then have "goal ?B \<le> d"
      using completion_condition.stop_iff [OF cc] by simp
    with True inv show ?thesis
      by (intro exI [of _ "Inr d"] exI [of _ f] exI [of _ w] exI [of _ "unat d"], subst sync_read_loop.simps)
         (simp add: read_result_def word_le_nat_alt)
  next
    case False
    note fits = io_window_fits [OF cc size False]
    obtain reserved iov where iov: "to_iovecs ss b d (cond ?B d) = Inr (reserved, iov)"
      "iov_addrs iov = window b d (cond ?B d)"
      using to_iovecs_window [OF laws(3) False] by metis
    have "iov_addrs iov \<noteq> []"
      using False fits(3) iov(2) by auto
    note sync_read_call_step [OF laws(1,2) conjunct1 [OF inv] this, of w]
    then show ?thesis
    proof (cases rule: read_step.cases)
      case (error w')
      then show ?thesis
        using False iov(1) inv
        by (intro exI [of _ "Inl (errno_ec k w')"] exI [of _ f] exI [of _ w'] exI [of _ "unat d"], subst sync_read_loop.simps)
           (simp add: word_le_nat_alt)
    next
      case (eof w')
      then have "length P = unat d" using inv by simp
      with eof show ?thesis
        using False iov(1) inv
        by (intro exI [of _ "Inr d"] exI [of _ f] exI [of _ w'] exI [of _ "unat d"], subst sync_read_loop.simps)
           (simp add: read_result_def word_le_nat_alt)
    next
      case (data bs f' w')
      let ?d = "d + word_of_int (int (length bs)) :: size_t"
      note next_inv = read_inv_data [OF cc size False live0 less.prems iov(2) data(3-6)]
      have loop: "sync_read_loop ss k cond b f w d = sync_read_loop ss k cond b f' w' ?d"
        using False iov(1) data(1-3) by (subst sync_read_loop.simps) simp
      have "unat ?d \<le> unat (cap ?B)" "0 < length bs"
        using next_inv data(2) by (simp_all add: read_inv_def word_le_nat_alt)
      then have "unat (cap ?B) - unat ?d < unat (cap ?B) - unat d"
        using next_inv by linarith
      then show ?thesis
        unfolding loop by (rule less.hyps) (use next_inv in blast)
    qed
  qed
qed

lemma sync_read_total:
  assumes "readv_law k memory stream" and "preadv2_law k memory file" and "gsl_subspan ss"
    and "completion_condition cond goal cap" and "length (seq_addrs b) < 2 ^ 64" and "io_live f"
  shows "\<exists>out f' w' m. sync_read ss k f b cond w = Some (Inr (out, f', w')) \<and> io_live f' \<and>
     io_feed f (int m) = Inr f' \<and> m \<le> unat (cap (buffer_size b)) \<and>
     (case out of
        Inl e \<Rightarrow> e = errno_ec k w'
      | Inr n \<Rightarrow>
          m = unat n \<and> m \<le> length (pending stream file f w)
          \<and> (unat (goal (buffer_size b)) \<le> m \<or> m = length (pending stream file f w))
          \<and> pending stream file f' w' = drop m (pending stream file f w)
          \<and> memory w' = store (memory w) (take m (seq_addrs b)) (take m (pending stream file f w)))"
proof -
  let ?P = "pending stream file f w"
  obtain out f' w' m where *: "sync_read_loop ss k cond b f w 0 = Some (Inr (out, f', w'))" "io_live f'"
    "io_feed f (int m) = Inr f'" "m \<le> unat (cap (buffer_size b))"
    "case out of Inl e \<Rightarrow> e = errno_ec k w'
     | Inr n \<Rightarrow> m = unat n \<and> read_result goal cap (buffer_size b) ?P m \<and> pending stream file f' w' = drop m ?P
               \<and> memory w' = received (memory w) (seq_addrs b) ?P m"
    using sync_read_loop_total [OF assms read_inv_start [OF assms(6), where w = w]] by auto
  then show ?thesis
    unfolding sync_read_def
    by (intro exI [of _ out] exI [of _ f'] exI [of _ w'] exI [of _ m])
       (cases out; auto simp: received_def read_result_def)
qed

text \<open>
  C1. \<open>sync::read\<close> with a completion condition always returns, and without a failure, on an open
  object and a buffer sequence that fits the address space, if the kernel behaves as
  documented. The object has been fed the \<open>m\<close> bytes transferred, at most the cap of the
  condition. An error is the errno of the failing call. Otherwise \<open>m\<close> is the count
  returned, the first \<open>m\<close> bytes of the buffer sequence hold the next \<open>m\<close> bytes of the stream
  or file and no other byte of memory changed, the bytes pending are those after them, and
  the goal is reached unless the end of the input was.
\<close>

theorem sync_read_correct:
  assumes "readv_law k memory stream" and "preadv2_law k memory file" and "gsl_subspan ss"
    and "completion_condition cond goal cap" and "length (seq_addrs b) < 2 ^ 64" and "io_live f"
  shows "\<exists>out f' w' m. sync_read ss k f b cond w = Some (Inr (out, f', w')) \<and> io_live f' \<and>
     io_feed f (int m) = Inr f' \<and> m \<le> unat (cap (buffer_size b)) \<and>
     (case out of
        Inl e \<Rightarrow> e = errno_ec k w'
      | Inr n \<Rightarrow>
          m = unat n \<and> m \<le> length (pending stream file f w)
          \<and> (unat (goal (buffer_size b)) \<le> m \<or> m = length (pending stream file f w))
          \<and> pending stream file f' w' = drop m (pending stream file f w)
          \<and> memory w' = store (memory w) (take m (seq_addrs b)) (take m (pending stream file f w)))"
  using assms by (rule sync_read_total)

theorem sync_read_correct_witness:
  "\<exists>out f' w' m. sync_read plain_subspan demo_clinux (Nonseekable (fd_create 5))
        (Container_of [\<lparr>b_data = 100, b_size = 4\<rparr>, \<lparr>b_data = 200, b_size = 6\<rparr>]) (transfer_at_least_t 5) demo_start =
       Some (Inr (out, f', w')) \<and> f' = Nonseekable (fd_create 5) \<and> m \<le> 10 \<and>
     (case out of
        Inl e \<Rightarrow> e = errno_ec demo_clinux w'
      | Inr n \<Rightarrow>
          m = unat n \<and> m \<le> 8 \<and> (5 \<le> m \<or> m = 8)
          \<and> dw_in w' 5 = drop m [1, 2, 3, 4, 5, 6, 7, 8]
          \<and> dw_mem w' = store (dw_mem demo_start)
               (take m [100, 101, 102, 103, 200, 201, 202, 203, 204, 205]) (take m [1, 2, 3, 4, 5, 6, 7, 8]))"
proof -
  let ?b = "Container_of [\<lparr>b_data = 100, b_size = 4\<rparr>, \<lparr>b_data = 200, b_size = 6\<rparr>]"
  let ?f = "Nonseekable (fd_create 5)"
  let ?pend = "pending (\<lambda>n w. dw_in w n) (\<lambda>n w. dw_file w n)"
  have pend: "?pend ?f w = dw_in w 5" for w
    by (simp add: pending_def fd_create_def)
  have addrs: "seq_addrs ?b = [100, 101, 102, 103, 200, 201, 202, 203, 204, 205]"
    by code_simp
  have size: "buffer_size ?b = 10"
    by code_simp
  have five: "unat (min 5 (10 :: size_t)) = 5"
    by code_simp
  have start: "dw_in demo_start 5 = [1, 2, 3, 4, 5, 6, 7, 8]"
    by (simp add: demo_start_def)
  have "length (seq_addrs ?b) < 2 ^ 64" "io_live ?f"
    unfolding addrs by (simp_all add: fd_create_def)
  from sync_read_correct [OF demo_readv_law demo_preadv2_law gsl_subspan_plain
      transfer_at_least.completion_condition_axioms [of 5] this, of demo_start]
  show ?thesis
  proof (elim exE conjE)
    fix out f' w' m
    assume "io_feed ?f (int m) = Inr f'"
    then have f': "f' = ?f" by simp
    assume "sync_read plain_subspan demo_clinux ?f ?b (transfer_at_least_t 5) demo_start = Some (Inr (out, f', w'))"
      "m \<le> unat (buffer_size ?b)"
      "case out of Inl e \<Rightarrow> e = errno_ec demo_clinux w'
       | Inr n \<Rightarrow> m = unat n \<and> m \<le> length (?pend ?f demo_start)
           \<and> (unat (min 5 (buffer_size ?b)) \<le> m \<or> m = length (?pend ?f demo_start))
           \<and> ?pend f' w' = drop m (?pend ?f demo_start)
           \<and> dw_mem w' = store (dw_mem demo_start) (take m (seq_addrs ?b)) (take m (?pend ?f demo_start))"
    then show ?thesis
      unfolding f' pend addrs size five start
      by (intro exI [of _ out] exI [of _ ?f] exI [of _ w'] exI [of _ m]) (cases out; auto)
  qed
qed

section \<open>One write\<close>

text \<open>
  The bytes an object has taken since a start: appended to a stream, or placed in the file
  at the start offset, with the offset moved behind them.
\<close>

definition written ::
  "(int \<Rightarrow> 'w \<Rightarrow> byte list) \<Rightarrow> (int \<Rightarrow> 'w \<Rightarrow> byte list) \<Rightarrow> io_fd \<Rightarrow> 'w \<Rightarrow> byte list \<Rightarrow> io_fd \<Rightarrow> 'w \<Rightarrow> bool"
where
  "written sink file f w bs f' w' \<longleftrightarrow>
     (case f of
        Nonseekable d \<Rightarrow>
          f' = f \<and> (case base_ptr d of None \<Rightarrow> True | Some b \<Rightarrow> sink (fildes b) w' = sink (fildes b) w @ bs)
      | Seekable s \<Rightarrow>
          (case sbase_ptr s of None \<Rightarrow> True
           | Some b \<Rightarrow>
               f' = Seekable (s\<lparr>sbase_ptr := Some (b\<lparr>offset_val := offset_val b + int (length bs)\<rparr>)\<rparr>)
               \<and> file (fildes b) w' = overwrite (file (fildes b) w) (nat (offset_val b)) bs))"

lemma overwrite_append:
  "overwrite (overwrite xs off as) (off + length as) bs = overwrite xs off (as @ bs)"
  by (cases "off \<le> length xs") (auto simp: overwrite_def min_def ac_simps)

lemma written_refl: "io_live f \<Longrightarrow> written sink file f w [] f w"
  by (auto simp: written_def overwrite_def split: io_fd.split option.split)

lemma written_trans:
  assumes "io_live f" and "written sink file f w as f1 w1" and "written sink file f1 w1 bs f2 w2"
  shows "written sink file f w (as @ bs) f2 w2"
  using assms
  by (cases f) (auto simp: written_def nat_add_distrib add.assoc split: option.splits simp flip: overwrite_append)

inductive write_step ::
  "('w \<Rightarrow> mem) \<Rightarrow> (io_fd \<Rightarrow> 'w \<Rightarrow> byte list \<Rightarrow> io_fd \<Rightarrow> 'w \<Rightarrow> bool) \<Rightarrow> io_fd \<Rightarrow> iovec list \<Rightarrow> 'w
   \<Rightarrow> failure + ssize_t \<times> 'w \<Rightarrow> bool"
  for memory took f iov w
where
  error: "memory w' = memory w \<Longrightarrow> write_step memory took f iov w (Inr (- 1, w'))"
| data: "\<lbrakk>0 < n; n \<le> length (iov_addrs iov); io_feed f (int n) = Inr f'; io_live f'; memory w' = memory w;
     took f w (map (memory w) (take n (iov_addrs iov))) f' w'\<rbrakk>
    \<Longrightarrow> write_step memory took f iov w (Inr (int n, w'))"

lemma write_step_on:
  assumes "write_step memory took f iov w x" and "set (iov_addrs iov) \<subseteq> A"
  shows "write_step (\<lambda>w. mem_on A (memory w)) took f iov w x"
  using assms(1)
proof cases
  case (data n f' w')
  have "set (take n (iov_addrs iov)) \<subseteq> A" using assms(2) set_take_subset by fast
  with data show ?thesis by (auto intro!: write_step.data simp: map_mem_on)
qed (auto intro: write_step.intros)

lemma write_step_nonseekable:
  assumes "writev_law k memory sink" "write_progress k" "io_live (Nonseekable d)" "iov_addrs iov \<noteq> []"
  shows "write_step memory (written sink file) (Nonseekable d) iov w (sync_write_call k (Nonseekable d) iov w)"
proof -
  obtain b where b: "base_ptr d = Some b" "fd_get d = Inr (fildes b)"
    using assms(3) nonseekable_liveE by blast
  obtain r w' where call: "k_writev k (fildes b) iov w = (r, w')" by fastforce
  then have eq: "sync_write_call k (Nonseekable d) iov w = Inr (r, w')"
    using b by (simp add: sync_write_call_def)
  have "r \<noteq> 0"
    using assms(2,4) call unfolding write_progress_def by (metis fst_conv)
  then have mem: "memory w' = memory w" and "r = - 1 \<or> 0 < r \<and> nat r \<le> length (iov_addrs iov) \<and>
      sink (fildes b) w' = sink (fildes b) w @ map (memory w) (take (nat r) (iov_addrs iov))"
    using assms(1) call unfolding writev_law_def by (blast, force)
  then show ?thesis
  proof (elim disjE conjE)
    assume r: "0 < r" "nat r \<le> length (iov_addrs iov)"
      "sink (fildes b) w' = sink (fildes b) w @ map (memory w) (take (nat r) (iov_addrs iov))"
    then show ?thesis
      unfolding eq
      using write_step.data [of "nat r" iov "Nonseekable d" "Nonseekable d" memory w' w "written sink file"]
        b mem assms(3) by (simp add: written_def)
  qed (simp add: eq write_step.error)
qed

lemma write_step_seekable:
  assumes "pwritev2_law k memory file" "write_progress k" "io_live (Seekable s)" "iov_addrs iov \<noteq> []"
  shows "write_step memory (written sink file) (Seekable s) iov w (sync_write_call k (Seekable s) iov w)"
proof -
  obtain b where b: "sbase_ptr s = Some b" "0 \<le> offset_val b"
      "seekable_get s = Inr (fildes b)" "seekable_offset s = Inr (offset_val b)"
    using assms(3) seekable_liveE by blast
  let ?o = "offset_val b"
  obtain r w' where call: "k_pwritev2 k (fildes b) iov ?o 0 w = (r, w')" by fastforce
  then have eq: "sync_write_call k (Seekable s) iov w = Inr (r, w')"
    using b by (simp add: sync_write_call_def)
  have "r \<noteq> 0"
    using assms(2,4) call unfolding write_progress_def by (metis fst_conv)
  have "memory w' = memory w \<and> (r = - 1 \<or> (0 \<le> r \<and> nat r \<le> length (iov_addrs iov) \<and> off_t_in_range (?o + r) \<and>
      file (fildes b) w' = overwrite (file (fildes b) w) (nat ?o) (map (memory w) (take (nat r) (iov_addrs iov)))))"
    using assms(1) call b(2) unfolding pwritev2_law_def by blast
  with \<open>r \<noteq> 0\<close> have mem: "memory w' = memory w" and "r = - 1 \<or> 0 < r \<and> nat r \<le> length (iov_addrs iov) \<and>
      off_t_in_range (?o + r) \<and>
      file (fildes b) w' = overwrite (file (fildes b) w) (nat ?o) (map (memory w) (take (nat r) (iov_addrs iov)))"
    by auto
  then show ?thesis
  proof (elim disjE conjE)
    assume r: "0 < r" "nat r \<le> length (iov_addrs iov)" "off_t_in_range (?o + r)"
      "file (fildes b) w' = overwrite (file (fildes b) w) (nat ?o) (map (memory w) (take (nat r) (iov_addrs iov)))"
    let ?s = "Seekable (s\<lparr>sbase_ptr := Some (b\<lparr>offset_val := ?o + r\<rparr>)\<rparr>)"
    have "io_feed (Seekable s) r = Inr ?s" "io_live ?s"
      using b(1,2) r(1,3) by (simp_all add: seekable_feed_def)
    with r show ?thesis
      unfolding eq
      using write_step.data [of "nat r" iov "Seekable s" ?s memory w' w "written sink file"] b mem
      by (simp add: written_def min_def)
  qed (simp add: eq write_step.error)
qed

lemma sync_write_call_step:
  assumes "writev_law k memory sink" "pwritev2_law k memory file" "write_progress k"
    "io_live f" "iov_addrs iov \<noteq> []"
  shows "write_step memory (written sink file) f iov w (sync_write_call k f iov w)"
proof (cases f)
  case (Nonseekable d)
  then show ?thesis using write_step_nonseekable assms(1,3-5) by simp
next
  case (Seekable s)
  then show ?thesis using write_step_seekable assms(2-5) by simp
qed

section \<open>The write loop\<close>

definition write_inv ::
  "('w \<Rightarrow> mem) \<Rightarrow> (io_fd \<Rightarrow> 'w \<Rightarrow> byte list \<Rightarrow> io_fd \<Rightarrow> 'w \<Rightarrow> bool) \<Rightarrow> buffer_sequence \<Rightarrow> (size_t \<Rightarrow> size_t)
   \<Rightarrow> io_fd \<Rightarrow> 'w \<Rightarrow> io_fd \<Rightarrow> 'w \<Rightarrow> size_t \<Rightarrow> bool"
where
  "write_inv memory took b cap f0 w0 f w d \<longleftrightarrow>
     io_live f \<and> d \<le> cap (buffer_size b) \<and> memory w = memory w0
     \<and> took f0 w0 (map (memory w0) (take (unat d) (seq_addrs b))) f w"

lemma write_inv_start:
  "io_live f \<Longrightarrow> write_inv memory (written sink file) b cap f w f w 0"
  by (simp add: write_inv_def written_refl)

lemma write_inv_data:
  assumes cc: "completion_condition cond goal cap" "length (seq_addrs b) < 2 ^ 64" "cond (buffer_size b) d \<noteq> 0"
    and live0: "io_live f0" and inv: "write_inv memory (written sink file) b cap f0 w0 f w d"
    and iov: "iov_addrs iov = window b d (cond (buffer_size b) d)"
    and data: "n \<le> length (iov_addrs iov)" "io_live f'" "memory w' = memory w"
      "written sink file f w (map (memory w) (take n (iov_addrs iov))) f' w'"
  shows "unat (d + word_of_int (int n)) = unat d + n
    \<and> write_inv memory (written sink file) b cap f0 w0 f' w' (d + word_of_int (int n))"
proof -
  let ?A = "seq_addrs b" and ?B = "buffer_size b" and ?d = "d + word_of_int (int n)"
  note fits = io_window_fits [OF cc]
  note inv = inv [unfolded write_inv_def]
  have le: "n \<le> unat (cond ?B d)"
    using data(1) iov fits(3) by simp
  then have d: "unat ?d = unat d + n"
    using fits(1) by (intro unat_add_count [of _ _ "cap ?B"]) simp
  have "?d \<le> cap ?B"
    using d le fits(1) by (simp add: word_le_nat_alt)
  moreover have "written sink file f0 w0 (map (memory w0) (take (unat ?d) ?A)) f' w'"
    using written_trans [OF live0 _ data(4)] iov d le inv by (simp add: window_def take_add min_def)
  ultimately show ?thesis
    using d data(2,3) inv by (simp add: write_inv_def)
qed

lemma sync_write_loop_total:
  assumes laws: "writev_law k memory sink" "pwritev2_law k memory file" "write_progress k" "gsl_subspan ss"
    and cc: "completion_condition cond goal cap"
    and size: "length (seq_addrs b) < 2 ^ 64" and live0: "io_live f0"
    and "write_inv memory (written sink file) b cap f0 w0 f w d"
  shows "\<exists>out f' w'. sync_write_loop ss k cond b f w d = Some (Inr (out, f', w')) \<and> io_live f' \<and>
     memory w' = memory w0 \<and>
     (case out of
        Inl e \<Rightarrow> e = errno_ec k w'
      | Inr n \<Rightarrow> goal (buffer_size b) \<le> n \<and> n \<le> cap (buffer_size b)
               \<and> written sink file f0 w0 (map (memory w0) (take (unat n) (seq_addrs b))) f' w')"
  using assms(8)
proof (induction "unat (cap (buffer_size b)) - unat d" arbitrary: f w d rule: less_induct)
  case less
  let ?B = "buffer_size b"
  note inv = less.prems [unfolded write_inv_def]
  show ?case
  proof (cases "cond ?B d = 0")
    case True
    then have "goal ?B \<le> d"
      using completion_condition.stop_iff [OF cc] by simp
    with True inv show ?thesis
      by (subst sync_write_loop.simps) simp
  next
    case False
    note fits = io_window_fits [OF cc size False]
    obtain reserved iov where iov: "to_iovecs ss b d (cond ?B d) = Inr (reserved, iov)"
      "iov_addrs iov = window b d (cond ?B d)"
      using to_iovecs_window [OF laws(4) False] by metis
    have "iov_addrs iov \<noteq> []"
      using False fits(3) iov(2) by auto
    note sync_write_call_step [OF laws(1-3) conjunct1 [OF inv] this, of w]
    then show ?thesis
    proof (cases rule: write_step.cases)
      case (error w')
      then show ?thesis
        using False iov(1) inv by (subst sync_write_loop.simps) simp
    next
      case (data n f' w')
      let ?d = "d + word_of_int (int n) :: size_t"
      note next_inv = write_inv_data [OF cc size False live0 less.prems iov(2) data(3,5-7)]
      have loop: "sync_write_loop ss k cond b f w d = sync_write_loop ss k cond b f' w' ?d"
        using False iov(1) data(1,2,4) by (subst sync_write_loop.simps) simp
      have "unat ?d \<le> unat (cap ?B)"
        using next_inv by (simp add: write_inv_def word_le_nat_alt)
      then have "unat (cap ?B) - unat ?d < unat (cap ?B) - unat d"
        using next_inv data(2) by linarith
      then show ?thesis
        unfolding loop by (rule less.hyps) (use next_inv in blast)
    qed
  qed
qed

lemma sync_write_total:
  assumes "writev_law k memory sink" and "pwritev2_law k memory file" and "write_progress k"
    and "gsl_subspan ss" and "completion_condition cond goal cap"
    and "length (seq_addrs b) < 2 ^ 64" and "io_live f"
  shows "\<exists>out f' w'. sync_write ss k f b cond w = Some (Inr (out, f', w')) \<and> io_live f' \<and>
     memory w' = memory w \<and>
     (case out of
        Inl e \<Rightarrow> e = errno_ec k w'
      | Inr n \<Rightarrow> goal (buffer_size b) \<le> n \<and> n \<le> cap (buffer_size b)
               \<and> written sink file f w (map (memory w) (take (unat n) (seq_addrs b))) f' w')"
  unfolding sync_write_def by (rule sync_write_loop_total [OF assms write_inv_start [OF assms(7)]])

text \<open>
  C2. \<open>sync::write\<close> with a completion condition always returns, and without a failure, on an open
  object and a buffer sequence that fits the address space, if the kernel behaves as
  documented and a call with something to write never reports 0 bytes. Memory is unchanged.
  An error is the errno of the failing call. Otherwise the count lies between the goal and
  the cap of the condition, and the object has taken exactly that many bytes of the buffer
  sequence, in order: appended to the stream, or in the file from the old offset on.
\<close>

theorem sync_write_correct:
  assumes "writev_law k memory sink" and "pwritev2_law k memory file" and "write_progress k"
    and "gsl_subspan ss" and "completion_condition cond goal cap"
    and "length (seq_addrs b) < 2 ^ 64" and "io_live f"
  shows "\<exists>out f' w'. sync_write ss k f b cond w = Some (Inr (out, f', w')) \<and> io_live f' \<and>
     memory w' = memory w \<and>
     (case out of
        Inl e \<Rightarrow> e = errno_ec k w'
      | Inr n \<Rightarrow> goal (buffer_size b) \<le> n \<and> n \<le> cap (buffer_size b)
               \<and> written sink file f w (map (memory w) (take (unat n) (seq_addrs b))) f' w')"
  using assms by (rule sync_write_total)

theorem sync_write_correct_witness:
  "\<exists>out f' w'. sync_write plain_subspan demo_clinux (Seekable (seekable_fd_create 5))
        (Single \<lparr>b_data = 100, b_size = 7\<rparr>) (transfer_exactly_t 5) demo_start = Some (Inr (out, f', w')) \<and>
     io_live f' \<and> dw_mem w' = dw_mem demo_start \<and>
     (case out of
        Inl e \<Rightarrow> e = errno_ec demo_clinux w'
      | Inr n \<Rightarrow> min 5 (buffer_size (Single \<lparr>b_data = 100, b_size = 7\<rparr>)) \<le> n
               \<and> n \<le> min 5 (buffer_size (Single \<lparr>b_data = 100, b_size = 7\<rparr>))
               \<and> written (\<lambda>n w. dw_out w n) (\<lambda>n w. dw_file w n) (Seekable (seekable_fd_create 5)) demo_start
                   (map (dw_mem demo_start) (take (unat n) (seq_addrs (Single \<lparr>b_data = 100, b_size = 7\<rparr>)))) f' w')"
  by (rule sync_write_correct [OF demo_writev_law demo_pwritev2_law demo_write_progress gsl_subspan_plain
        transfer_exactly.completion_condition_axioms [of 5]])
     (simp_all add: seekable_fd_create_def off_t_in_range_def)

text \<open>
  C31. Unlike \<open>read\<close>, which takes 0 for end of file, \<open>write\<close> has no exit for a call that writes
  nothing: on a descriptor for which writev(2) keeps returning 0, \<open>sync::write\<close> of a
  non-empty buffer never returns.
\<close>

theorem sync_write_zero_diverges:
  assumes "\<And>n iov w. k_writev k n iov w = (0, w)" and "gsl_subspan ss"
    and "buffer_size b \<noteq> 0" and "base_ptr d \<noteq> None"
  shows "sync_write_all ss k (Nonseekable d) b w = None"
proof -
  obtain bb where bb: "base_ptr d = Some bb" using assms(4) by blast
  have go: "transfer_all_t (buffer_size b) 0 \<noteq> 0"
    using assms(3) by (simp add: transfer_all_t_def word_greater_zero_iff)
  obtain reserved iov where iov: "to_iovecs ss b 0 (transfer_all_t (buffer_size b) 0) = Inr (reserved, iov)"
    using to_iovecs_window [OF assms(2) go] by metis
  have "\<not> (ss' = ss \<and> k' = k \<and> cond = transfer_all_t \<and> b' = b \<and> f = Nonseekable d \<and> v = w \<and> dn = 0)"
    if "sync_write_loop ss' k' cond b' f v dn = Some r" for ss' k' cond b' f v dn r
    using that
    by (rule sync_write_loop.raw_induct [where P = "\<lambda>ss' k' cond b' f v dn r. \<not> (ss' = ss \<and> k' = k
          \<and> cond = transfer_all_t \<and> b' = b \<and> f = Nonseekable d \<and> v = w \<and> dn = 0)", rotated])
       (fastforce simp: iov go sync_write_call_def fd_get_def bb assms(1))
  then show ?thesis
    by (cases "sync_write_all ss k (Nonseekable d) b w") (fastforce simp: sync_write_all_def sync_write_def)+
qed

theorem sync_write_zero_diverges_witness:
  "sync_write_all plain_subspan (failing_clinux\<lparr>k_writev := (\<lambda>n iov w. (0, w))\<rparr>)
     (Nonseekable (fd_create 5)) (Single \<lparr>b_data = 100, b_size = 7\<rparr>) demo_start = None"
  by (rule sync_write_zero_diverges) (simp_all add: fd_create_def buffer_size_def)

end
