(* ===== verification/Ark_Async_IO.thy ===== *)
theory Ark_Async_IO
  imports Ark_Async Ark_Sync_IO
begin

text \<open>
  \<open>include/ark/io/async.hpp\<close>: \<open>read\<close> and \<open>write\<close> that return at once and invoke a callback when
  the transfer is complete.

  \<open>async_io_run\<close> submits the next system call, or completes the operation;
  \<open>async_io_go_on\<close> is the continuation the event loop invokes with its result. The system
  calls are performed by the kernel through the ring: \<open>perform\<close>. Their documented behaviour
  is that of the blocking calls, stated by the laws of \<open>Ark_Kernel\<close> for \<open>ring_calls\<close>.
\<close>

section \<open>The operation\<close>

definition async_io_submit ::
  "('w, 'z) clinux_scheme \<Rightarrow> 'w liburing \<Rightarrow> io_operation \<Rightarrow> int \<Rightarrow> iovec list \<Rightarrow> off_t \<Rightarrow> 'f closure
   \<Rightarrow> 'f closure uring_context \<Rightarrow> 'w \<Rightarrow> ('f, 'w) submit_outcome"
where
  "async_io_submit k lu kind fd iov off cb c w =
     (case kind of
        Read_op \<Rightarrow> async_syscall_readv k lu fd iov (of_nat (length iov)) off cb c w
      | Write_op \<Rightarrow> async_syscall_writev k lu fd iov (of_nat (length iov)) off cb c w)"

definition async_io_run ::
  "subspan_t \<Rightarrow> ('w, 'z) clinux_scheme \<Rightarrow> 'w liburing \<Rightarrow> ('f, 'x, 'w) final_callback \<Rightarrow> io_operation
   \<Rightarrow> ('f, io_locals) async_op \<Rightarrow> ('f, 'x, 'w) async_state \<Rightarrow> failure + ('f, 'x, 'w) async_state"
where
  "async_io_run ss k lu fin kind op st =
     (case st of (c, s, w) \<Rightarrow>
      case op_locals op of None \<Rightarrow> Inl Null_deref | Some l \<Rightarrow>
      case buffers_at s (l_b l) of Inl e \<Rightarrow> Inl e | Inr b \<Rightarrow>
      let to_transfer_max = l_cond l (buffer_size b) (l_done_sz l) in
      if to_transfer_max = 0 then op_complete fin op (Size_result (Inr (l_done_sz l))) st
      else case transform_to_iovecs ss (sequence_range b) (l_done_sz l) to_transfer_max [] of
        Inl e \<Rightarrow> Inl e
      | Inr iov \<Rightarrow>
          case fd_at s (l_f l) of Inl e \<Rightarrow> Inl e | Inr f \<Rightarrow>
          case io_get f of Inl e \<Rightarrow> Inl e | Inr f_get \<Rightarrow>
          case io_offset f of Inl e \<Rightarrow> Inl e | Inr off \<Rightarrow>
          case op_yield (Io_go_on kind) (op\<lparr>op_locals := Some (l\<lparr>l_iov := iov\<rparr>)\<rparr>) of (cb, op') \<Rightarrow>
          case async_io_submit k lu kind f_get iov off cb c w of
            Inl e \<Rightarrow> Inl e
          | Inr (Inl ec, c', w') \<Rightarrow> op_complete fin op' (Size_result (Inl ec)) (c', s, w')
          | Inr (Inr tok, c', w') \<Rightarrow> Inr (c', s, w'))"

definition async_io_go_on ::
  "subspan_t \<Rightarrow> ('w, 'z) clinux_scheme \<Rightarrow> 'w liburing \<Rightarrow> ('f, 'x, 'w) final_callback \<Rightarrow> io_operation
   \<Rightarrow> ('f, io_locals) async_op \<Rightarrow> int result \<Rightarrow> ('f, 'x, 'w) async_state \<Rightarrow> failure + ('f, 'x, 'w) async_state"
where
  "async_io_go_on ss k lu fin kind op ret st =
     (case ret of
        Inl ec \<Rightarrow> op_complete fin op (Size_result (Inl ec)) st
      | Inr v \<Rightarrow>
          (let ret_sz = word_of_int v :: size_t in
           case op_locals op of None \<Rightarrow> Inl Null_deref | Some l \<Rightarrow>
           if kind = Read_op \<and> ret_sz = 0 then op_complete fin op (Size_result (Inr (l_done_sz l))) st
           else case st of (c, s, w) \<Rightarrow>
             case feed_at s (l_f l) (sint ret_sz) of
               Inl e \<Rightarrow> Inl e
             | Inr s' \<Rightarrow>
                 async_io_run ss k lu fin kind
                   (op\<lparr>op_locals := Some (l\<lparr>l_done_sz := l_done_sz l + ret_sz\<rparr>)\<rparr>) (c, s', w)))"

definition async_io_start ::
  "subspan_t \<Rightarrow> ('w, 'z) clinux_scheme \<Rightarrow> 'w liburing \<Rightarrow> ('f, 'x, 'w) final_callback \<Rightarrow> io_operation
   \<Rightarrow> fd_ref \<Rightarrow> addr \<Rightarrow> completion_fun \<Rightarrow> 'f \<Rightarrow> ('f, 'x, 'w) async_state \<Rightarrow> failure + ('f, 'x, 'w) async_state"
where
  "async_io_start ss k lu fin kind f b cond cb st =
     (case st of (c, s, w) \<Rightarrow>
      case fd_at s f of Inl e \<Rightarrow> Inl e | Inr fd \<Rightarrow>
      case io_context fd of Inl e \<Rightarrow> Inl e | Inr ctx \<Rightarrow>
      async_io_run ss k lu fin kind
        (op_create ctx cb \<lparr>l_f = f, l_b = b, l_cond = cond, l_done_sz = 0, l_iov = []\<rparr>) st)"

definition async_read ::
  "subspan_t \<Rightarrow> ('w, 'z) clinux_scheme \<Rightarrow> 'w liburing \<Rightarrow> ('f, 'x, 'w) final_callback
   \<Rightarrow> fd_ref \<Rightarrow> addr \<Rightarrow> completion_fun \<Rightarrow> 'f \<Rightarrow> ('f, 'x, 'w) async_state \<Rightarrow> failure + ('f, 'x, 'w) async_state"
where
  "async_read ss k lu fin f b cond cb st = async_io_start ss k lu fin Read_op f b cond cb st"

definition async_read_all ::
  "subspan_t \<Rightarrow> ('w, 'z) clinux_scheme \<Rightarrow> 'w liburing \<Rightarrow> ('f, 'x, 'w) final_callback
   \<Rightarrow> fd_ref \<Rightarrow> addr \<Rightarrow> 'f \<Rightarrow> ('f, 'x, 'w) async_state \<Rightarrow> failure + ('f, 'x, 'w) async_state"
where
  "async_read_all ss k lu fin f b cb st = async_read ss k lu fin f b transfer_all_t cb st"

definition async_write ::
  "subspan_t \<Rightarrow> ('w, 'z) clinux_scheme \<Rightarrow> 'w liburing \<Rightarrow> ('f, 'x, 'w) final_callback
   \<Rightarrow> fd_ref \<Rightarrow> addr \<Rightarrow> completion_fun \<Rightarrow> 'f \<Rightarrow> ('f, 'x, 'w) async_state \<Rightarrow> failure + ('f, 'x, 'w) async_state"
where
  "async_write ss k lu fin f b cond cb st = async_io_start ss k lu fin Write_op f b cond cb st"

definition async_write_all ::
  "subspan_t \<Rightarrow> ('w, 'z) clinux_scheme \<Rightarrow> 'w liburing \<Rightarrow> ('f, 'x, 'w) final_callback
   \<Rightarrow> fd_ref \<Rightarrow> addr \<Rightarrow> 'f \<Rightarrow> ('f, 'x, 'w) async_state \<Rightarrow> failure + ('f, 'x, 'w) async_state"
where
  "async_write_all ss k lu fin f b cb st = async_write ss k lu fin f b transfer_all_t cb st"

section \<open>The calls the ring performs\<close>

definition io_sqe :: "io_operation \<Rightarrow> int \<Rightarrow> iovec list \<Rightarrow> off_t \<Rightarrow> sqe_op" where
  "io_sqe kind n iov off =
     (case kind of
        Read_op \<Rightarrow> Prep_readv n iov (of_nat (length iov)) off
      | Write_op \<Rightarrow> Prep_writev n iov (of_nat (length iov)) off)"

definition io_call :: "io_operation \<Rightarrow> sqe_op \<Rightarrow> bool" where
  "io_call kind sqe \<longleftrightarrow> (\<exists>n iov off. sqe = io_sqe kind n iov off)"

lemma io_call_sqe: "io_call kind (io_sqe kind n iov off)"
  unfolding io_call_def by blast

text \<open>
  io_uring_prep_readv(3) and io_uring_prep_writev(3): on a descriptor that is not seekable a
  request with offset 0 acts like readv(2) or writev(2), on a seekable one like preadv2(2) or
  pwritev2(2) at its offset. \<open>ring_calls\<close> is the kernel with the four calls performed through
  the ring; \<open>sk\<close> tells the seekable descriptors. The result is a 32-bit integer, the
  negated error number if it is negative.
\<close>

definition as_syscall :: "int \<times> 'w \<Rightarrow> ssize_t \<times> 'w" where
  "as_syscall x = (if fst x < 0 then - 1 else fst x, snd x)"

definition ring_calls ::
  "(int \<Rightarrow> bool) \<Rightarrow> (sqe_op \<Rightarrow> 'w \<Rightarrow> int \<times> 'w) \<Rightarrow> ('w, 'z) clinux_scheme \<Rightarrow> ('w, 'z) clinux_scheme"
where
  "ring_calls sk perform k =
     k\<lparr>k_readv := (\<lambda>n iov w. if sk n then (- 1, w) else as_syscall (perform (io_sqe Read_op n iov 0) w)),
       k_writev := (\<lambda>n iov w. if sk n then (- 1, w) else as_syscall (perform (io_sqe Write_op n iov 0) w)),
       k_preadv2 := (\<lambda>n iov off flags w. if sk n then as_syscall (perform (io_sqe Read_op n iov off) w) else (- 1, w)),
       k_pwritev2 := (\<lambda>n iov off flags w. if sk n then as_syscall (perform (io_sqe Write_op n iov off) w) else (- 1, w))\<rparr>"

definition cqe_res_range :: "(sqe_op \<Rightarrow> 'w \<Rightarrow> int \<times> 'w) \<Rightarrow> bool" where
  "cqe_res_range perform \<longleftrightarrow> (\<forall>sqe w. - (2 ^ 31) \<le> fst (perform sqe w) \<and> fst (perform sqe w) < 2 ^ 31)"

text \<open>The class of the io object fits its descriptor.\<close>

definition kind_fits :: "(int \<Rightarrow> bool) \<Rightarrow> io_fd \<Rightarrow> bool" where
  "kind_fits sk f \<longleftrightarrow>
     (case f of
        Nonseekable d \<Rightarrow> (\<forall>b. base_ptr d = Some b \<longrightarrow> \<not> sk (fildes b))
      | Seekable s \<Rightarrow> (\<forall>b. sbase_ptr s = Some b \<longrightarrow> sk (fildes b)))"

lemma io_live_fildes:
  assumes "io_live f"
  obtains n off where "io_get f = Inr n" "io_offset f = Inr off"
  using assms by (cases f) (auto simp: fd_get_def seekable_get_def seekable_offset_def)

lemma ring_call:
  assumes "io_live f" "kind_fits sk f" "io_get f = Inr n" "io_offset f = Inr off"
  shows "sync_read_call (ring_calls sk perform k) f iov w = Inr (as_syscall (perform (io_sqe Read_op n iov off) w))"
    and "sync_write_call (ring_calls sk perform k) f iov w = Inr (as_syscall (perform (io_sqe Write_op n iov off) w))"
  using assms
  by (cases f; auto simp: sync_read_call_def sync_write_call_def ring_calls_def kind_fits_def fd_get_def
      seekable_get_def seekable_offset_def split: option.splits)+

lemma kind_fits_feed: "io_feed f n = Inr f' \<Longrightarrow> kind_fits sk f' = kind_fits sk f"
  by (cases f) (auto simp: kind_fits_def seekable_feed_def split: option.splits sum.splits if_splits)

lemma feed_at_io_feed:
  assumes "fd_at s fr = Inr f" "io_feed f n = Inr f'"
  obtains s' where "feed_at s fr n = Inr s'" "fd_at s' fr = Inr f'" "buffers_at s' = buffers_at s"
  using assms that
  by (cases fr) (auto simp: buffers_at_def fun_eq_iff split: option.splits sum.splits)

text \<open>What the operation does to the objects.\<close>

definition feeds :: "fd_ref \<Rightarrow> 'x io_store_scheme \<Rightarrow> 'x io_store_scheme \<Rightarrow> bool" where
  "feeds fr = (\<lambda>s s'. \<exists>n. feed_at s fr n = Inr s')\<^sup>*\<^sup>*"

lemma feeds_refl: "feeds fr s s"
  by (simp add: feeds_def)

lemma feeds_feed: "feed_at s fr n = Inr s' \<Longrightarrow> feeds fr s' s'' \<Longrightarrow> feeds fr s s''"
  unfolding feeds_def by (rule converse_rtranclp_into_rtranclp) blast

lemma feeds_part:
  assumes "feeds fr s s'" and "\<And>s s' n. feed_at s fr n = Inr s' \<Longrightarrow> part s' = part s"
  shows "part s' = part s"
  using assms(1) unfolding feeds_def by (induction rule: rtranclp_induct) (use assms(2) in auto)

section \<open>One turn of the operation\<close>

text \<open>What the environment leaves alone while the operation is suspended.\<close>

definition keeps :: "fd_ref \<Rightarrow> addr \<Rightarrow> 'x io_store_scheme \<Rightarrow> 'x io_store_scheme \<Rightarrow> bool" where
  "keeps fr br s s2 \<longleftrightarrow> fd_at s2 fr = fd_at s fr \<and> buffers_at s2 br = buffers_at s br"

definition io_op :: "nat \<Rightarrow> 'f \<Rightarrow> fd_ref \<Rightarrow> addr \<Rightarrow> completion_fun \<Rightarrow> size_t \<Rightarrow> iovec list \<Rightarrow> ('f, io_locals) async_op" where
  "io_op ctx cb fr br cond d iov =
     op_create ctx cb \<lparr>l_f = fr, l_b = br, l_cond = cond, l_done_sz = d, l_iov = iov\<rparr>"

lemma io_op_create:
  "op_create ctx cb \<lparr>l_f = fr, l_b = br, l_cond = cond, l_done_sz = d, l_iov = iov\<rparr> = io_op ctx cb fr br cond d iov"
  by (simp add: io_op_def)

lemma async_start:
  assumes "fd_at s fr = Inr f" "io_context f = Inr ctx"
  shows "async_read ss k lu fin fr br cond cb (c, s, w) = async_io_run ss k lu fin Read_op (io_op ctx cb fr br cond 0 []) (c, s, w)"
    and "async_write ss k lu fin fr br cond cb (c, s, w) = async_io_run ss k lu fin Write_op (io_op ctx cb fr br cond 0 []) (c, s, w)"
  using assms by (simp_all add: async_read_def async_write_def async_io_start_def io_op_create)

lemma async_io_run_done:
  assumes "buffers_at s br = Inr b" "cond (buffer_size b) d = 0"
  shows "async_io_run ss k lu fin kind (io_op ctx cb fr br cond d iov) (c, s, w) =
    fin cb (Size_result (Inr d)) (c, s, w)"
  using assms by (simp add: async_io_run_def io_op_def op_create_def op_complete_def call_callback_def)

lemma async_io_run_submits_iov:
  assumes "to_iovecs ss b d (cond (buffer_size b) d) = Inr (reserved, iov)" "fd_at s fr = Inr f" "io_get f = Inr n" "io_offset f = Inr off"
    and "buffers_at s br = Inr b" "cond (buffer_size b) d \<noteq> 0"
    and "submission_ok k lu ev view" "context_ready ev c"
  obtains w1 where "submits k lu (io_sqe kind n iov off) c w w1" and "view w1 = view w"
    and "\<And>fin. async_io_run ss k lu fin kind (io_op ctx cb fr br cond d iov0) (c, s, w) =
      Inr (registered c (User_cb (Io_go_on kind (io_op ctx cb fr br cond d iov))), s, w1)"
proof -
  have transform: "transform_to_iovecs ss (sequence_range b) d (cond (buffer_size b) d) [] = Inr iov"
    using assms(1) by (simp add: to_iovecs_def split: sum.splits)
  let ?cl = "User_cb (Io_go_on kind (io_op ctx cb fr br cond d iov))"
  obtain w1 where w1: "add_sqe_cb k lu (io_sqe kind n iov off) ?cl c w = Inr (Inr (callbacks_idx c), registered c ?cl, w1)"
    "submits k lu (io_sqe kind n iov off) c w w1" "view w1 = view w"
    using submission_okE [OF assms(7,8)] by metis
  have "async_io_submit k lu kind n iov off (Io_go_on kind (io_op ctx cb fr br cond d iov)) c w =
      add_sqe_cb k lu (io_sqe kind n iov off) ?cl c w"
    by (cases kind) (simp_all add: async_io_submit_def async_syscall_readv_def async_syscall_writev_def io_sqe_def)
  then have "async_io_run ss k lu fin kind (io_op ctx cb fr br cond d iov0) (c, s, w) =
      Inr (registered c ?cl, s, w1)" for fin
    using assms(2-6) transform w1(1)
    by (simp add: async_io_run_def io_op_def op_create_def op_yield_def)
  with w1(2,3) that show ?thesis by blast
qed

lemma async_io_run_submits:
  assumes "gsl_subspan ss" "fd_at s fr = Inr f" "io_get f = Inr n" "io_offset f = Inr off"
    and "buffers_at s br = Inr b" "cond (buffer_size b) d \<noteq> 0"
    and "submission_ok k lu ev view" "context_ready ev c"
  obtains iov w1 where "iov_addrs iov = window b d (cond (buffer_size b) d)"
    and "submits k lu (io_sqe kind n iov off) c w w1" and "view w1 = view w"
    and "\<And>fin. async_io_run ss k lu fin kind (io_op ctx cb fr br cond d iov0) (c, s, w) =
      Inr (registered c (User_cb (Io_go_on kind (io_op ctx cb fr br cond d iov))), s, w1)"
proof -
  obtain reserved iov where iov: "to_iovecs ss b d (cond (buffer_size b) d) = Inr (reserved, iov)"
    "iov_addrs iov = window b d (cond (buffer_size b) d)"
    using to_iovecs_window [OF assms(1,6)] by metis
  show ?thesis
    by (rule async_io_run_submits_iov [where cond = cond and d = d, OF iov(1) assms(2-8)]) (rule that [OF iov(2)])
qed

lemma async_io_go_on_error:
  "res < 0 \<Longrightarrow> async_io_go_on ss k lu fin kind (io_op ctx cb fr br cond d iov) (result_of_res res) st =
     fin cb (Size_result (Inl \<lparr>ec_value = - res, ec_category = System_category\<rparr>)) st"
  by (simp add: async_io_go_on_def result_of_res_def io_op_def op_create_def op_complete_def call_callback_def)

lemma async_io_go_on_eof:
  "async_io_go_on ss k lu fin Read_op (io_op ctx cb fr br cond d iov) (result_of_res 0) st =
     fin cb (Size_result (Inr d)) st"
  by (simp add: async_io_go_on_def result_of_res_def io_op_def op_create_def op_complete_def call_callback_def)

lemma sint_count: "0 \<le> r \<Longrightarrow> r < 2 ^ 31 \<Longrightarrow> sint (word_of_int r :: size_t) = r"
  by (simp add: sint_sbintrunc' signed_take_bit_int_eq_self)

lemma async_io_go_on_data:
  assumes "0 < n \<or> kind = Write_op" "int n < 2 ^ 31" "feed_at s fr (int n) = Inr s'"
  shows "async_io_go_on ss k lu fin kind (io_op ctx cb fr br cond d iov) (result_of_res (int n)) (c, s, w) =
    async_io_run ss k lu fin kind (io_op ctx cb fr br cond (d + word_of_int (int n)) iov) (c, s', w)"
proof -
  have "(word_of_int (int n) :: size_t) \<noteq> 0 \<or> kind = Write_op"
    using sint_count [of "int n"] assms(1,2) by auto
  then show ?thesis
    using assms sint_count [of "int n"]
    by (auto simp: async_io_go_on_def result_of_res_def io_op_def op_create_def Let_def)
qed

text \<open>
  The loop of an operation, for both kinds: \<open>Inv\<close> holds whenever it is about to submit, and \<open>resume\<close> says what one
  performed call does, given the rest of the operation.
\<close>

lemma async_io_total:
  fixes cb :: 'f and s :: "'x io_store_scheme"
  assumes laws: "gsl_subspan ss" "submission_ok k lu ev view"
    and inv: "\<And>f w d. Inv f w d \<Longrightarrow> io_live f \<and> unat d \<le> bound" "\<And>f v w d. view v = view w \<Longrightarrow> Inv f v d = Inv f w d"
    and stop: "\<And>c (s :: 'x io_store_scheme) f w d. \<lbrakk>Inv f w d; fd_at s fr = Inr f; cond (buffer_size b) d = 0\<rbrakk> \<Longrightarrow> post cb (Size_result (Inr d)) (c, s, w)"
    and resume: "\<And>c2 (s2 :: 'x io_store_scheme) f n off iov d v res v' w2.
      \<lbrakk>context_ready ev c2; fd_at s2 fr = Inr f; buffers_at s2 br = Inr b; kind_fits sk f; io_get f = Inr n; io_offset f = Inr off; Inv f v d;
        cond (buffer_size b) d \<noteq> 0; iov_addrs iov = window b d (cond (buffer_size b) d);
        perform (io_sqe kind n iov off) v = (res, v'); view w2 = view v';
        \<And>(s3 :: 'x io_store_scheme) f' d'. \<lbrakk>unat d < unat d'; io_feed f (int (unat d' - unat d)) = Inr f'; fd_at s3 fr = Inr f'; buffers_at s3 br = Inr b;
            Inv f' w2 d'\<rbrakk>
          \<Longrightarrow> completes_with k lu ev perform (io_call kind) view call (feeds fr) (keeps fr br) post
                (\<lambda>fin. async_io_run ss k lu fin kind (io_op ctx cb fr br cond d' iov)) (c2, s3, w2)\<rbrakk>
      \<Longrightarrow> completes_with k lu ev perform (io_call kind) view call (feeds fr) (keeps fr br) post
            (\<lambda>fin. call fin (Io_go_on kind (io_op ctx cb fr br cond d iov)) (result_of_res res)) (c2, s2, w2)"
    and "context_ready ev c" "fd_at s fr = Inr f" "buffers_at s br = Inr b" "kind_fits sk f" "Inv f w d"
  shows "completes_with k lu ev perform (io_call kind) view call (feeds fr) (keeps fr br) post
    (\<lambda>fin. async_io_run ss k lu fin kind (io_op ctx cb fr br cond d iov0)) (c, s, w)"
  using assms(7-)
proof (induction "bound - unat d" arbitrary: c s f w d iov0 rule: less_induct)
  case less
  let ?B = "buffer_size b"
  show ?case
  proof (cases "cond ?B d = 0")
    case True
    show ?thesis
      using async_io_run_done [where cond = cond, OF less.prems(3) True] stop [OF less.prems(5,2) True]
      by (intro completes_with.finished [OF _ feeds_refl])
  next
    case False
    from less.prems(5) have "io_live f" using inv(1) by blast
    then obtain n off where n: "io_get f = Inr n" "io_offset f = Inr off" by (rule io_live_fildes)
    obtain iov w1 where iov: "iov_addrs iov = window b d (cond ?B d)"
      and sub: "submits k lu (io_sqe kind n iov off) c w w1" "view w1 = view w"
      and run: "\<And>fin. async_io_run ss k lu fin kind (io_op ctx cb fr br cond d iov0) (c, s, w) =
        Inr (registered c (User_cb (Io_go_on kind (io_op ctx cb fr br cond d iov))), s, w1)"
      by (rule async_io_run_submits [where cond = cond and d = d and kind = kind and w = w
            and ctx = ctx and cb = cb and ?iov0.0 = iov0, OF laws(1) less.prems(2) n less.prems(3) False laws(2) less.prems(1)])
         (rule that)
    show ?thesis
    proof (rule completes_with.suspended, rule run, rule feeds_refl, rule io_call_sqe, rule sub(1))
      fix c2 :: "'f closure uring_context" and s2 v res v' w2
      assume env: "context_ready ev c2" "keeps fr br s s2" "view v = view w1"
        "perform (io_sqe kind n iov off) v = (res, v')" "view w2 = view v'"
      show "completes_with k lu ev perform (io_call kind) view call (feeds fr) (keeps fr br) post
          (\<lambda>fin. call fin (Io_go_on kind (io_op ctx cb fr br cond d iov)) (result_of_res res)) (c2, s2, w2)"
      proof (rule resume [OF env(1) _ _ less.prems(4) n _ False iov env(4,5)])
        show "fd_at s2 fr = Inr f" "buffers_at s2 br = Inr b" using env(2) less.prems(2,3) by (simp_all add: keeps_def)
        show "Inv f v d" using inv(2) [of v w f d] env(3) sub(2) less.prems(5) by simp
        fix s3 :: "'x io_store_scheme" and f' d'
        assume d': "unat d < unat d'" "io_feed f (int (unat d' - unat d)) = Inr f'" "fd_at s3 fr = Inr f'" "buffers_at s3 br = Inr b" "Inv f' w2 d'"
        have "bound - unat d' < bound - unat d" using d'(1) inv(1) [OF d'(5)] by linarith
        then show "completes_with k lu ev perform (io_call kind) view call (feeds fr) (keeps fr br) post
            (\<lambda>fin. async_io_run ss k lu fin kind (io_op ctx cb fr br cond d' iov)) (c2, s3, w2)"
          using less.hyps [OF _ env(1) d'(3,4) _ d'(5)] kind_fits_feed [OF d'(2)] less.prems(4) by blast
      qed
    qed
  qed
qed

section \<open>Reading\<close>

text \<open>
  The part of the world that a transfer on the descriptor \<open>n\<close> is about: the memory at the addresses \<open>A\<close>, and what is
  behind the descriptor. \<open>io_view\<close> is all of memory and everything behind all descriptors.
\<close>

definition io_part ::
  "addr set \<Rightarrow> ('w \<Rightarrow> mem) \<Rightarrow> (int \<Rightarrow> 'w \<Rightarrow> byte list) \<Rightarrow> (int \<Rightarrow> 'w \<Rightarrow> byte list) \<Rightarrow> int \<Rightarrow> 'w \<Rightarrow> mem \<times> byte list \<times> byte list"
where
  "io_part A memory stream file n w = (mem_on A (memory w), stream n w, file n w)"

definition io_view ::
  "('w \<Rightarrow> mem) \<Rightarrow> (int \<Rightarrow> 'w \<Rightarrow> byte list) \<Rightarrow> (int \<Rightarrow> 'w \<Rightarrow> byte list) \<Rightarrow> 'w \<Rightarrow> mem \<times> (int \<Rightarrow> byte list) \<times> (int \<Rightarrow> byte list)"
where
  "io_view memory stream file w = (memory w, \<lambda>n. stream n w, \<lambda>n. file n w)"

lemma io_view_part:
  assumes "io_view memory stream file v = io_view memory stream file w"
  shows "io_part A memory stream file n v = io_part A memory stream file n w"
  using assms by (simp add: io_view_def io_part_def fun_eq_iff [of "\<lambda>n. stream n v"] fun_eq_iff [of "\<lambda>n. file n v"])

lemma io_part_pending:
  assumes "io_part A memory stream file n v = io_part A memory stream file n w" and "io_get f = Inr n"
  shows "mem_on A (memory v) = mem_on A (memory w)" "pending stream file f v = pending stream file f w"
  using assms
  by (auto simp: io_part_def pending_def fd_get_def seekable_get_def split: io_fd.splits option.splits)

lemma io_feed_get: "io_feed f d = Inr f' \<Longrightarrow> io_get f' = io_get f"
  by (cases f) (auto simp: seekable_feed_def seekable_get_def split: option.splits sum.splits if_splits)

lemma read_inv_get: "read_inv mem pend b cap f0 M P f w d \<Longrightarrow> io_get f = io_get f0"
  unfolding read_inv_def using io_feed_get by blast

lemma io_part_read_inv:
  assumes "io_part A memory stream file n v = io_part A memory stream file n w" and "io_get f0 = Inr n"
  shows "read_inv (\<lambda>w. mem_on A (memory w)) (pending stream file) b cap f0 M P f v d =
    read_inv (\<lambda>w. mem_on A (memory w)) (pending stream file) b cap f0 M P f w d"
  using io_part_pending [OF assms(1)] io_feed_get [of f0 _ f] assms(2) unfolding read_inv_def by metis

text \<open>An error that the kernel reported for one of the calls of a transfer on \<open>n\<close>.\<close>

definition ring_error :: "(sqe_op \<Rightarrow> 'w \<Rightarrow> int \<times> 'w) \<Rightarrow> io_operation \<Rightarrow> int \<Rightarrow> error_code \<Rightarrow> bool" where
  "ring_error perform kind n e \<longleftrightarrow>
     ec_category e = System_category \<and> 0 < ec_value e \<and> (\<exists>iov off v. fst (perform (io_sqe kind n iov off) v) = - ec_value e)"

definition system_error :: "error_code \<Rightarrow> bool" where
  "system_error e \<longleftrightarrow> is_error e \<and> ec_category e = System_category"

lemma ring_error_system: "ring_error perform kind n e \<Longrightarrow> system_error e"
  by (simp add: ring_error_def system_error_def is_error_def)

lemma ring_errorI:
  "res < 0 \<Longrightarrow> perform (io_sqe kind n iov off) v = (res, v') \<Longrightarrow> ring_error perform kind n \<lparr>ec_value = - res, ec_category = System_category\<rparr>"
  unfolding ring_error_def by (auto intro!: exI [of _ iov] exI [of _ off] exI [of _ v])

definition async_read_post ::
  "(error_code \<Rightarrow> bool) \<Rightarrow> ('w \<Rightarrow> mem) \<Rightarrow> (io_fd \<Rightarrow> 'w \<Rightarrow> byte list) \<Rightarrow> (size_t \<Rightarrow> size_t) \<Rightarrow> (size_t \<Rightarrow> size_t) \<Rightarrow> fd_ref \<Rightarrow> buffer_sequence
   \<Rightarrow> 'f \<Rightarrow> io_fd \<Rightarrow> mem \<Rightarrow> byte list \<Rightarrow> 'f \<Rightarrow> completion \<Rightarrow> ('f, 'x, 'w) async_state \<Rightarrow> bool"
where
  "async_read_post err memory pend goal cap fr b cb f0 M P cb' r st \<longleftrightarrow>
     cb' = cb \<and>
     (\<exists>out f' m. r = Size_result out \<and> fd_at (fst (snd st)) fr = Inr f' \<and> io_live f' \<and>
        io_feed f0 (int m) = Inr f' \<and> m \<le> unat (cap (buffer_size b)) \<and>
        (case out of
           Inl e \<Rightarrow> err e
         | Inr n \<Rightarrow> m = unat n \<and> read_result goal cap (buffer_size b) P m \<and>
             pend f' (snd (snd st)) = drop m P \<and>
             memory (snd (snd st)) = received M (seq_addrs b) P m))"

lemma async_read_post_mono:
  "async_read_post err memory pend goal cap fr b cb f0 M P cb' r st \<Longrightarrow> (\<And>e. err e \<Longrightarrow> err' e)
   \<Longrightarrow> async_read_post err' memory pend goal cap fr b cb f0 M P cb' r st"
  unfolding async_read_post_def by (elim conjE exE, intro conjI exI) (auto split: sum.splits)

lemma async_read_post_done:
  assumes "read_inv memory pend b cap f0 M P f w d" "fd_at s fr = Inr f"
    and "goal (buffer_size b) \<le> d \<or> pend f w = []"
  shows "async_read_post err memory pend goal cap fr b cb f0 M P cb (Size_result (Inr d)) (c, s, w)"
proof -
  have "unat (goal (buffer_size b)) \<le> unat d \<or> unat d = length P"
    using assms(1,3) by (auto simp: read_inv_def word_le_nat_alt)
  with assms(1,2) show ?thesis
    by (simp add: async_read_post_def read_inv_def read_result_def word_le_nat_alt)
qed

lemma async_read_post_error:
  assumes "read_inv memory pend b cap f0 M P f w d" "fd_at s fr = Inr f" "err \<lparr>ec_value = - res, ec_category = System_category\<rparr>"
  shows "async_read_post err memory pend goal cap fr b cb f0 M P cb
    (Size_result (Inl \<lparr>ec_value = - res, ec_category = System_category\<rparr>)) (c, s, w')"
proof -
  have "unat d \<le> unat (cap (buffer_size b))" "io_live f" "io_feed f0 (int (unat d)) = Inr f"
    using assms(1) by (simp_all add: read_inv_def word_le_nat_alt)
  with assms(2,3) show ?thesis
    by (auto simp: async_read_post_def intro!: exI [of _ "unat d"])
qed

text \<open>The continuation of a read whose call has been performed, given the rest of the operation.\<close>

lemma async_read_resume:
  fixes cb :: 'f
  assumes cc: "completion_condition cond goal cap" "length (seq_addrs b) < 2 ^ 64" "cond (buffer_size b) d \<noteq> 0"
    and live0: "io_live f0"
    and call: "\<And>fin op r st. call fin (Io_go_on Read_op op) r st = async_io_go_on ss k lu fin Read_op op r st"
    and s2: "fd_at s2 fr = Inr f" "buffers_at s2 br = Inr b"
    and inv: "read_inv (\<lambda>w. mem_on A (memory w)) (pending stream file) b cap f0 M P f v d"
    and iov: "iov_addrs iov = window b d (cond (buffer_size b) d)" and range: "res < 2 ^ 31"
    and step: "read_step (\<lambda>w. mem_on A (memory w)) (pending stream file) f iov v (Inr (if res < 0 then - 1 else res, v'))"
    and view: "io_part A memory stream file n w2 = io_part A memory stream file n v'" and get: "io_get f0 = Inr n"
    and failed: "res < 0 \<Longrightarrow> err \<lparr>ec_value = - res, ec_category = System_category\<rparr>"
    and rest: "\<And>s3 f' d'. \<lbrakk>unat d < unat d'; io_feed f (int (unat d' - unat d)) = Inr f';
        fd_at s3 fr = Inr f'; buffers_at s3 br = Inr b;
        read_inv (\<lambda>w. mem_on A (memory w)) (pending stream file) b cap f0 M P f' w2 d'\<rbrakk>
      \<Longrightarrow> completes_with k lu ev perform calls V call (feeds fr) R (async_read_post err (\<lambda>w. mem_on A (memory w)) (pending stream file) goal cap fr b cb f0 M P)
            (\<lambda>fin. async_io_run ss k lu fin Read_op (io_op ctx cb fr br cond d' iov)) (c2, s3, w2)"
  shows "completes_with k lu ev perform calls V call (feeds fr) R (async_read_post err (\<lambda>w. mem_on A (memory w)) (pending stream file) goal cap fr b cb f0 M P)
    (\<lambda>fin. call fin (Io_go_on Read_op (io_op ctx cb fr br cond d iov)) (result_of_res res)) (c2, s2, w2)"
    (is "completes_with _ _ _ _ _ _ _ _ _ ?post _ _")
  using step
proof (cases rule: read_step.cases)
  case error
  then have "res < 0" by (simp split: if_splits)
  then have "?post cb (Size_result (Inl \<lparr>ec_value = - res, ec_category = System_category\<rparr>)) (c2, s2, w2)"
    by (intro async_read_post_error [OF inv s2(1)] failed)
  then show ?thesis
    unfolding call using async_io_go_on_error [OF \<open>res < 0\<close>] by (intro completes_with.finished [OF _ feeds_refl])
next
  case eof
  then have "res = 0" by (simp split: if_splits)
  have here: "io_get f = Inr n" using read_inv_get [OF inv] get by simp
  have "read_inv (\<lambda>w. mem_on A (memory w)) (pending stream file) b cap f0 M P f w2 d" "pending stream file f w2 = []"
    using inv eof io_part_pending [OF view here] by (simp_all add: read_inv_def)
  then have "?post cb (Size_result (Inr d)) (c2, s2, w2)"
    using s2(1) by (blast intro: async_read_post_done)
  then show ?thesis
    unfolding call \<open>res = 0\<close> using async_io_go_on_eof by (intro completes_with.finished [OF _ feeds_refl])
next
  case (data bs f')
  then have res: "res = int (length bs)" by (auto split: if_splits)
  let ?d = "d + word_of_int (int (length bs)) :: size_t"
  have d: "unat ?d = unat d + length bs" and next_inv: "read_inv (\<lambda>w. mem_on A (memory w)) (pending stream file) b cap f0 M P f' w2 ?d"
    using read_inv_data [OF cc live0 inv iov data(3-6)] io_part_read_inv [OF view get] by metis+
  obtain s3 where s3: "feed_at s2 fr (int (length bs)) = Inr s3" "fd_at s3 fr = Inr f'" "buffers_at s3 br = Inr b"
    using feed_at_io_feed [OF s2(1) data(3)] s2(2) by metis
  have ih: "completes_with k lu ev perform calls V call (feeds fr) R ?post
      (\<lambda>fin. async_io_run ss k lu fin Read_op (io_op ctx cb fr br cond ?d iov)) (c2, s3, w2)"
    by (rule rest [OF _ _ s3(2,3) next_inv]) (use d data(2,3) in simp_all)
  show ?thesis
    unfolding call res
    by (rule completes_with_cong [OF ih], rule async_io_go_on_data) (use data(2) range res s3(1) feeds_feed in auto)
qed

lemma async_read_total:
  fixes cb :: 'f and s :: "'x io_store_scheme"
  assumes laws: "readv_law (ring_calls sk perform k) memory stream"
      "preadv2_law (ring_calls sk perform k) memory file" "cqe_res_range perform" "gsl_subspan ss"
    and cc: "completion_condition cond goal cap" and size: "length (seq_addrs b) < 2 ^ 64"
    and live0: "io_live f0" "io_get f0 = Inr n" and A: "set (seq_addrs b) \<subseteq> A"
    and ok: "submission_ok k lu ev (io_part A memory stream file n)"
    and call: "\<And>fin op r st. call fin (Io_go_on Read_op op) r st = async_io_go_on ss k lu fin Read_op op r st"
    and st: "context_ready ev c" "fd_at s fr = Inr f" "buffers_at s br = Inr b" "kind_fits sk f"
      "read_inv (\<lambda>w. mem_on A (memory w)) (pending stream file) b cap f0 M P f w d"
  shows "completes_with k lu ev perform (io_call Read_op) (io_part A memory stream file n) call (feeds fr) (keeps fr br)
    (async_read_post (ring_error perform Read_op n) (\<lambda>w. mem_on A (memory w)) (pending stream file) goal cap fr b cb f0 M P)
    (\<lambda>fin. async_io_run ss k lu fin Read_op (io_op ctx cb fr br cond d iov0)) (c, s, w)"
proof (rule async_io_total [where Inv = "read_inv (\<lambda>w. mem_on A (memory w)) (pending stream file) b cap f0 M P", OF laws(4) ok _ _ _ _ st])
  let ?inv = "read_inv (\<lambda>w. mem_on A (memory w)) (pending stream file) b cap f0 M P"
  show "io_live f \<and> unat d \<le> unat (cap (buffer_size b))" if "?inv f w d" for f w d
    using that by (simp add: read_inv_def word_le_nat_alt)
  show "?inv f v d = ?inv f w d" if "io_part A memory stream file n v = io_part A memory stream file n w" for f v w d
    using that live0(2) by (rule io_part_read_inv)
  show "async_read_post (ring_error perform Read_op n) (\<lambda>w. mem_on A (memory w)) (pending stream file) goal cap fr b cb f0 M P cb (Size_result (Inr d)) (c, s, w)"
    if "?inv f w d" "fd_at s fr = Inr f" "cond (buffer_size b) d = 0" for c and s :: "'x io_store_scheme" and f w d
    using that completion_condition.stop_iff [OF cc] by (intro async_read_post_done) auto
  fix c2 :: "'f closure uring_context" and s2 :: "'x io_store_scheme" and f m off iov d v res v' w2
  assume turn: "context_ready ev c2" "fd_at s2 fr = Inr f" "buffers_at s2 br = Inr b" "kind_fits sk f" "io_get f = Inr m" "io_offset f = Inr off"
    "?inv f v d" "cond (buffer_size b) d \<noteq> 0" "iov_addrs iov = window b d (cond (buffer_size b) d)"
    "perform (io_sqe Read_op m iov off) v = (res, v')" "io_part A memory stream file n w2 = io_part A memory stream file n v'"
  have live: "io_live f" using turn(7) by (simp add: read_inv_def)
  have ne: "iov_addrs iov \<noteq> []" using io_window_fits(3) [OF cc size turn(8)] turn(8,9) by auto
  have inside: "set (iov_addrs iov) \<subseteq> A"
    using A turn(9) set_take_subset set_drop_subset unfolding window_def by (metis subset_trans)
  have range: "res < 2 ^ 31" using laws(3) turn(10) unfolding cqe_res_range_def by (metis fst_conv)
  have step: "read_step (\<lambda>w. mem_on A (memory w)) (pending stream file) f iov v (Inr (if res < 0 then - 1 else res, v'))"
    using read_step_on [OF sync_read_call_step [OF laws(1,2) live ne, of v] inside]
    unfolding ring_call(1) [OF live turn(4-6)] turn(10) by (simp add: as_syscall_def split: if_splits)
  have "m = n" using read_inv_get [OF turn(7)] turn(5) live0(2) by simp
  then have ringerr: "ring_error perform Read_op n \<lparr>ec_value = - res, ec_category = System_category\<rparr>" if "res < 0"
    using ring_errorI [where perform = perform, OF that turn(10)] by simp
  note resume = async_read_resume [OF cc size turn(8) live0(1) call turn(2,3,7,9) range step turn(11) live0(2)]
  assume rest: "\<And>(s3 :: 'x io_store_scheme) f' d'. \<lbrakk>unat d < unat d'; io_feed f (int (unat d' - unat d)) = Inr f'; fd_at s3 fr = Inr f';
      buffers_at s3 br = Inr b; ?inv f' w2 d'\<rbrakk>
    \<Longrightarrow> completes_with k lu ev perform (io_call Read_op) (io_part A memory stream file n) call (feeds fr) (keeps fr br)
          (async_read_post (ring_error perform Read_op n) (\<lambda>w. mem_on A (memory w)) (pending stream file) goal cap fr b cb f0 M P)
          (\<lambda>fin. async_io_run ss k lu fin Read_op (io_op ctx cb fr br cond d' iov)) (c2, s3, w2)"
  show "completes_with k lu ev perform (io_call Read_op) (io_part A memory stream file n) call (feeds fr) (keeps fr br)
      (async_read_post (ring_error perform Read_op n) (\<lambda>w. mem_on A (memory w)) (pending stream file) goal cap fr b cb f0 M P)
      (\<lambda>fin. call fin (Io_go_on Read_op (io_op ctx cb fr br cond d iov)) (result_of_res res)) (c2, s2, w2)"
    by (rule resume) (erule ringerr, rule rest)
qed

text \<open>The same in an environment that leaves all of memory and all streams and files alone.\<close>

lemma async_read_total_all:
  fixes cb :: 'f and s :: "'x io_store_scheme"
  assumes laws: "readv_law (ring_calls sk perform k) memory stream"
      "preadv2_law (ring_calls sk perform k) memory file" "cqe_res_range perform" "gsl_subspan ss"
    and cc: "completion_condition cond goal cap" "length (seq_addrs b) < 2 ^ 64"
    and live0: "io_live f0"
    and ok: "submission_ok k lu ev (io_view memory stream file)"
    and call: "\<And>fin op r st. call fin (Io_go_on Read_op op) r st = async_io_go_on ss k lu fin Read_op op r st"
    and st: "context_ready ev c" "fd_at s fr = Inr f" "buffers_at s br = Inr b" "kind_fits sk f"
      "read_inv memory (pending stream file) b cap f0 M P f w d"
  shows "completes_with k lu ev perform (io_call Read_op) (io_view memory stream file) call (feeds fr) (keeps fr br)
    (async_read_post system_error memory (pending stream file) goal cap fr b cb f0 M P)
    (\<lambda>fin. async_io_run ss k lu fin Read_op (io_op ctx cb fr br cond d iov0)) (c, s, w)"
proof -
  obtain n off where n: "io_get f0 = Inr n" "io_offset f0 = Inr off" using live0 by (rule io_live_fildes)
  have part: "submission_ok k lu ev (io_part UNIV memory stream file n)" using ok io_view_part by (rule submission_ok_mono)
  note total = async_read_total [where A = UNIV and M = M and n = n, unfolded mem_on_UNIV, OF laws cc live0 n(1) subset_UNIV part call st]
  show ?thesis
    by (rule completes_with_mono [OF total _ _ io_view_part])
      (erule async_read_post_mono, erule ring_error_system)
qed

section \<open>Writing\<close>

lemma written_get: "written sink file f w bs f' w' \<Longrightarrow> io_live f \<Longrightarrow> io_get f' = io_get f"
  by (cases f) (auto simp: written_def seekable_get_def split: option.splits)

lemma io_part_write_inv:
  assumes "io_part A memory sink file n v = io_part A memory sink file n w" and "io_get f0 = Inr n" and "io_live f0"
  shows "write_inv (\<lambda>w. mem_on A (memory w)) (written sink file) b cap f0 w0 f v d =
    write_inv (\<lambda>w. mem_on A (memory w)) (written sink file) b cap f0 w0 f w d"
  using assms
  by (cases f0) (auto simp: io_part_def write_inv_def written_def fd_get_def seekable_get_def split: option.splits)

definition async_write_post ::
  "(error_code \<Rightarrow> bool) \<Rightarrow> ('w \<Rightarrow> mem) \<Rightarrow> (io_fd \<Rightarrow> 'w \<Rightarrow> byte list \<Rightarrow> io_fd \<Rightarrow> 'w \<Rightarrow> bool) \<Rightarrow> (size_t \<Rightarrow> size_t) \<Rightarrow> (size_t \<Rightarrow> size_t) \<Rightarrow> fd_ref
   \<Rightarrow> buffer_sequence \<Rightarrow> 'f \<Rightarrow> io_fd \<Rightarrow> 'w \<Rightarrow> 'f \<Rightarrow> completion \<Rightarrow> ('f, 'x, 'w) async_state \<Rightarrow> bool"
where
  "async_write_post err memory took goal cap fr b cb f0 w0 cb' r st \<longleftrightarrow>
     cb' = cb \<and>
     (\<exists>out f'. r = Size_result out \<and> fd_at (fst (snd st)) fr = Inr f' \<and> io_live f' \<and>
        memory (snd (snd st)) = memory w0 \<and>
        (case out of
           Inl e \<Rightarrow> err e
         | Inr n \<Rightarrow> goal (buffer_size b) \<le> n \<and> n \<le> cap (buffer_size b) \<and>
             took f0 w0 (map (memory w0) (take (unat n) (seq_addrs b))) f' (snd (snd st))))"

lemma async_write_post_mono:
  "async_write_post err memory took goal cap fr b cb f0 w0 cb' r st \<Longrightarrow> (\<And>e. err e \<Longrightarrow> err' e)
   \<Longrightarrow> async_write_post err' memory took goal cap fr b cb f0 w0 cb' r st"
  unfolding async_write_post_def by (elim conjE exE, intro conjI exI) (auto split: sum.splits)

lemma async_write_post_done:
  assumes "write_inv memory took b cap f0 w0 f w d" "fd_at s fr = Inr f" "goal (buffer_size b) \<le> d"
  shows "async_write_post err memory took goal cap fr b cb f0 w0 cb (Size_result (Inr d)) (c, s, w)"
  using assms by (simp add: async_write_post_def write_inv_def)

lemma async_write_resume:
  fixes cb :: 'f
  assumes cc: "completion_condition cond goal cap" "length (seq_addrs b) < 2 ^ 64" "cond (buffer_size b) d \<noteq> 0"
    and live0: "io_live f0"
    and call: "\<And>fin op r st. call fin (Io_go_on Write_op op) r st = async_io_go_on ss k lu fin Write_op op r st"
    and s2: "fd_at s2 fr = Inr f" "buffers_at s2 br = Inr b"
    and inv: "write_inv (\<lambda>w. mem_on A (memory w)) (written sink file) b cap f0 w0 f v d"
    and iov: "iov_addrs iov = window b d (cond (buffer_size b) d)" and range: "res < 2 ^ 31"
    and step: "write_step (\<lambda>w. mem_on A (memory w)) (written sink file) f iov v (Inr (if res < 0 then - 1 else res, v'))"
    and view: "io_part A memory sink file n w2 = io_part A memory sink file n v'" and get: "io_get f0 = Inr n"
    and failed: "res < 0 \<Longrightarrow> err \<lparr>ec_value = - res, ec_category = System_category\<rparr>"
    and rest: "\<And>s3 f' d'. \<lbrakk>unat d < unat d'; io_feed f (int (unat d' - unat d)) = Inr f';
        fd_at s3 fr = Inr f'; buffers_at s3 br = Inr b;
        write_inv (\<lambda>w. mem_on A (memory w)) (written sink file) b cap f0 w0 f' w2 d'\<rbrakk>
      \<Longrightarrow> completes_with k lu ev perform calls V call (feeds fr) R (async_write_post err (\<lambda>w. mem_on A (memory w)) (written sink file) goal cap fr b cb f0 w0)
            (\<lambda>fin. async_io_run ss k lu fin Write_op (io_op ctx cb fr br cond d' iov)) (c2, s3, w2)"
  shows "completes_with k lu ev perform calls V call (feeds fr) R (async_write_post err (\<lambda>w. mem_on A (memory w)) (written sink file) goal cap fr b cb f0 w0)
    (\<lambda>fin. call fin (Io_go_on Write_op (io_op ctx cb fr br cond d iov)) (result_of_res res)) (c2, s2, w2)"
    (is "completes_with _ _ _ _ _ _ _ _ _ ?post _ _")
  using step
proof (cases rule: write_step.cases)
  case error
  then have "res < 0" by (simp split: if_splits)
  moreover have "mem_on A (memory w2) = mem_on A (memory w0)"
    using error inv view by (simp add: io_part_def write_inv_def)
  ultimately have "?post cb (Size_result (Inl \<lparr>ec_value = - res, ec_category = System_category\<rparr>)) (c2, s2, w2)"
    using s2(1) inv by (simp add: async_write_post_def write_inv_def failed)
  then show ?thesis
    unfolding call using async_io_go_on_error [OF \<open>res < 0\<close>] by (intro completes_with.finished [OF _ feeds_refl])
next
  case (data n f')
  then have res: "res = int n" by (auto split: if_splits)
  let ?d = "d + word_of_int (int n) :: size_t"
  have d: "unat ?d = unat d + n" and next_inv: "write_inv (\<lambda>w. mem_on A (memory w)) (written sink file) b cap f0 w0 f' w2 ?d"
    using write_inv_data [OF cc live0 inv iov data(3,5-7)] io_part_write_inv [OF view get live0] by metis+
  obtain s3 where s3: "feed_at s2 fr (int n) = Inr s3" "fd_at s3 fr = Inr f'" "buffers_at s3 br = Inr b"
    using feed_at_io_feed [OF s2(1) data(4)] s2(2) by metis
  have ih: "completes_with k lu ev perform calls V call (feeds fr) R ?post
      (\<lambda>fin. async_io_run ss k lu fin Write_op (io_op ctx cb fr br cond ?d iov)) (c2, s3, w2)"
    by (rule rest [OF _ _ s3(2,3) next_inv]) (use d data(2,4) in simp_all)
  show ?thesis
    unfolding call res
    by (rule completes_with_cong [OF ih], rule async_io_go_on_data) (use data(2) range res s3(1) feeds_feed in auto)
qed

lemma async_write_total:
  fixes cb :: 'f and s :: "'x io_store_scheme"
  assumes laws: "writev_law (ring_calls sk perform k) memory sink"
      "pwritev2_law (ring_calls sk perform k) memory file" "write_progress (ring_calls sk perform k)"
      "cqe_res_range perform" "gsl_subspan ss"
    and cc: "completion_condition cond goal cap" and size: "length (seq_addrs b) < 2 ^ 64"
    and live0: "io_live f0" "io_get f0 = Inr n" and A: "set (seq_addrs b) \<subseteq> A"
    and ok: "submission_ok k lu ev (io_part A memory sink file n)"
    and call: "\<And>fin op r st. call fin (Io_go_on Write_op op) r st = async_io_go_on ss k lu fin Write_op op r st"
    and st: "context_ready ev c" "fd_at s fr = Inr f" "buffers_at s br = Inr b" "kind_fits sk f"
      "write_inv (\<lambda>w. mem_on A (memory w)) (written sink file) b cap f0 w0 f w d"
  shows "completes_with k lu ev perform (io_call Write_op) (io_part A memory sink file n) call (feeds fr) (keeps fr br)
    (async_write_post (ring_error perform Write_op n) (\<lambda>w. mem_on A (memory w)) (written sink file) goal cap fr b cb f0 w0)
    (\<lambda>fin. async_io_run ss k lu fin Write_op (io_op ctx cb fr br cond d iov0)) (c, s, w)"
proof (rule async_io_total [where Inv = "write_inv (\<lambda>w. mem_on A (memory w)) (written sink file) b cap f0 w0", OF laws(5) ok _ _ _ _ st])
  let ?inv = "write_inv (\<lambda>w. mem_on A (memory w)) (written sink file) b cap f0 w0"
  show "io_live f \<and> unat d \<le> unat (cap (buffer_size b))" if "?inv f w d" for f w d
    using that by (simp add: write_inv_def word_le_nat_alt)
  show "?inv f v d = ?inv f w d" if "io_part A memory sink file n v = io_part A memory sink file n w" for f v w d
    using that live0(2,1) by (rule io_part_write_inv)
  show "async_write_post (ring_error perform Write_op n) (\<lambda>w. mem_on A (memory w)) (written sink file) goal cap fr b cb f0 w0 cb (Size_result (Inr d)) (c, s, w)"
    if "?inv f w d" "fd_at s fr = Inr f" "cond (buffer_size b) d = 0" for c and s :: "'x io_store_scheme" and f w d
    using that completion_condition.stop_iff [OF cc] by (intro async_write_post_done) auto
  fix c2 :: "'f closure uring_context" and s2 :: "'x io_store_scheme" and f m off iov d v res v' w2
  assume turn: "context_ready ev c2" "fd_at s2 fr = Inr f" "buffers_at s2 br = Inr b" "kind_fits sk f" "io_get f = Inr m" "io_offset f = Inr off"
    "?inv f v d" "cond (buffer_size b) d \<noteq> 0" "iov_addrs iov = window b d (cond (buffer_size b) d)"
    "perform (io_sqe Write_op m iov off) v = (res, v')" "io_part A memory sink file n w2 = io_part A memory sink file n v'"
  have live: "io_live f" using turn(7) by (simp add: write_inv_def)
  have ne: "iov_addrs iov \<noteq> []" using io_window_fits(3) [OF cc size turn(8)] turn(8,9) by auto
  have inside: "set (iov_addrs iov) \<subseteq> A"
    using A turn(9) set_take_subset set_drop_subset unfolding window_def by (metis subset_trans)
  have range: "res < 2 ^ 31" using laws(4) turn(10) unfolding cqe_res_range_def by (metis fst_conv)
  have step: "write_step (\<lambda>w. mem_on A (memory w)) (written sink file) f iov v (Inr (if res < 0 then - 1 else res, v'))"
    using write_step_on [OF sync_write_call_step [OF laws(1-3) live ne, of v] inside]
    unfolding ring_call(2) [OF live turn(4-6)] turn(10) by (simp add: as_syscall_def split: if_splits)
  have "m = n" using written_get [OF _ live0(1)] turn(5,7) live0(2) unfolding write_inv_def by fastforce
  then have ringerr: "ring_error perform Write_op n \<lparr>ec_value = - res, ec_category = System_category\<rparr>" if "res < 0"
    using ring_errorI [where perform = perform, OF that turn(10)] by simp
  note resume = async_write_resume [OF cc size turn(8) live0(1) call turn(2,3,7,9) range step turn(11) live0(2)]
  assume rest: "\<And>(s3 :: 'x io_store_scheme) f' d'. \<lbrakk>unat d < unat d'; io_feed f (int (unat d' - unat d)) = Inr f'; fd_at s3 fr = Inr f';
      buffers_at s3 br = Inr b; ?inv f' w2 d'\<rbrakk>
    \<Longrightarrow> completes_with k lu ev perform (io_call Write_op) (io_part A memory sink file n) call (feeds fr) (keeps fr br)
          (async_write_post (ring_error perform Write_op n) (\<lambda>w. mem_on A (memory w)) (written sink file) goal cap fr b cb f0 w0)
          (\<lambda>fin. async_io_run ss k lu fin Write_op (io_op ctx cb fr br cond d' iov)) (c2, s3, w2)"
  show "completes_with k lu ev perform (io_call Write_op) (io_part A memory sink file n) call (feeds fr) (keeps fr br)
      (async_write_post (ring_error perform Write_op n) (\<lambda>w. mem_on A (memory w)) (written sink file) goal cap fr b cb f0 w0)
      (\<lambda>fin. call fin (Io_go_on Write_op (io_op ctx cb fr br cond d iov)) (result_of_res res)) (c2, s2, w2)"
    by (rule resume) (erule ringerr, rule rest)
qed

lemma async_write_total_all:
  fixes cb :: 'f and s :: "'x io_store_scheme"
  assumes laws: "writev_law (ring_calls sk perform k) memory sink"
      "pwritev2_law (ring_calls sk perform k) memory file" "write_progress (ring_calls sk perform k)"
      "cqe_res_range perform" "gsl_subspan ss"
    and cc: "completion_condition cond goal cap" "length (seq_addrs b) < 2 ^ 64"
    and live0: "io_live f0"
    and ok: "submission_ok k lu ev (io_view memory sink file)"
    and call: "\<And>fin op r st. call fin (Io_go_on Write_op op) r st = async_io_go_on ss k lu fin Write_op op r st"
    and st: "context_ready ev c" "fd_at s fr = Inr f" "buffers_at s br = Inr b" "kind_fits sk f"
      "write_inv memory (written sink file) b cap f0 w0 f w d"
  shows "completes_with k lu ev perform (io_call Write_op) (io_view memory sink file) call (feeds fr) (keeps fr br)
    (async_write_post system_error memory (written sink file) goal cap fr b cb f0 w0)
    (\<lambda>fin. async_io_run ss k lu fin Write_op (io_op ctx cb fr br cond d iov0)) (c, s, w)"
proof -
  obtain n off where n: "io_get f0 = Inr n" "io_offset f0 = Inr off" using live0 by (rule io_live_fildes)
  have part: "submission_ok k lu ev (io_part UNIV memory sink file n)" using ok io_view_part by (rule submission_ok_mono)
  note total = async_write_total [where A = UNIV and ?w0.0 = w0 and n = n, unfolded mem_on_UNIV, OF laws cc live0 n(1) subset_UNIV part call st]
  show ?thesis
    by (rule completes_with_mono [OF total _ _ io_view_part])
      (erule async_write_post_mono, erule ring_error_system)
qed

section \<open>Failure to submit\<close>

text \<open>
  Taking the next system call moves the operation, with its callback, into the closure. If
  the submission queue is full, the error is reported through the emptied callback.
\<close>

lemma async_io_run_queue_full:
  assumes "gsl_subspan ss" "fd_at s fr = Inr f" "io_live f" "buffers_at s br = Inr b" "cond (buffer_size b) d \<noteq> 0"
    and "unlocked c" "r_inited c" "lu_get_sqe lu w = (None, w1)"
  shows "async_io_run ss k lu fin kind (io_op ctx cb fr br cond d iov0) (c, s, w) = Inl Empty_call"
proof -
  obtain n off where n: "io_get f = Inr n" "io_offset f = Inr off"
    using assms(3) by (rule io_live_fildes)
  obtain reserved iov where "to_iovecs ss b d (cond (buffer_size b) d) = Inr (reserved, iov)"
    using to_iovecs_window [OF assms(1,5)] by metis
  then have transform: "transform_to_iovecs ss (sequence_range b) d (cond (buffer_size b) d) [] = Inr iov"
    by (simp add: to_iovecs_def split: sum.splits)
  have "add_sqe_cb k lu sqe cl c w = Inr (Inl (as_ec ENOBUFS), c, w1)" for sqe cl
    using assms(6-8) by (rule_tac add_sqe_cb_cases [of c lu w k sqe cl]) simp_all
  then have "async_io_submit k lu kind n iov off cl c w = Inr (Inl (as_ec ENOBUFS), c, w1)" for cl
    by (cases kind) (simp_all add: async_io_submit_def async_syscall_readv_def async_syscall_writev_def)
  then show ?thesis
    using assms(2,4,5) n transform
    by (simp add: async_io_run_def io_op_def op_create_def op_yield_def op_complete_def call_callback_def)
qed

end
