(* ===== verification/Ark_Tcp.thy ===== *)
theory Ark_Tcp
  imports Ark_Async_IO Ark_General
begin

text \<open>
  \<open>include/ark/net/tcp\<close>: sockets and acceptors, bind and listen, and connect and accept,
  blocking and asynchronous. \<open>run_closure\<close> runs a closure of the library, as the event loop
  does with the callbacks it has collected.

  The socket system calls extend the record of system calls. A \<open>socket\<close> and an \<open>acceptor\<close>
  are \<open>fd\<close>s. An accept with an address passes the kernel a pointer to the storage of the
  endpoint and one to a length that lives in the operation on the heap; \<open>heap\<close> is the
  allocator's choice of that place.
\<close>

section \<open>System calls\<close>

record 'w net_clinux = "'w clinux" +
  k_socket :: "int \<Rightarrow> int \<Rightarrow> int \<Rightarrow> 'w \<Rightarrow> int \<times> 'w"
  k_bind :: "int \<Rightarrow> address \<Rightarrow> 32 word \<Rightarrow> 'w \<Rightarrow> int \<times> 'w"
  k_listen :: "int \<Rightarrow> int \<Rightarrow> 'w \<Rightarrow> int \<times> 'w"
  k_connect :: "int \<Rightarrow> address \<Rightarrow> 32 word \<Rightarrow> 'w \<Rightarrow> int \<times> 'w"
  k_accept4 :: "int \<Rightarrow> 32 word option \<Rightarrow> int \<Rightarrow> 'w \<Rightarrow> int \<times> byte list \<times> 'w"

text \<open>
  \<open>k_accept4\<close> takes the size of the address buffer, or \<open>None\<close> for null pointers, and returns
  the bytes it stores there. \<open>SOCK_STREAM\<close> is 1.
\<close>

definition domain_of :: "bool \<Rightarrow> int" where
  "domain_of use_ipv6 = (if use_ipv6 then 10 else 2)"

section \<open>The classes socket and acceptor\<close>

definition socket_create ::
  "('w, 'z) net_clinux_scheme \<Rightarrow> nat option \<Rightarrow> bool \<Rightarrow> 'w \<Rightarrow> fd result \<times> 'w"
where
  "socket_create k ctx use_ipv6 w =
     (let (ret, w') = k_socket k (domain_of use_ipv6) 1 0 w
      in if ret = - 1 then (Inl (errno_ec k w'), w') else (Inr (wrap_fd ctx ret), w'))"

definition wrap_accepted_socket :: "nat option \<Rightarrow> int \<Rightarrow> fd" where
  "wrap_accepted_socket ctx fd = wrap_fd ctx fd"

definition acceptor_create ::
  "('w, 'z) net_clinux_scheme \<Rightarrow> nat option \<Rightarrow> bool \<Rightarrow> 'w \<Rightarrow> fd result \<times> 'w"
where
  "acceptor_create k ctx use_ipv6 w =
     (let (ret, w') = k_socket k (domain_of use_ipv6) 1 0 w
      in if ret = - 1 then (Inl (errno_ec k w'), w') else (Inr (wrap_fd ctx ret), w'))"

section \<open>Calls that do not block\<close>

definition tcp_bind ::
  "('w, 'z) net_clinux_scheme \<Rightarrow> fd \<Rightarrow> address \<Rightarrow> 'w \<Rightarrow> failure + unit result \<times> 'w"
where
  "tcp_bind k f endpoint w =
     (case fd_get f of
        Inl e \<Rightarrow> Inl e
      | Inr n \<Rightarrow>
          (let (ret, w') = k_bind k n endpoint (sa_len endpoint) w
           in if ret = - 1 then Inr (Inl (errno_ec k w'), w') else Inr (Inr (), w')))"

definition tcp_listen ::
  "('w, 'z) net_clinux_scheme \<Rightarrow> fd \<Rightarrow> int \<Rightarrow> 'w \<Rightarrow> failure + unit result \<times> 'w"
where
  "tcp_listen k f backlog w =
     (case fd_get f of
        Inl e \<Rightarrow> Inl e
      | Inr n \<Rightarrow>
          (let (ret, w') = k_listen k n backlog w
           in if ret = - 1 then Inr (Inl (errno_ec k w'), w') else Inr (Inr (), w')))"

text \<open>The default backlog, \<open>numeric_limits<int>::max()\<close>.\<close>

definition tcp_listen_default ::
  "('w, 'z) net_clinux_scheme \<Rightarrow> fd \<Rightarrow> 'w \<Rightarrow> failure + unit result \<times> 'w"
where
  "tcp_listen_default k f w = tcp_listen k f (2 ^ 31 - 1) w"

section \<open>Blocking calls\<close>

definition sync_connect ::
  "('w, 'z) net_clinux_scheme \<Rightarrow> fd \<Rightarrow> address \<Rightarrow> 'w \<Rightarrow> failure + unit result \<times> 'w"
where
  "sync_connect k f endpoint w =
     (case fd_get f of
        Inl e \<Rightarrow> Inl e
      | Inr n \<Rightarrow>
          (let (ret, w') = k_connect k n endpoint (sa_len endpoint) w
           in if ret = - 1 then Inr (Inl (errno_ec k w'), w') else Inr (Inr (), w')))"

definition sync_accept ::
  "('w, 'z) net_clinux_scheme \<Rightarrow> fd \<Rightarrow> 'w \<Rightarrow> failure + fd result \<times> 'w"
where
  "sync_accept k srv w =
     (case fd_get srv of
        Inl e \<Rightarrow> Inl e
      | Inr n \<Rightarrow>
          (let (ret, stored, w') = k_accept4 k n None 0 w
           in if ret = - 1 then Inr (Inl (errno_ec k w'), w')
              else Inr (Inr (wrap_accepted_socket None ret), w')))"

definition sync_accept_address ::
  "('w, 'z) net_clinux_scheme \<Rightarrow> fd \<Rightarrow> address \<Rightarrow> 'w \<Rightarrow> failure + fd result \<times> address \<times> 'w"
where
  "sync_accept_address k srv endpoint w =
     (case fd_get srv of
        Inl e \<Rightarrow> Inl e
      | Inr n \<Rightarrow>
          (let (ret, stored, w') = k_accept4 k n (Some (sa_len endpoint)) 0 w;
               endpoint' = endpoint\<lparr>sa := put_bytes 0 stored (sa endpoint)\<rparr>
           in if ret = - 1 then Inr (Inl (errno_ec k w'), endpoint', w')
              else Inr (Inr (wrap_accepted_socket None ret), endpoint', w')))"

section \<open>Asynchronous connect\<close>

definition socket_at :: "'x io_store_scheme \<Rightarrow> addr \<Rightarrow> failure + fd" where
  "socket_at s a = (case st_fds s a of None \<Rightarrow> Inl Dangling_reference | Some f \<Rightarrow> Inr f)"

definition async_connect ::
  "('w, 'z) clinux_scheme \<Rightarrow> 'w liburing \<Rightarrow> ('f, 'x, 'w) final_callback \<Rightarrow> addr \<Rightarrow> addr \<Rightarrow> 'f
   \<Rightarrow> ('f, 'x, 'w) async_state \<Rightarrow> failure + ('f, 'x, 'w) async_state"
where
  "async_connect k lu fin f endpoint cb st =
     (case st of (c, s, w) \<Rightarrow>
      case socket_at s f of Inl e \<Rightarrow> Inl e | Inr sock \<Rightarrow>
      case get_context sock of Inl e \<Rightarrow> Inl e | Inr ctx \<Rightarrow>
      case fd_get sock of Inl e \<Rightarrow> Inl e | Inr n \<Rightarrow>
      case st_addresses s endpoint of None \<Rightarrow> Inl Dangling_reference | Some ep \<Rightarrow>
      case async_syscall_connect k lu n endpoint (sa_len ep) (Connect_done cb) c w of
        Inl e \<Rightarrow> Inl e
      | Inr (Inl ec, c', w') \<Rightarrow> call_callback fin None (Void_result (Inl ec)) (c', s, w')
      | Inr (Inr tok, c', w') \<Rightarrow> Inr (c', s, w'))"

text \<open>The lambda: there is no \<open>return\<close> after the call with the error.\<close>

definition connect_done ::
  "('f, 'x, 'w) final_callback \<Rightarrow> 'f \<Rightarrow> int result \<Rightarrow> ('f, 'x, 'w) async_state \<Rightarrow> failure + ('f, 'x, 'w) async_state"
where
  "connect_done fin cb ret st =
     (case ret of
        Inl ec \<Rightarrow>
          (case fin cb (Void_result (Inl ec)) st of
             Inl e \<Rightarrow> Inl e
           | Inr st' \<Rightarrow> fin cb (Void_result (Inr ())) st')
      | Inr v \<Rightarrow> fin cb (Void_result (Inr ())) st)"

section \<open>Asynchronous accept\<close>

definition accept_finish ::
  "('f, 'x, 'w) final_callback \<Rightarrow> ('f, accept_locals) async_op \<Rightarrow> int result \<Rightarrow> ('f, 'x, 'w) async_state
   \<Rightarrow> failure + ('f, 'x, 'w) async_state"
where
  "accept_finish fin op ret st =
     (case ret of
        Inl ec \<Rightarrow>
          (case op_complete fin op (Socket_result (Inl ec)) st of
             Inl e \<Rightarrow> Inl e
           | Inr st' \<Rightarrow> Inl No_value)
      | Inr v \<Rightarrow> op_complete fin op (Socket_result (Inr (wrap_accepted_socket (Some (op_ctx op)) v))) st)"

definition accept_run ::
  "('w, 'z) clinux_scheme \<Rightarrow> 'w liburing \<Rightarrow> ('f, 'x, 'w) final_callback \<Rightarrow> ('f, accept_locals) async_op
   \<Rightarrow> ('f, 'x, 'w) async_state \<Rightarrow> failure + ('f, 'x, 'w) async_state"
where
  "accept_run k lu fin op st =
     (case st of (c, s, w) \<Rightarrow>
      case op_locals op of None \<Rightarrow> Inl Null_deref | Some l \<Rightarrow>
      case socket_at s (al_f l) of Inl e \<Rightarrow> Inl e | Inr srv \<Rightarrow>
      case fd_get srv of Inl e \<Rightarrow> Inl e | Inr fd \<Rightarrow>
      case st_addresses s (al_endpoint l) of None \<Rightarrow> Inl Dangling_reference | Some ep \<Rightarrow>
      case op_yield Accept_finish op of (cb, op') \<Rightarrow>
      case async_syscall_accept k lu fd (al_endpoint l) (al_self l) 0 cb c w of
        Inl e \<Rightarrow> Inl e
      | Inr (Inl ec, c', w') \<Rightarrow> op_complete fin op' (Socket_result (Inl ec)) (c', s, w')
      | Inr (Inr tok, c', w') \<Rightarrow> Inr (c', s, w'))"

definition async_accept_address ::
  "('w, 'z) clinux_scheme \<Rightarrow> 'w liburing \<Rightarrow> ('f, 'x, 'w) final_callback \<Rightarrow> addr \<Rightarrow> addr \<Rightarrow> addr \<Rightarrow> 'f
   \<Rightarrow> ('f, 'x, 'w) async_state \<Rightarrow> failure + ('f, 'x, 'w) async_state"
where
  "async_accept_address k lu fin heap srv endpoint cb st =
     (case st of (c, s, w) \<Rightarrow>
      case socket_at s srv of Inl e \<Rightarrow> Inl e | Inr acc \<Rightarrow>
      case get_context acc of Inl e \<Rightarrow> Inl e | Inr ctx \<Rightarrow>
      case st_addresses s endpoint of None \<Rightarrow> Inl Dangling_reference | Some ep \<Rightarrow>
      accept_run k lu fin
        (op_create ctx cb \<lparr>al_self = heap, al_f = srv, al_endpoint = endpoint, al_addrlen_buf = sa_len ep\<rparr>) st)"

definition async_accept ::
  "('w, 'z) clinux_scheme \<Rightarrow> 'w liburing \<Rightarrow> ('f, 'x, 'w) final_callback \<Rightarrow> addr \<Rightarrow> 'f
   \<Rightarrow> ('f, 'x, 'w) async_state \<Rightarrow> failure + ('f, 'x, 'w) async_state"
where
  "async_accept k lu fin srv cb st =
     (case st of (c, s, w) \<Rightarrow>
      case socket_at s srv of Inl e \<Rightarrow> Inl e | Inr acc \<Rightarrow>
      case get_context acc of Inl e \<Rightarrow> Inl e | Inr ctx \<Rightarrow>
      case fd_get acc of Inl e \<Rightarrow> Inl e | Inr n \<Rightarrow>
      case async_syscall_accept k lu n nullptr nullptr 0 (Accept_done ctx cb) c w of
        Inl e \<Rightarrow> Inl e
      | Inr (Inl ec, c', w') \<Rightarrow> call_callback fin None (Socket_result (Inl ec)) (c', s, w')
      | Inr (Inr tok, c', w') \<Rightarrow> Inr (c', s, w'))"

text \<open>The lambda: as in \<open>accept_finish\<close>, the value of the failed result is taken.\<close>

definition accept_done ::
  "('f, 'x, 'w) final_callback \<Rightarrow> nat \<Rightarrow> 'f \<Rightarrow> int result \<Rightarrow> ('f, 'x, 'w) async_state
   \<Rightarrow> failure + ('f, 'x, 'w) async_state"
where
  "accept_done fin ctx cb ret st =
     (case ret of
        Inl ec \<Rightarrow>
          (case fin cb (Socket_result (Inl ec)) st of
             Inl e \<Rightarrow> Inl e
           | Inr st' \<Rightarrow> Inl No_value)
      | Inr v \<Rightarrow> fin cb (Socket_result (Inr (wrap_accepted_socket (Some ctx) v))) st)"

section \<open>Running closures\<close>

definition run_closure ::
  "subspan_t \<Rightarrow> ('w, 'z) clinux_scheme \<Rightarrow> 'w liburing \<Rightarrow> ('f, 'x, 'w) final_callback
   \<Rightarrow> 'f closure \<Rightarrow> int result \<Rightarrow> ('f, 'x, 'w) async_state \<Rightarrow> failure + ('f, 'x, 'w) async_state"
where
  "run_closure ss k lu fin cl ret st =
     (case cl of
        Io_go_on kind op \<Rightarrow> async_io_go_on ss k lu fin kind op ret st
      | Accept_finish op \<Rightarrow> accept_finish fin op ret st
      | Connect_done cb \<Rightarrow> connect_done fin cb ret st
      | Accept_done ctx cb \<Rightarrow> accept_done fin ctx cb ret st)"

lemma run_closure_io:
  "run_closure ss k lu fin (Io_go_on kind op) r st = async_io_go_on ss k lu fin kind op r st"
  by (simp add: run_closure_def)

section \<open>Connections accepted by the event loop\<close>

text \<open>
  The callback \<open>cb\<close> gets a socket bound to \<open>ctx\<close> that owns the number which the kernel returned for the submitted call
  \<open>sqe\<close>: for the world \<open>v\<close> in which the kernel performed it, and the world after the call.
\<close>

definition accepted_post ::
  "('w, 'z) clinux_scheme \<Rightarrow> (sqe_op \<Rightarrow> 'w \<Rightarrow> int \<times> 'w) \<Rightarrow> ('w \<Rightarrow> 'v) \<Rightarrow> sqe_op \<Rightarrow> 'w \<Rightarrow> nat \<Rightarrow> 'f
   \<Rightarrow> 'f \<Rightarrow> completion \<Rightarrow> ('f, 'x, 'w) async_state \<Rightarrow> bool"
where
  "accepted_post k perform view sqe w ctx cb cb' r st \<longleftrightarrow>
     cb' = cb \<and> (\<exists>v n v' f. view v = view w \<and> perform sqe v = (n, v') \<and> view (snd (snd st)) = view v'
       \<and> r = Socket_result (Inr f) \<and> owns_fd k (Some ctx) n f)"

lemma accept_submits:
  assumes "submission_ok k lu ev view" "context_ready ev c"
  obtains w1 where "async_syscall_accept k lu n a len 0 cl c w =
      Inr (Inr (callbacks_idx c), registered c (User_cb cl), w1)"
    and "submits k lu (Prep_accept n a len 0) c w w1" and "view w1 = view w"
  using submission_okE [OF assms] unfolding async_syscall_accept_def by metis

definition accept_call :: "int \<Rightarrow> sqe_op \<Rightarrow> bool" where
  "accept_call n sqe \<longleftrightarrow> (\<exists>a len. sqe = Prep_accept n a len 0)"

lemma accept_call_prep: "accept_call n (Prep_accept n a len 0)"
  unfolding accept_call_def by blast

lemma accepted_completes:
  assumes "\<And>fin. run_closure ss k lu fin cl (Inr res) (c2, s2, w2) =
      fin cb (Socket_result (Inr (wrap_accepted_socket (Some ctx) res))) (c2, s2, w2)"
    and "view v = view w" and "perform sqe v = (res, v')" and "view w2 = view v'" and "0 \<le> fst (perform sqe v)"
  shows "completes_with k lu ev perform calls view (run_closure ss k lu) (=) R (accepted_post k perform view sqe w ctx cb)
    (\<lambda>fin. run_closure ss k lu fin cl (result_of_res res)) (c2, s2, w2)"
proof -
  have "result_of_res res = Inr res" using assms(3,5) by (simp add: result_of_res_def)
  moreover have "accepted_post k perform view sqe w ctx cb cb (Socket_result (Inr (wrap_accepted_socket (Some ctx) res))) (c2, s2, w2)"
    using assms(2-4) unfolding accepted_post_def wrap_accepted_socket_def by auto
  ultimately show ?thesis
    using assms(1) by (auto intro: completes_with.finished)
qed

text \<open>
  C19. An asynchronous accept whose call gets a connection invokes the callback exactly once, with a socket
  that owns the very descriptor which the kernel returned for the submitted call and that is bound to the context of the
  acceptor; both for the overload that stores the peer's address and for the one that does not.
\<close>

theorem async_accept_completes:
  assumes "submission_ok k lu ev view" and "context_ready ev c"
    and "socket_at s srv = Inr acc" and "get_context acc = Inr ctx" and "fd_get acc = Inr n"
    and "st_addresses s endpoint = Some ep"
    and "\<And>v. view v = view w \<Longrightarrow> 0 \<le> fst (perform (Prep_accept n nullptr nullptr 0) v)"
    and "\<And>v. view v = view w \<Longrightarrow> 0 \<le> fst (perform (Prep_accept n endpoint heap 0) v)"
  shows "completes_with k lu ev perform (accept_call n) view (run_closure ss k lu) (=) R
      (accepted_post k perform view (Prep_accept n nullptr nullptr 0) w ctx cb)
      (\<lambda>fin. async_accept k lu fin srv cb) (c, s, w)
    \<and> completes_with k lu ev perform (accept_call n) view (run_closure ss k lu) (=) R
      (accepted_post k perform view (Prep_accept n endpoint heap 0) w ctx cb)
      (\<lambda>fin. async_accept_address k lu fin heap srv endpoint cb) (c, s, w)"
proof (intro conjI)
  obtain w1 where sub: "async_syscall_accept k lu n nullptr nullptr 0 (Accept_done ctx cb) c w =
      Inr (Inr (callbacks_idx c), registered c (User_cb (Accept_done ctx cb)), w1)"
    "submits k lu (Prep_accept n nullptr nullptr 0) c w w1" "view w1 = view w"
    by (rule accept_submits [OF assms(1,2)])
  have run: "async_accept k lu fin srv cb (c, s, w) = Inr (registered c (User_cb (Accept_done ctx cb)), s, w1)" for fin
    using assms(3-5) sub(1) by (simp add: async_accept_def)
  show "completes_with k lu ev perform (accept_call n) view (run_closure ss k lu) (=) R
      (accepted_post k perform view (Prep_accept n nullptr nullptr 0) w ctx cb) (\<lambda>fin. async_accept k lu fin srv cb) (c, s, w)"
    by (rule completes_with.suspended, rule run, rule refl, rule accept_call_prep, rule sub(2))
      (rule accepted_completes, use sub(3) assms(7) in \<open>simp_all add: run_closure_def accept_done_def\<close>)
next
  let ?op = "op_create ctx cb \<lparr>al_self = heap, al_f = srv, al_endpoint = endpoint, al_addrlen_buf = sa_len ep\<rparr>"
  obtain w1 where sub: "async_syscall_accept k lu n endpoint heap 0 (Accept_finish ?op) c w =
      Inr (Inr (callbacks_idx c), registered c (User_cb (Accept_finish ?op)), w1)"
    "submits k lu (Prep_accept n endpoint heap 0) c w w1" "view w1 = view w"
    by (rule accept_submits [OF assms(1,2)])
  have run: "async_accept_address k lu fin heap srv endpoint cb (c, s, w) =
      Inr (registered c (User_cb (Accept_finish ?op)), s, w1)" for fin
    using assms(3-6) sub(1)
    by (simp add: async_accept_address_def accept_run_def op_create_def op_yield_def)
  show "completes_with k lu ev perform (accept_call n) view (run_closure ss k lu) (=) R
      (accepted_post k perform view (Prep_accept n endpoint heap 0) w ctx cb)
      (\<lambda>fin. async_accept_address k lu fin heap srv endpoint cb) (c, s, w)"
    by (rule completes_with.suspended, rule run, rule refl, rule accept_call_prep, rule sub(2))
      (rule accepted_completes, use sub(3) assms(8) in
         \<open>simp_all add: run_closure_def accept_finish_def op_create_def op_complete_def call_callback_def\<close>)
qed

text \<open>A program with an acceptor and an address, for the closed instances.\<close>

definition demo_store :: io_store where
  "demo_store =
     \<lparr>st_fds = [4096 \<mapsto> wrap_fd (Some 0) 5], st_seekables = [8192 \<mapsto> wrap_seekable (Some 0) 6],
      st_buffers = [16384 \<mapsto> Single \<lparr>b_data = 100, b_size = 7\<rparr>], st_addresses = [32768 \<mapsto> family_create 2 (replicate 128 0)]\<rparr>"

lemma demo_store_sel:
  "socket_at demo_store 4096 = Inr (wrap_fd (Some 0) 5)" "st_addresses demo_store 32768 = Some (family_create 2 (replicate 128 0))"
  "get_context (wrap_fd (Some 0) 5) = Inr 0" "fd_get (wrap_fd (Some 0) 5) = Inr 5"
  by (simp_all add: demo_store_def socket_at_def get_context_def wrap_fd_sel)

lemma demo_submission_ok: "submission_ok writable_clinux idle_liburing ev view"
  by (simp add: submission_ok_def ready_defs)

lemma demo_context_ready: "context_ready 3 ready_context"
  by (simp add: context_ready_def unlocked_def ready_defs)

theorem async_accept_completes_witness:
  "completes_with writable_clinux idle_liburing 3 (\<lambda>sqe w. (int w, Suc w)) (accept_call 5) (\<lambda>w. w) (run_closure plain_subspan writable_clinux idle_liburing)
     (=) (=) (accepted_post writable_clinux (\<lambda>sqe w. (int w, Suc w)) (\<lambda>w. w) (Prep_accept 5 32768 512 0) 9 0 ''handler'')
     (\<lambda>fin. async_accept_address writable_clinux idle_liburing fin 512 4096 32768 ''handler'') (ready_context, demo_store, 9)"
  by (rule async_accept_completes [where acc = "wrap_fd (Some 0) 5" and n = 5 and ep = "family_create 2 (replicate 128 0)",
        OF demo_submission_ok demo_context_ready, THEN conjunct2])
     (simp_all add: demo_store_def socket_at_def get_context_def wrap_fd_sel)

section \<open>Errors\<close>

text \<open>
  What a pass of the loop does in which the completion of an operation arrives: the callbacks of the batch before it, what the
  closure of the operation does, the callbacks after it.
\<close>

definition and_then :: "failure + 'a \<Rightarrow> ('a \<Rightarrow> failure + 'b) \<Rightarrow> failure + 'b" where
  "and_then r f = (case r of Inl e \<Rightarrow> Inl e | Inr x \<Rightarrow> f x)"

definition pass_with ::
  "('c \<Rightarrow> int result \<Rightarrow> 'st \<Rightarrow> failure + 'st) \<Rightarrow> ('c \<times> int result) list \<Rightarrow> ('st \<Rightarrow> failure + 'st) \<Rightarrow> ('c \<times> int result) list
   \<Rightarrow> 'st \<Rightarrow> failure + run_status \<times> 'st"
where
  "pass_with call pre act post st =
     and_then (and_then (and_then (run_callbacks call pre st) act) (run_callbacks call post)) (\<lambda>st'. Inr (Looped, st'))"

text \<open>
  \<open>awaits c tok cl c2 w2 res\<close>: the loop is in the state \<open>c2\<close>, \<open>w2\<close>, in which \<open>cl\<close> is still registered under \<open>tok\<close> and
  the next pass brings its completion with \<open>res\<close>.
\<close>

definition awaits :: "'w liburing \<Rightarrow> token_t \<Rightarrow> 'u \<Rightarrow> 'u uring_context \<Rightarrow> 'w \<Rightarrow> int \<Rightarrow> bool" where
  "awaits lu tok cl c2 w2 res \<longleftrightarrow>
     unlocked c2 \<and> r_inited c2 \<and> \<not> exiting c2 \<and> callbacks c2 tok = Some (User_cb cl) \<and> delivers lu w2 tok res"

lemma run_iteration_awaited:
  assumes "awaits lu tok cl c2 w2 res"
  obtains pre post c3 w3 where "callbacks c3 tok = None"
    "\<And>(k :: ('w, 'z) clinux_scheme) (user :: ('u, 's, 'w) user_callback) s. run_iteration k lu user (c2, s, w2) =
       pass_with (invoke k lu user) pre (user cl (result_of_res res)) post (c3, s, w3)"
proof -
  from assms have st: "delivers lu w2 tok res" "unlocked c2" "r_inited c2" "\<not> exiting c2" "callbacks c2 tok = Some (User_cb cl)"
    by (simp_all add: awaits_def)
  obtain pre post c3 w3 where pass: "callbacks c3 tok = None"
    "\<And>(k :: ('w, 'z) clinux_scheme) (user :: ('u, 's, 'w) user_callback) s. run_iteration k lu user (c2, s, w2) =
       (case run_callbacks (invoke k lu user) (pre @ (User_cb cl, result_of_res res) # post) (c3, s, w3) of
          Inl e \<Rightarrow> Inl e | Inr st \<Rightarrow> Inr (Looped, st))"
    by (rule run_iteration_delivers [OF st]) (rule that)
  then have "run_iteration k lu user (c2, s, w2) =
      pass_with (invoke k lu user) pre (user cl (result_of_res res)) post (c3, s, w3)" for k :: "('w, 'z) clinux_scheme" and user :: "('u, 's, 'w) user_callback" and s
    unfolding pass(2) run_callbacks_append pass_with_def and_then_def by (simp add: invoke_def split: sum.splits)
  with pass(1) show ?thesis by (rule that)
qed

lemma awaited_pass:
  assumes "awaits lu tok cl c2 w2 res"
  shows "\<exists>pre post c3 w3. callbacks c3 tok = None \<and> (\<forall>fin.
      run_iteration k lu (run_closure ss k lu fin) (c2, s2, w2) = pass_with (invoke k lu (run_closure ss k lu fin)) pre
        (run_closure ss k lu fin cl (result_of_res res)) post (c3, s2, w3))"
  using run_iteration_awaited [OF assms] by metis

lemma pass_with_fails:
  assumes "\<And>st. \<exists>e. act st = Inl e"
  shows "\<exists>e. pass_with call pre act post st = Inl e"
proof (cases "run_callbacks call pre st")
  case (Inr st')
  with assms [of st'] show ?thesis by (auto simp: pass_with_def and_then_def)
qed (simp add: pass_with_def and_then_def)

text \<open>The three closures of the TCP operations, on a result of the kernel.\<close>

lemma run_connect_done:
  "run_closure ss k lu fin (Connect_done cb) (result_of_res res) = (\<lambda>st. and_then
      (if res < 0 then fin cb (Void_result (Inl \<lparr>ec_value = - res, ec_category = System_category\<rparr>)) st else Inr st)
      (fin cb (Void_result (Inr ()))))"
  by (auto simp: fun_eq_iff run_closure_def connect_done_def result_of_res_def and_then_def)

lemma run_accept_error:
  assumes "res < 0"
  shows "run_closure ss k lu fin (Accept_done ctx cb) (result_of_res res) = (\<lambda>st.
      and_then (fin cb (Socket_result (Inl \<lparr>ec_value = - res, ec_category = System_category\<rparr>)) st) (\<lambda>st'. Inl No_value))"
    and "run_closure ss k lu fin (Accept_finish (op_create ctx cb l)) (result_of_res res) = (\<lambda>st.
      and_then (fin cb (Socket_result (Inl \<lparr>ec_value = - res, ec_category = System_category\<rparr>)) st) (\<lambda>st'. Inl No_value))"
  using assms by (auto simp: fun_eq_iff run_closure_def accept_done_def accept_finish_def op_create_def op_complete_def
      call_callback_def result_of_res_def and_then_def split: sum.splits)

text \<open>
  C34. An asynchronous connect that fails reports the failure and then success. \<open>connect\<close> submits the call and
  registers its lambda; in the pass of the loop in which the completion arrives, whatever has happened before and among
  whatever other completions, the callback is called once with success if the kernel connected the socket, and
  otherwise first with the kernel's error and, when that call returns, a second time with success.
\<close>

theorem connect_error_reports_success:
  assumes "submission_ok k lu ev view" and "context_ready ev c"
    and "socket_at s f = Inr sock" and "get_context sock = Inr ctx" and "fd_get sock = Inr n"
    and "st_addresses s endpoint = Some ep"
  shows "\<exists>w1. submits k lu (Prep_connect n endpoint (sa_len ep)) c w w1
    \<and> (\<forall>fin. async_connect k lu fin f endpoint cb (c, s, w) = Inr (registered c (User_cb (Connect_done cb)), s, w1))
    \<and> (\<forall>c2 s2 w2 res. awaits lu (callbacks_idx c) (Connect_done cb) c2 w2 res \<longrightarrow>
        (\<exists>pre post c3 w3. callbacks c3 (callbacks_idx c) = None \<and> (\<forall>fin.
           run_iteration k lu (run_closure ss k lu fin) (c2, s2, w2) =
           pass_with (invoke k lu (run_closure ss k lu fin)) pre
             (\<lambda>st. and_then
                (if res < 0 then fin cb (Void_result (Inl \<lparr>ec_value = - res, ec_category = System_category\<rparr>)) st else Inr st)
                (fin cb (Void_result (Inr ()))))
             post (c3, s2, w3))))"
proof -
  obtain w1 where sub: "add_sqe_cb k lu (Prep_connect n endpoint (sa_len ep)) (User_cb (Connect_done cb)) c w =
      Inr (Inr (callbacks_idx c), registered c (User_cb (Connect_done cb)), w1)"
    "submits k lu (Prep_connect n endpoint (sa_len ep)) c w w1"
    by (rule submission_okE [OF assms(1,2)])
  have "async_connect k lu fin f endpoint cb (c, s, w) = Inr (registered c (User_cb (Connect_done cb)), s, w1)" for fin
    using sub(1) assms(3-6) by (simp add: async_connect_def async_syscall_connect_def)
  with sub(2) awaited_pass [of lu "callbacks_idx c" "Connect_done cb", unfolded run_connect_done] show ?thesis by blast
qed

text \<open>A ring on which every call is refused, with the result \<open>-ECONNREFUSED\<close>.\<close>

definition refused_liburing :: "'w liburing" where
  "refused_liburing = idle_liburing\<lparr>lu_peek_batch_cqe := (\<lambda>n w. ([0], w)), lu_cqe_res := (\<lambda>c w. - 111)\<rparr>"

lemma refused_submission_ok: "submission_ok writable_clinux refused_liburing ev view"
  by (simp add: submission_ok_def refused_liburing_def ready_defs)

lemma refused_awaits: "awaits refused_liburing 0 cl (registered ready_context (User_cb cl)) w (- 111)"
  by (auto simp: awaits_def delivers_def refused_liburing_def registered_def unlocked_def ready_defs intro: exI [of _ "[]"])

theorem connect_error_reports_success_witness:
  "\<exists>pre post c3 w3. \<forall>fin. run_iteration writable_clinux refused_liburing (run_closure plain_subspan writable_clinux refused_liburing fin)
       (registered ready_context (User_cb (Connect_done ''handler'')), demo_store, 0 :: nat) =
     pass_with (invoke writable_clinux refused_liburing (run_closure plain_subspan writable_clinux refused_liburing fin)) pre
       (\<lambda>st. and_then (fin ''handler'' (Void_result (Inl \<lparr>ec_value = 111, ec_category = System_category\<rparr>)) st)
          (fin ''handler'' (Void_result (Inr ()))))
       post (c3, demo_store, w3)"
proof -
  let ?c = "ready_context :: string closure uring_context"
  obtain w1 where "\<forall>c2 (s2 :: io_store) (w2 :: nat) res. awaits refused_liburing (callbacks_idx ?c) (Connect_done ''handler'') c2 w2 res \<longrightarrow>
      (\<exists>pre post c3 w3. callbacks c3 (callbacks_idx ?c) = None \<and> (\<forall>fin.
         run_iteration writable_clinux refused_liburing (run_closure plain_subspan writable_clinux refused_liburing fin) (c2, s2, w2) =
         pass_with (invoke writable_clinux refused_liburing (run_closure plain_subspan writable_clinux refused_liburing fin)) pre
           (\<lambda>st. and_then
              (if res < 0 then fin ''handler'' (Void_result (Inl \<lparr>ec_value = - res, ec_category = System_category\<rparr>)) st else Inr st)
              (fin ''handler'' (Void_result (Inr ()))))
           post (c3, s2, w3)))"
    using connect_error_reports_success [where w = "0 :: nat" and cb = "''handler''" and ss = plain_subspan,
        OF refused_submission_ok demo_context_ready demo_store_sel(1,3,4,2)] by blast
  moreover have "callbacks_idx ?c = 0" by (simp add: ready_defs)
  ultimately show ?thesis using refused_awaits [of "Connect_done ''handler''" "0 :: nat"] by fastforce
qed

text \<open>
  C35. An asynchronous accept that fails ends the process. Either overload submits its call and registers its
  closure; in the pass of the loop in which the completion arrives with an error, whatever has happened before and among
  whatever other completions, the callback is called with the error, and when that call returns the value of
  the failed result is taken: the pass does not return.
\<close>

theorem accept_error_terminates:
  fixes c :: "'f closure uring_context" and s :: "'x io_store_scheme" and w :: 'w
  assumes "submission_ok k lu ev view" and "context_ready ev c"
    and "socket_at s srv = Inr acc" and "get_context acc = Inr ctx" and "fd_get acc = Inr n"
    and "st_addresses s endpoint = Some ep"
  shows "\<exists>cl1 cl2 w1 w2.
    (\<forall>fin. async_accept k lu fin srv cb (c, s, w) = Inr (registered c (User_cb cl1), s, w1))
    \<and> (\<forall>fin. async_accept_address k lu fin heap srv endpoint cb (c, s, w) = Inr (registered c (User_cb cl2), s, w2))
    \<and> submits k lu (Prep_accept n nullptr nullptr 0) c w w1 \<and> submits k lu (Prep_accept n endpoint heap 0) c w w2
    \<and> (\<forall>cl c3 (s3 :: 'x io_store_scheme) w3 res. cl \<in> {cl1, cl2} \<and> awaits lu (callbacks_idx c) cl c3 w3 res \<and> res < 0 \<longrightarrow>
        (\<exists>pre post c4 w4. \<forall>fin.
           run_iteration k lu (run_closure ss k lu fin) (c3, s3, w3) =
           pass_with (invoke k lu (run_closure ss k lu fin)) pre
             (\<lambda>st. and_then (fin cb (Socket_result (Inl \<lparr>ec_value = - res, ec_category = System_category\<rparr>)) st)
                (\<lambda>st'. Inl No_value))
             post (c4, s3, w4)
           \<and> (\<exists>e. run_iteration k lu (run_closure ss k lu fin) (c3, s3, w3) = Inl e)))"
proof -
  let ?cl1 = "Accept_done ctx cb"
  let ?cl2 = "Accept_finish (op_create ctx cb \<lparr>al_self = heap, al_f = srv, al_endpoint = endpoint, al_addrlen_buf = sa_len ep\<rparr>)"
  let ?err = "\<lambda>fin res st. and_then (fin cb (Socket_result (Inl \<lparr>ec_value = - res, ec_category = System_category\<rparr>)) st) (\<lambda>st'. Inl No_value)"
  obtain w1 where sub1: "async_syscall_accept k lu n nullptr nullptr 0 ?cl1 c w = Inr (Inr (callbacks_idx c), registered c (User_cb ?cl1), w1)"
      "submits k lu (Prep_accept n nullptr nullptr 0) c w w1"
    by (rule accept_submits [OF assms(1,2)])
  obtain w2 where sub2: "async_syscall_accept k lu n endpoint heap 0 ?cl2 c w = Inr (Inr (callbacks_idx c), registered c (User_cb ?cl2), w2)"
      "submits k lu (Prep_accept n endpoint heap 0) c w w2"
    by (rule accept_submits [OF assms(1,2)])
  have reg: "async_accept k lu fin srv cb (c, s, w) = Inr (registered c (User_cb ?cl1), s, w1)"
    "async_accept_address k lu fin heap srv endpoint cb (c, s, w) = Inr (registered c (User_cb ?cl2), s, w2)" for fin
    using assms(3-6) sub1(1) sub2(1)
    by (simp_all add: async_accept_def async_accept_address_def accept_run_def op_create_def op_yield_def)
  have passes: "\<exists>pre post c4 w4. \<forall>fin.
      run_iteration k lu (run_closure ss k lu fin) (c3, s3, w3) =
        pass_with (invoke k lu (run_closure ss k lu fin)) pre (?err fin res) post (c4, s3, w4)
      \<and> (\<exists>e. run_iteration k lu (run_closure ss k lu fin) (c3, s3, w3) = Inl e)"
    if "cl \<in> {?cl1, ?cl2} \<and> awaits lu (callbacks_idx c) cl c3 w3 res \<and> res < 0" for cl :: "'f closure" and c3 w3 res and s3 :: "'x io_store_scheme"
  proof -
    have act: "run_closure ss k lu fin cl (result_of_res res) = ?err fin res" for fin :: "('f, 'x, 'w) final_callback"
      using that by (auto simp: run_accept_error)
    have fails: "\<exists>e. pass_with call pre (?err fin res) post st = Inl e" for call pre post st and fin :: "('f, 'x, 'w) final_callback"
      by (rule pass_with_fails) (simp add: and_then_def split: sum.splits)
    from that obtain pre post c4 w4 where "\<forall>fin. run_iteration k lu (run_closure ss k lu fin) (c3, s3, w3) =
        pass_with (invoke k lu (run_closure ss k lu fin)) pre (run_closure ss k lu fin cl (result_of_res res)) post (c4, s3, w4)"
      using awaited_pass [of lu "callbacks_idx c" cl c3 w3 res] by blast
    then show ?thesis using fails unfolding act by metis
  qed
  show ?thesis
    by (intro exI conjI allI) (rule reg(1), rule reg(2), rule sub1(2), rule sub2(2), rule impI, erule passes)
qed

theorem accept_error_terminates_witness:
  "\<forall>fin. \<exists>st e. async_accept_address writable_clinux refused_liburing fin 512 4096 32768 ''handler'' (ready_context, demo_store, 0 :: nat) = Inr st
     \<and> run_iteration writable_clinux refused_liburing (run_closure plain_subspan writable_clinux refused_liburing fin) st = Inl e"
proof -
  let ?c = "ready_context :: string closure uring_context"
  have hit: "cl2 \<in> {cl1, cl2} \<and> awaits refused_liburing (callbacks_idx ?c) cl2 (registered ?c (User_cb cl2)) w2 (- 111) \<and> (- 111 :: int) < 0"
    for cl1 cl2 and w2 :: nat using refused_awaits by (simp add: ready_defs)
  note fails = accept_error_terminates [where w = "0 :: nat" and cb = "''handler''" and ss = plain_subspan and heap = 512,
        OF refused_submission_ok demo_context_ready demo_store_sel(1,3,4,2)]
  show ?thesis
    using fails
  proof (elim exE conjE, intro allI, goal_cases)
    case (1 cl1 cl2 w1 w2 fin)
    note pass = 1(5) [rule_format, OF hit, of demo_store w2]
    from pass obtain e where "run_iteration writable_clinux refused_liburing (run_closure plain_subspan writable_clinux refused_liburing fin)
        (registered ready_context (User_cb cl2), demo_store, w2) = Inl e"
      by (elim exE) (drule spec [of _ fin], blast)
    with 1(2) show ?case by blast
  qed
qed

text \<open>
  C36. When the submission queue is full, no asynchronous operation reports the error: the callback has
  been moved into the closure that was not registered, and the empty callback is called, for
  reads, writes, connects and both kinds of accept alike.
\<close>

theorem async_queue_full_calls_empty:
  assumes "gsl_subspan ss" and "unlocked c" and "r_inited c" and "lu_get_sqe lu w = (None, w1)"
    and "fd_at s fr = Inr f" and "io_live f" and "io_context f = Inr ctx"
    and "buffers_at s br = Inr b" and "cond (buffer_size b) 0 \<noteq> 0"
    and "socket_at s sr = Inr sock" and "get_context sock = Inr ctx'" and "fd_get sock = Inr n"
    and "st_addresses s er = Some ep"
  shows "async_read ss k lu fin fr br cond cb (c, s, w) = Inl Empty_call
    \<and> async_write ss k lu fin fr br cond cb (c, s, w) = Inl Empty_call
    \<and> async_connect k lu fin sr er cb (c, s, w) = Inl Empty_call
    \<and> async_accept k lu fin sr cb (c, s, w) = Inl Empty_call
    \<and> async_accept_address k lu fin heap sr er cb (c, s, w) = Inl Empty_call"
proof -
  have full: "add_sqe_cb k lu sqe cl c w = Inr (Inl (as_ec ENOBUFS), c, w1)" for sqe cl
    using assms(2-4) by (rule_tac add_sqe_cb_cases [of c lu w k sqe cl]) simp_all
  note io = async_io_run_queue_full [where cond = cond, OF assms(1,5,6,8,9,2,3,4), unfolded io_op_def op_create_def]
  show ?thesis
    using assms(5,7,10-13)
    by (simp add: async_read_def async_write_def async_io_start_def io async_connect_def async_accept_def
        async_accept_address_def accept_run_def async_syscall_connect_def async_syscall_accept_def full
        op_create_def op_yield_def op_complete_def call_callback_def)
qed

theorem async_queue_full_calls_empty_witness:
  "async_write plain_subspan failing_clinux (idle_liburing\<lparr>lu_get_sqe := (\<lambda>w. (None, w))\<rparr>) (\<lambda>cb r st. Inr st)
     (Fd_ref 4096) 16384 transfer_all_t ''handler'' (ready_context, demo_store, ()) = Inl Empty_call"
proof -
  have "transfer_all_t (buffer_size (Single \<lparr>b_data = 100, b_size = 7\<rparr>)) 0 \<noteq> 0"
    by code_simp
  with async_queue_full_calls_empty [of plain_subspan ready_context "idle_liburing\<lparr>lu_get_sqe := (\<lambda>w. (None, w))\<rparr>" "()" "()"
      demo_store "Fd_ref 4096" "Nonseekable (wrap_fd (Some 0) 5)" 0 16384 "Single \<lparr>b_data = 100, b_size = 7\<rparr>"
      transfer_all_t 4096 "wrap_fd (Some 0) 5" 0 5 32768 "family_create 2 (replicate 128 0)"
      failing_clinux "\<lambda>cb r st. Inr st" "''handler''"]
  show ?thesis
    by (simp add: unlocked_def ready_defs demo_store_def buffers_at_def socket_at_def get_context_def wrap_fd_sel
        wrap_fd_def fd_move_def fd_create_def set_async_context_def fd_get_def)
qed

end
