(* ===== verification/Ark_Coroutine.thy ===== *)
theory Ark_Coroutine
  imports Ark_Tcp
begin

text \<open>
  \<open>include/ark/coroutine\<close>, \<open>misc/manual_lifetime.hpp\<close>, \<open>misc/context_exit_guard.hpp\<close>, \<open>io/coro.hpp\<close> and
  \<open>net/tcp/coro.hpp\<close>: tasks, awaitable operations, and what the language does with them.

  A coroutine is a frame in the store: its promise, where it is suspended, and what remains of its
  body. The body of a coroutine function is a program of the users of the library, of type \<open>'b\<close>: from
  one suspension point it runs to the next and says what it does there, an \<open>action\<close>. A
  \<open>coroutine_handle\<close> is the address of a frame, a default constructed one is \<open>None\<close>.
  Resuming a coroutine runs it, and those it transfers control to, until one suspends without
  a transfer; these resumptions nest in the callbacks of operations that complete at once.
  \<open>co_resume\<close> has a bound on their number.
\<close>

section \<open>manual_lifetime\<close>

text \<open>
  Storage for an object whose lifetime is managed by hand. A moved-from object still has to be
  destroyed, without an effect. \<open>dtor\<close> is the destructor of the type.
\<close>

datatype 'v lifetime = No_object | Object 'v | Moved_from

definition lifetime_construct :: "'v \<Rightarrow> 'v lifetime \<Rightarrow> 'v lifetime" where
  "lifetime_construct v l = Object v"

definition lifetime_destruct :: "('v \<Rightarrow> 'w \<Rightarrow> 'w) \<Rightarrow> 'v lifetime \<Rightarrow> 'w \<Rightarrow> failure + 'v lifetime \<times> 'w" where
  "lifetime_destruct dtor l w =
     (case l of
        No_object \<Rightarrow> Inl Dangling_reference
      | Object v \<Rightarrow> Inr (No_object, dtor v w)
      | Moved_from \<Rightarrow> Inr (No_object, w))"

text \<open>
  \<open>T(move(value_).get())\<close>: the value is moved out. The code would move a second time from the object, whose value is then
  unspecified; the model makes that the failure \<open>No_value\<close>, so that a theorem that excludes failures also
  says that a value is taken at most once. A task is awaited once.
\<close>

definition lifetime_get :: "'v lifetime \<Rightarrow> failure + 'v \<times> 'v lifetime" where
  "lifetime_get l =
     (case l of
        No_object \<Rightarrow> Inl Dangling_reference
      | Object v \<Rightarrow> Inr (v, Moved_from)
      | Moved_from \<Rightarrow> Inl No_value)"

text \<open>The specialisations for references keep a pointer.\<close>

definition lifetime_ref_construct :: "addr \<Rightarrow> addr option \<Rightarrow> addr option" where
  "lifetime_ref_construct a p = Some a"

definition lifetime_ref_destruct :: "addr option \<Rightarrow> addr option" where
  "lifetime_ref_destruct p = None"

definition lifetime_ref_get :: "addr option \<Rightarrow> failure + addr" where
  "lifetime_ref_get p = (case p of None \<Rightarrow> Inl Null_deref | Some a \<Rightarrow> Inr a)"

section \<open>Promises\<close>

datatype state_t = State_empty | State_value

record 'v task_promise =
  pr_continuation :: "addr option"
  pr_state :: state_t
  pr_value :: "'v lifetime"

definition promise_create :: "'v task_promise" where
  "promise_create = \<lparr>pr_continuation = None, pr_state = State_empty, pr_value = No_object\<rparr>"

definition promise_clear ::
  "('v \<Rightarrow> 'w \<Rightarrow> 'w) \<Rightarrow> 'v task_promise \<Rightarrow> 'w \<Rightarrow> failure + 'v task_promise \<times> 'w"
where
  "promise_clear dtor p w =
     (let p' = p\<lparr>pr_state := State_empty\<rparr> in
      case pr_state p of
        State_empty \<Rightarrow> Inr (p', w)
      | State_value \<Rightarrow>
          (case lifetime_destruct dtor (pr_value p') w of
             Inl e \<Rightarrow> Inl e
           | Inr (l, w') \<Rightarrow> Inr (p'\<lparr>pr_value := l\<rparr>, w')))"

definition promise_return_value ::
  "('v \<Rightarrow> 'w \<Rightarrow> 'w) \<Rightarrow> 'v \<Rightarrow> 'v task_promise \<Rightarrow> 'w \<Rightarrow> failure + 'v task_promise \<times> 'w"
where
  "promise_return_value dtor v p w =
     (case promise_clear dtor p w of
        Inl e \<Rightarrow> Inl e
      | Inr (p', w') \<Rightarrow> Inr (p'\<lparr>pr_value := lifetime_construct v (pr_value p'), pr_state := State_value\<rparr>, w'))"

definition promise_get :: "'v task_promise \<Rightarrow> failure + 'v \<times> 'v task_promise" where
  "promise_get p = (case lifetime_get (pr_value p) of Inl e \<Rightarrow> Inl e | Inr (v, l) \<Rightarrow> Inr (v, p\<lparr>pr_value := l\<rparr>))"

definition promise_destroy ::
  "('v \<Rightarrow> 'w \<Rightarrow> 'w) \<Rightarrow> 'v task_promise \<Rightarrow> 'w \<Rightarrow> failure + 'w"
where
  "promise_destroy dtor p w = (case promise_clear dtor p w of Inl e \<Rightarrow> Inl e | Inr (p', w') \<Rightarrow> Inr w')"

text \<open>\<open>task_promise<void>\<close>; a \<open>manual_lifetime<void>\<close> holds nothing.\<close>

record void_promise =
  vp_continuation :: "addr option"
  vp_state :: state_t

definition void_promise_create :: void_promise where
  "void_promise_create = \<lparr>vp_continuation = None, vp_state = State_empty\<rparr>"

definition void_promise_clear :: "void_promise \<Rightarrow> void_promise" where
  "void_promise_clear p = p\<lparr>vp_state := State_empty\<rparr>"

definition void_promise_return_void :: "void_promise \<Rightarrow> void_promise" where
  "void_promise_return_void p = (void_promise_clear p)\<lparr>vp_state := State_value\<rparr>"

section \<open>Awaitable operations\<close>

text \<open>The structs derived from \<open>awaitable_op\<close>, with the references they keep.\<close>

datatype awaitable_kind =
    Read_awaitable fd_ref addr "size_t \<Rightarrow> size_t \<Rightarrow> size_t"
  | Write_awaitable fd_ref addr "size_t \<Rightarrow> size_t \<Rightarrow> size_t"
  | Connect_awaitable addr addr
  | Accept_with_ep_awaitable addr addr
  | Accept_awaitable addr

record awaitable_op =
  aw_kind :: awaitable_kind
  aw_ret :: "completion option"

definition awaitable_create :: "awaitable_kind \<Rightarrow> awaitable_op" where
  "awaitable_create aw = \<lparr>aw_kind = aw, aw_ret = None\<rparr>"

definition coro_read :: "fd_ref \<Rightarrow> addr \<Rightarrow> completion_fun \<Rightarrow> awaitable_op" where
  "coro_read f b cond = awaitable_create (Read_awaitable f b cond)"

definition coro_read_all :: "fd_ref \<Rightarrow> addr \<Rightarrow> awaitable_op" where
  "coro_read_all f b = awaitable_create (Read_awaitable f b transfer_all_t)"

definition coro_write :: "fd_ref \<Rightarrow> addr \<Rightarrow> completion_fun \<Rightarrow> awaitable_op" where
  "coro_write f b cond = awaitable_create (Write_awaitable f b cond)"

definition coro_write_all :: "fd_ref \<Rightarrow> addr \<Rightarrow> awaitable_op" where
  "coro_write_all f b = awaitable_create (Write_awaitable f b transfer_all_t)"

definition coro_connect :: "addr \<Rightarrow> addr \<Rightarrow> awaitable_op" where
  "coro_connect f endpoint = awaitable_create (Connect_awaitable f endpoint)"

definition coro_accept_address :: "addr \<Rightarrow> addr \<Rightarrow> awaitable_op" where
  "coro_accept_address srv endpoint = awaitable_create (Accept_with_ep_awaitable srv endpoint)"

definition coro_accept :: "addr \<Rightarrow> awaitable_op" where
  "coro_accept srv = awaitable_create (Accept_awaitable srv)"

text \<open>\<open>invoke\<close>; \<open>heap\<close> is where \<open>make_unique\<close> puts the locals of an accept.\<close>

definition awaitable_invoke ::
  "subspan_t \<Rightarrow> ('w, 'z) clinux_scheme \<Rightarrow> 'w liburing \<Rightarrow> addr \<Rightarrow> ('f, 'x, 'w) final_callback
   \<Rightarrow> awaitable_kind \<Rightarrow> 'f \<Rightarrow> ('f, 'x, 'w) async_state \<Rightarrow> failure + ('f, 'x, 'w) async_state"
where
  "awaitable_invoke ss k lu heap fin aw cb st =
     (case aw of
        Read_awaitable f b cond \<Rightarrow> async_read ss k lu fin f b cond cb st
      | Write_awaitable f b cond \<Rightarrow> async_write ss k lu fin f b cond cb st
      | Connect_awaitable f endpoint \<Rightarrow> async_connect k lu fin f endpoint cb st
      | Accept_with_ep_awaitable srv endpoint \<Rightarrow> async_accept_address k lu fin heap srv endpoint cb st
      | Accept_awaitable srv \<Rightarrow> async_accept k lu fin srv cb st)"

definition op_await_ready :: "awaitable_op \<Rightarrow> bool" where
  "op_await_ready aw \<longleftrightarrow> aw_ret aw \<noteq> None"

definition op_await_resume :: "awaitable_op \<Rightarrow> failure + completion" where
  "op_await_resume aw = (case aw_ret aw of None \<Rightarrow> Inl No_value | Some r \<Rightarrow> Inr r)"

section \<open>Frames\<close>

text \<open>
  The body of the coroutine lambda of \<open>co_async\<close>, before and after its \<open>co_await\<close>, and those of
  the users. \<open>Co_async_start fut tsk\<close> holds the shared state of the \<open>std::promise\<close> and the task.
\<close>

datatype 'b coroutine =
    Co_async_start addr addr
  | Co_async_await addr addr
  | Co_async_end addr
  | User_body 'b

datatype 'v promise =
    Task_promise "'v task_promise"
  | Void_promise void_promise
  | Fire_and_forget

datatype suspension =
    At_start
  | At_op awaitable_op
  | At_task addr
  | Going_on
  | Running
  | At_final

record ('b, 'v) frame =
  fr_promise :: "'v promise"
  fr_body :: "'b coroutine"
  fr_at :: suspension
  fr_awaits :: nat

text \<open>
  The store of a program with coroutines. A future is the shared state of a
  \<open>std::promise\<close>, empty until \<open>set_value\<close>; \<open>co_stdout\<close> and \<open>co_stderr\<close> are what \<open>std::cout\<close>
  and \<open>std::cerr\<close> were given.
\<close>

record ('b, 'v) co_store = io_store +
  co_frames :: "addr \<rightharpoonup> ('b, 'v) frame"
  co_futures :: "addr \<rightharpoonup> 'v option"
  co_stdout :: "byte list"
  co_stderr :: "byte list"

text \<open>
  The lambda \<open>[ch, this]\<close> of \<open>await_suspend\<close>. The awaitable is a temporary in the frame of \<open>ch\<close>, the
  one of its \<open>n\<close>th \<open>co_await\<close>; \<open>fr_awaits\<close> counts them.
\<close>

datatype co_callback = Resume_op addr nat

type_synonym ('b, 'v, 'w) co_state = "(co_callback, ('b, 'v, unit) co_store_ext, 'w) async_state"

text \<open>Objects with a destructor that a coroutine owns, in its frame or as temporaries.\<close>

datatype owned =
    Fd_at addr
  | Seekable_at addr
  | Buffers_at addr
  | Address_at addr
  | Task_at addr
  | Exit_guard

text \<open>What the awaited expression gives when a coroutine goes on.\<close>

datatype 'v awaited = Nothing_awaited | Op_value completion | Task_value 'v | Task_void

datatype ('b, 'v) action =
    Await_op awaitable_op 'b
  | Await_task addr 'b
  | Call_co_async addr 'b
  | Destroy "owned list" 'b
  | Return_value 'v "owned list" 'b
  | Return_void "owned list" 'b

text \<open>
  A program: the parameters of the library, \<open>operator new\<close> (the address of a new object), the
  destructor of the values of its tasks, the value that stands for \<open>void\<close> in a future, and its coroutine functions: what a body does from a
  suspension point on, with the address of its frame; the local objects alive there; and
  the parameters of the function, which live as long as the frame. A \<open>co_return\<close> lists the
  local objects in scope, which are destroyed when the value has been returned.
\<close>

record ('b, 'v, 'w) co_program =
  p_subspan :: subspan_t
  p_clinux :: "'w clinux"
  p_liburing :: "'w liburing"
  p_new :: "('b, 'v) co_store \<Rightarrow> addr"
  p_dtor :: "'v \<Rightarrow> 'w \<Rightarrow> 'w"
  p_void :: 'v
  p_body :: "addr \<Rightarrow> 'b \<Rightarrow> 'v awaited \<Rightarrow> ('b, 'v, 'w) co_state \<Rightarrow> failure + ('b, 'v) action \<times> ('b, 'v, 'w) co_state"
  p_locals :: "addr \<Rightarrow> 'b \<Rightarrow> owned list"
  p_params :: "addr \<Rightarrow> 'b \<Rightarrow> owned list"

definition set_frame :: "addr \<Rightarrow> ('b, 'v) frame \<Rightarrow> ('b, 'v) co_store \<Rightarrow> ('b, 'v) co_store" where
  "set_frame h fr s = s\<lparr>co_frames := (co_frames s)(h \<mapsto> fr)\<rparr>"

text \<open>
  The call of a coroutine function: the frame is allocated, the promise constructed,
  \<open>get_return_object\<close> gives the caller a task with the handle, and \<open>suspend_always\<close> returns.
\<close>

definition task_create ::
  "(('b, 'v) co_store \<Rightarrow> addr) \<Rightarrow> 'v promise \<Rightarrow> 'b \<Rightarrow> ('b, 'v) co_store \<Rightarrow> addr \<times> ('b, 'v) co_store"
where
  "task_create new pr b s =
     (let h = new s in (h, set_frame h \<lparr>fr_promise = pr, fr_body = User_body b, fr_at = At_start, fr_awaits = 0\<rparr> s))"

text \<open>Moving a task leaves it empty; the destructor of an empty one does nothing.\<close>

definition task_move :: "addr option \<Rightarrow> addr option \<times> addr option" where
  "task_move t = (t, None)"

section \<open>Destruction\<close>

fun destroy_all :: "('o \<Rightarrow> 'st \<Rightarrow> failure + 'st) \<Rightarrow> 'o list \<Rightarrow> 'st \<Rightarrow> failure + 'st" where
  "destroy_all destroy [] st = Inr st"
| "destroy_all destroy (ow # os) st = (case destroy ow st of Inl e \<Rightarrow> Inl e | Inr st' \<Rightarrow> destroy_all destroy os st')"

text \<open>One object; \<open>destroy_task\<close> destroys a coroutine. The exit guard calls \<open>exit\<close> of the context.\<close>

definition destroy_owned ::
  "'w clinux \<Rightarrow> (addr \<Rightarrow> ('b, 'v, 'w) co_state \<Rightarrow> failure + ('b, 'v, 'w) co_state) \<Rightarrow> owned
   \<Rightarrow> ('b, 'v, 'w) co_state \<Rightarrow> failure + ('b, 'v, 'w) co_state"
where
  "destroy_owned k destroy_task ow st =
     (case st of (c, s, w) \<Rightarrow>
      case ow of
        Fd_at a \<Rightarrow>
          (case st_fds s a of
             None \<Rightarrow> Inl Dangling_reference
           | Some f \<Rightarrow> Inr (c, s\<lparr>st_fds := (st_fds s)(a := None)\<rparr>, fd_destroy k f w))
      | Seekable_at a \<Rightarrow>
          (case st_seekables s a of
             None \<Rightarrow> Inl Dangling_reference
           | Some f \<Rightarrow> Inr (c, s\<lparr>st_seekables := (st_seekables s)(a := None)\<rparr>, seekable_destroy k f w))
      | Buffers_at a \<Rightarrow> Inr (c, s\<lparr>st_buffers := (st_buffers s)(a := None)\<rparr>, w)
      | Address_at a \<Rightarrow> Inr (c, s\<lparr>st_addresses := (st_addresses s)(a := None)\<rparr>, w)
      | Task_at h \<Rightarrow> destroy_task h st
      | Exit_guard \<Rightarrow> (case context_exit k c w of Inl e \<Rightarrow> Inl e | Inr (c', w') \<Rightarrow> Inr (c', s, w')))"

definition body_locals :: "('b, 'v, 'w) co_program \<Rightarrow> addr \<Rightarrow> 'b coroutine \<Rightarrow> owned list" where
  "body_locals P h b = (case b of User_body u \<Rightarrow> p_locals P h u | _ \<Rightarrow> [])"

definition body_params :: "('b, 'v, 'w) co_program \<Rightarrow> addr \<Rightarrow> 'b coroutine \<Rightarrow> owned list" where
  "body_params P h b =
     (case b of
        User_body u \<Rightarrow> p_params P h u
      | Co_async_start fut t \<Rightarrow> [Task_at t]
      | Co_async_await fut t \<Rightarrow> [Task_at t]
      | Co_async_end t \<Rightarrow> [Task_at t])"

definition frame_promise_destroy :: "('v \<Rightarrow> 'w \<Rightarrow> 'w) \<Rightarrow> 'v promise \<Rightarrow> 'w \<Rightarrow> failure + 'w" where
  "frame_promise_destroy dtor pr w =
     (case pr of Task_promise p \<Rightarrow> promise_destroy dtor p w | _ \<Rightarrow> Inr w)"

fun is_running :: "suspension \<Rightarrow> bool" where
  "is_running Running = True"
| "is_running Going_on = True"
| "is_running _ = False"

fun has_locals :: "suspension \<Rightarrow> bool" where
  "has_locals At_start = False"
| "has_locals At_final = False"
| "has_locals _ = True"

text \<open>
  \<open>coro_.destroy()\<close>: the locals alive at the suspension point, the promise, the parameters; a
  task destroys the coroutine it owns. Destroying one that is running is undefined.
\<close>

definition destroy_frame ::
  "('b, 'v, 'w) co_program \<Rightarrow> (addr \<Rightarrow> ('b, 'v, 'w) co_state \<Rightarrow> failure + ('b, 'v, 'w) co_state) \<Rightarrow> addr
   \<Rightarrow> ('b, 'v, 'w) co_state \<Rightarrow> failure + ('b, 'v, 'w) co_state"
where
  "destroy_frame P destroy_task h st =
     (case co_frames (fst (snd st)) h of
        None \<Rightarrow> Inl Dangling_reference
      | Some fr \<Rightarrow>
          (if is_running (fr_at fr) then Inl Dangling_reference
           else case destroy_all (destroy_owned (p_clinux P) destroy_task)
                       (if has_locals (fr_at fr) then body_locals P h (fr_body fr) else []) st of
             Inl e \<Rightarrow> Inl e
           | Inr (c, s, w) \<Rightarrow>
               (case frame_promise_destroy (p_dtor P) (fr_promise fr) w of
                  Inl e \<Rightarrow> Inl e
                | Inr w' \<Rightarrow>
                    (case destroy_all (destroy_owned (p_clinux P) destroy_task) (body_params P h (fr_body fr)) (c, s, w') of
                       Inl e \<Rightarrow> Inl e
                     | Inr (c', s', w'') \<Rightarrow> Inr (c', s'\<lparr>co_frames := (co_frames s')(h := None)\<rparr>, w'')))))"

primrec co_destroy ::
  "('b, 'v, 'w) co_program \<Rightarrow> nat \<Rightarrow> addr \<Rightarrow> ('b, 'v, 'w) co_state \<Rightarrow> failure + ('b, 'v, 'w) co_state"
where
  "co_destroy P 0 h st = Inl Out_of_fuel"
| "co_destroy P (Suc n) h st = destroy_frame P (co_destroy P n) h st"

text \<open>\<open>~task\<close>.\<close>

definition task_destroy ::
  "('b, 'v, 'w) co_program \<Rightarrow> nat \<Rightarrow> addr option \<Rightarrow> ('b, 'v, 'w) co_state \<Rightarrow> failure + ('b, 'v, 'w) co_state"
where
  "task_destroy P n t st = (case t of None \<Rightarrow> Inr st | Some h \<Rightarrow> co_destroy P n h st)"

section \<open>Running coroutines\<close>

text \<open>The awaiter of a task: \<open>await_suspend\<close> and \<open>await_resume\<close>. A \<open>fire_and_forget\<close> has none.\<close>

definition task_await_suspend :: "addr \<Rightarrow> 'v promise \<Rightarrow> failure + 'v promise" where
  "task_await_suspend h pr =
     (case pr of
        Task_promise p \<Rightarrow> Inr (Task_promise (p\<lparr>pr_continuation := Some h\<rparr>))
      | Void_promise p \<Rightarrow> Inr (Void_promise (p\<lparr>vp_continuation := Some h\<rparr>))
      | Fire_and_forget \<Rightarrow> Inl Null_deref)"

definition task_await_resume :: "'v promise \<Rightarrow> failure + 'v awaited \<times> 'v promise" where
  "task_await_resume pr =
     (case pr of
        Task_promise p \<Rightarrow> (case promise_get p of Inl e \<Rightarrow> Inl e | Inr (v, p') \<Rightarrow> Inr (Task_value v, Task_promise p'))
      | Void_promise p \<Rightarrow> Inr (Task_void, pr)
      | Fire_and_forget \<Rightarrow> Inl Null_deref)"

text \<open>What a resumed coroutine gets, and the store after it took it.\<close>

definition frame_await_resume ::
  "('b, 'v) frame \<Rightarrow> ('b, 'v) co_store \<Rightarrow> failure + 'v awaited \<times> ('b, 'v) co_store"
where
  "frame_await_resume fr s =
     (case fr_at fr of
        At_start \<Rightarrow> Inr (Nothing_awaited, s)
      | Going_on \<Rightarrow> Inr (Nothing_awaited, s)
      | At_op aw \<Rightarrow> (case op_await_resume aw of Inl e \<Rightarrow> Inl e | Inr r \<Rightarrow> Inr (Op_value r, s))
      | At_task t \<Rightarrow>
          (case co_frames s t of
             None \<Rightarrow> Inl Dangling_reference
           | Some tf \<Rightarrow>
               (case task_await_resume (fr_promise tf) of
                  Inl e \<Rightarrow> Inl e
                | Inr (v, pr) \<Rightarrow> Inr (v, set_frame t (tf\<lparr>fr_promise := pr\<rparr>) s)))
      | Running \<Rightarrow> Inl Dangling_reference
      | At_final \<Rightarrow> Inl Dangling_reference)"

text \<open>
  The segments of the lambda of \<open>co_async\<close>: \<open>prom_.set_value(co_await move(tsk))\<close>. A second
  \<open>set_value\<close> throws, and \<open>unhandled_exception\<close> terminates.
\<close>

definition future_set_value :: "addr \<Rightarrow> 'v \<Rightarrow> ('b, 'v) co_store \<Rightarrow> failure + ('b, 'v) co_store" where
  "future_set_value fut v s =
     (case co_futures s fut of
        Some None \<Rightarrow> Inr (s\<lparr>co_futures := (co_futures s)(fut \<mapsto> Some v)\<rparr>)
      | Some (Some u) \<Rightarrow> Inl Aborted
      | None \<Rightarrow> Inl Aborted)"

definition co_async_body ::
  "'v \<Rightarrow> 'b coroutine \<Rightarrow> 'v awaited \<Rightarrow> ('b, 'v, 'w) co_state \<Rightarrow> failure + ('b coroutine, 'v) action \<times> ('b, 'v, 'w) co_state"
where
  "co_async_body void b v st =
     (case (b, v) of
        (Co_async_start fut t, _) \<Rightarrow> Inr (Await_task t (Co_async_await fut t), st)
      | (Co_async_await fut t, Task_value x) \<Rightarrow>
          (case st of (c, s, w) \<Rightarrow>
             (case future_set_value fut x s of Inl e \<Rightarrow> Inl e | Inr s' \<Rightarrow> Inr (Return_void [] (Co_async_end t), c, s', w)))
      | (Co_async_await fut t, Task_void) \<Rightarrow>
          (case st of (c, s, w) \<Rightarrow>
             (case future_set_value fut void s of Inl e \<Rightarrow> Inl e | Inr s' \<Rightarrow> Inr (Return_void [] (Co_async_end t), c, s', w)))
      | _ \<Rightarrow> Inl No_value)"

fun action_of :: "('b, 'v) action \<Rightarrow> ('b coroutine, 'v) action" where
  "action_of (Await_op aw b) = Await_op aw (User_body b)"
| "action_of (Await_task h b) = Await_task h (User_body b)"
| "action_of (Call_co_async h b) = Call_co_async h (User_body b)"
| "action_of (Destroy os b) = Destroy os (User_body b)"
| "action_of (Return_value v os b) = Return_value v os (User_body b)"
| "action_of (Return_void os b) = Return_void os (User_body b)"

definition body_run ::
  "('b, 'v, 'w) co_program \<Rightarrow> addr \<Rightarrow> 'b coroutine \<Rightarrow> 'v awaited \<Rightarrow> ('b, 'v, 'w) co_state
   \<Rightarrow> failure + ('b coroutine, 'v) action \<times> ('b, 'v, 'w) co_state"
where
  "body_run P h b v st =
     (case b of
        User_body u \<Rightarrow> (case p_body P h u v st of Inl e \<Rightarrow> Inl e | Inr (act, st') \<Rightarrow> Inr (action_of act, st'))
      | _ \<Rightarrow> co_async_body (p_void P) b v st)"

text \<open>
  The body of the lambda \<open>[ch, this]\<close>: store the result in the awaitable, which must still
  exist, and resume.
\<close>

definition resume_callback ::
  "(addr \<Rightarrow> ('b, 'v, 'w) co_state \<Rightarrow> failure + ('b, 'v, 'w) co_state) \<Rightarrow> (co_callback, ('b, 'v, unit) co_store_ext, 'w) final_callback"
where
  "resume_callback resume cb r st =
     (case cb of Resume_op h n \<Rightarrow>
      case st of (c, s, w) \<Rightarrow>
      case co_frames s h of
        None \<Rightarrow> Inl Dangling_reference
      | Some fr \<Rightarrow>
          (case fr_at fr of
             At_op aw \<Rightarrow>
               (if fr_awaits fr = n then resume h (c, set_frame h (fr\<lparr>fr_at := At_op (aw\<lparr>aw_ret := Some r\<rparr>)\<rparr>) s, w)
                else Inl Dangling_reference)
           | _ \<Rightarrow> Inl Dangling_reference))"

text \<open>
  \<open>co_async\<close>: the promise and its future, and the coroutine of the lambda, which starts at once
  (\<open>suspend_never\<close>). Returns the future.
\<close>

definition co_async ::
  "('b, 'v, 'w) co_program \<Rightarrow> (addr \<Rightarrow> ('b, 'v, 'w) co_state \<Rightarrow> failure + ('b, 'v, 'w) co_state) \<Rightarrow> addr
   \<Rightarrow> ('b, 'v, 'w) co_state \<Rightarrow> failure + addr \<times> ('b, 'v, 'w) co_state"
where
  "co_async P resume t st =
     (case st of (c, s, w) \<Rightarrow>
      let fut = p_new P s;
          s1 = s\<lparr>co_futures := (co_futures s)(fut \<mapsto> None)\<rparr>;
          h = p_new P s1;
          s2 = set_frame h \<lparr>fr_promise = Fire_and_forget, fr_body = Co_async_start fut t, fr_at = At_start, fr_awaits = 0\<rparr> s1
      in case resume h (c, s2, w) of Inl e \<Rightarrow> Inl e | Inr st' \<Rightarrow> Inr (fut, st'))"

text \<open>
  \<open>co_return\<close>, once the promise has the value: the local objects are destroyed, then
  \<open>final_suspend\<close> resumes the continuation or, in a \<open>fire_and_forget\<close>, does not suspend, so
  that the frame is destroyed.
\<close>

definition co_finish ::
  "('b, 'v, 'w) co_program \<Rightarrow> nat \<Rightarrow> (addr \<Rightarrow> ('b, 'v, 'w) co_state \<Rightarrow> failure + ('b, 'v, 'w) co_state) \<Rightarrow> addr
   \<Rightarrow> ('b, 'v) frame \<Rightarrow> owned list \<Rightarrow> ('b, 'v, 'w) co_state \<Rightarrow> failure + ('b, 'v, 'w) co_state"
where
  "co_finish P n resume h fr os st =
     (case destroy_all (destroy_owned (p_clinux P) (co_destroy P n)) os st of
        Inl e \<Rightarrow> Inl e
      | Inr (c, s, w) \<Rightarrow>
          (let st' = (c, set_frame h (fr\<lparr>fr_at := At_final\<rparr>) s, w) in
           case (case fr_promise fr of
                   Task_promise p \<Rightarrow> Some (pr_continuation p)
                 | Void_promise p \<Rightarrow> Some (vp_continuation p)
                 | Fire_and_forget \<Rightarrow> None) of
             None \<Rightarrow> co_destroy P n h st'
           | Some None \<Rightarrow> Inl Null_deref
           | Some (Some h') \<Rightarrow> resume h' st'))"

text \<open>What happens at a suspension point.\<close>

definition co_act ::
  "('b, 'v, 'w) co_program \<Rightarrow> nat \<Rightarrow> (addr \<Rightarrow> ('b, 'v, 'w) co_state \<Rightarrow> failure + ('b, 'v, 'w) co_state) \<Rightarrow> addr
   \<Rightarrow> ('b, 'v) frame \<Rightarrow> ('b coroutine, 'v) action \<Rightarrow> ('b, 'v, 'w) co_state \<Rightarrow> failure + ('b, 'v, 'w) co_state"
where
  "co_act P n resume h fr act st =
     (case st of (c, s, w) \<Rightarrow>
      case act of
        Await_op aw b \<Rightarrow>
          (let n' = Suc (fr_awaits fr);
               st' = (c, set_frame h (fr\<lparr>fr_body := b, fr_at := At_op aw, fr_awaits := n'\<rparr>) s, w) in
           if op_await_ready aw then resume h st'
           else awaitable_invoke (p_subspan P) (p_clinux P) (p_liburing P) (p_new P (fst (snd st')))
                  (resume_callback resume) (aw_kind aw) (Resume_op h n') st')
      | Await_task t b \<Rightarrow>
          (let s' = set_frame h (fr\<lparr>fr_body := b, fr_at := At_task t\<rparr>) s in
           case co_frames s' t of
             None \<Rightarrow> Inl Dangling_reference
           | Some tf \<Rightarrow>
               (case task_await_suspend h (fr_promise tf) of
                  Inl e \<Rightarrow> Inl e
                | Inr pr \<Rightarrow> resume t (c, set_frame t (tf\<lparr>fr_promise := pr\<rparr>) s', w)))
      | Call_co_async t b \<Rightarrow>
          (case co_async P resume t (c, set_frame h (fr\<lparr>fr_body := b, fr_at := Going_on\<rparr>) s, w) of
             Inl e \<Rightarrow> Inl e
           | Inr (fut, st') \<Rightarrow> resume h st')
      | Destroy os b \<Rightarrow>
          (case destroy_all (destroy_owned (p_clinux P) (co_destroy P n)) os
                  (c, set_frame h (fr\<lparr>fr_body := b, fr_at := Going_on\<rparr>) s, w) of
             Inl e \<Rightarrow> Inl e
           | Inr st' \<Rightarrow> resume h st')
      | Return_value v os b \<Rightarrow>
          (case fr_promise fr of
             Task_promise p \<Rightarrow>
               (case promise_return_value (p_dtor P) v p w of
                  Inl e \<Rightarrow> Inl e
                | Inr (p', w') \<Rightarrow> co_finish P n resume h (fr\<lparr>fr_promise := Task_promise p', fr_body := b\<rparr>) os (c, s, w'))
           | _ \<Rightarrow> Inl No_value)
      | Return_void os b \<Rightarrow>
          (case fr_promise fr of
             Task_promise p \<Rightarrow> Inl No_value
           | Void_promise p \<Rightarrow>
               co_finish P n resume h (fr\<lparr>fr_promise := Void_promise (void_promise_return_void p), fr_body := b\<rparr>) os st
           | Fire_and_forget \<Rightarrow> co_finish P n resume h (fr\<lparr>fr_body := b\<rparr>) os st))"

definition co_step ::
  "('b, 'v, 'w) co_program \<Rightarrow> nat \<Rightarrow> (addr \<Rightarrow> ('b, 'v, 'w) co_state \<Rightarrow> failure + ('b, 'v, 'w) co_state) \<Rightarrow> addr
   \<Rightarrow> ('b, 'v, 'w) co_state \<Rightarrow> failure + ('b, 'v, 'w) co_state"
where
  "co_step P n resume h st =
     (case st of (c, s, w) \<Rightarrow>
      case co_frames s h of
        None \<Rightarrow> Inl Dangling_reference
      | Some fr \<Rightarrow>
          (case frame_await_resume fr s of
             Inl e \<Rightarrow> Inl e
           | Inr (v, s') \<Rightarrow>
               (let fr' = fr\<lparr>fr_at := Running\<rparr> in
                case body_run P h (fr_body fr) v (c, set_frame h fr' s', w) of
                  Inl e \<Rightarrow> Inl e
                | Inr (act, st') \<Rightarrow> co_act P n resume h fr' act st')))"

primrec co_resume ::
  "('b, 'v, 'w) co_program \<Rightarrow> nat \<Rightarrow> addr \<Rightarrow> ('b, 'v, 'w) co_state \<Rightarrow> failure + ('b, 'v, 'w) co_state"
where
  "co_resume P 0 h st = Inl Out_of_fuel"
| "co_resume P (Suc n) h st = co_step P n (co_resume P n) h st"

text \<open>The callbacks of a program with coroutines, as the event loop runs them.\<close>

definition co_run_closure ::
  "('b, 'v, 'w) co_program \<Rightarrow> nat \<Rightarrow> co_callback closure \<Rightarrow> int result \<Rightarrow> ('b, 'v, 'w) co_state
   \<Rightarrow> failure + ('b, 'v, 'w) co_state"
where
  "co_run_closure P n = run_closure (p_subspan P) (p_clinux P) (p_liburing P) (resume_callback (co_resume P n))"

end
