(* ===== verification/Ark_Examples.thy ===== *)
theory Ark_Examples
  imports Ark_Sync_IO Ark_Tcp
begin

text \<open>
  The programs \<open>examples/sync_cat.cpp\<close> and \<open>examples/sync_echo_server.cpp\<close>, built on the
  blocking transfers: they copy what they read, a buffer at a time, to the standard output or
  back to the peer. Their loops are partial functions. The buffer is an array of 1024 bytes at
  an address \<open>buf\<close> on the stack; the lines written to the standard output are collected.
\<close>

section \<open>The buffer\<close>

definition buf_1024 :: "addr \<Rightarrow> container" where
  "buf_1024 buf = \<lparr>c_begin = buf, c_count = 1024, c_elem_size = 1\<rparr>"

section \<open>sync_cat\<close>

text \<open>
  The loop over one file: \<open>memory\<close> reads the bytes of the buffer that \<open>std::cout.write\<close> takes,
  \<open>out\<close> are the bytes written so far.
\<close>

partial_function (option) cat_loop ::
  "subspan_t \<Rightarrow> ('w, 'z) clinux_scheme \<Rightarrow> ('w \<Rightarrow> mem) \<Rightarrow> addr \<Rightarrow> io_fd \<Rightarrow> 'w \<Rightarrow> byte list
   \<Rightarrow> (failure + unit result \<times> io_fd \<times> 'w \<times> byte list) option"
where
  "cat_loop ss k memory buf f w out =
     Option.bind (sync_read ss k f (Single (buffer_of_data (buf_1024 buf))) (transfer_at_least_t 1) w)
       (\<lambda>r. case r of
          Inl e \<Rightarrow> Some (Inl e)
        | Inr (Inl ec, f', w') \<Rightarrow> Some (Inr (Inl ec, f', w', out))
        | Inr (Inr sz, f', w') \<Rightarrow>
            (if sz = 0 then Some (Inr (Inr (), f', w', out))
             else cat_loop ss k memory buf f' w' (out @ map (memory w') (addr_range buf (unat sz)))))"

text \<open>\<open>run\<close>: the files in order; the file object of an iteration is destroyed at its end.\<close>

fun sync_cat ::
  "subspan_t \<Rightarrow> ('w, 'z) clinux_scheme \<Rightarrow> ('w \<Rightarrow> mem) \<Rightarrow> addr \<Rightarrow> string list \<Rightarrow> 'w \<Rightarrow> byte list
   \<Rightarrow> (failure + unit result \<times> 'w \<times> byte list) option"
where
  "sync_cat ss k memory buf [] w out = Some (Inr (Inr (), w, out))"
| "sync_cat ss k memory buf (path # paths) w out =
     (case normal_file_open k None path 0 w of
        (Inl ec, w1) \<Rightarrow> Some (Inr (Inl ec, w1, out))
      | (Inr f, w1) \<Rightarrow>
          Option.bind (cat_loop ss k memory buf (Seekable f) w1 out)
            (\<lambda>r. case r of
               Inl e \<Rightarrow> Some (Inl e)
             | Inr (Inl ec, f', w2, out') \<Rightarrow> Some (Inr (Inl ec, io_destroy k f' w2, out'))
             | Inr (Inr u, f', w2, out') \<Rightarrow> sync_cat ss k memory buf paths (io_destroy k f' w2) out'))"

section \<open>sync_echo_server\<close>

text \<open>The inner loop: one connection.\<close>

partial_function (option) echo_conn ::
  "subspan_t \<Rightarrow> ('w, 'z) clinux_scheme \<Rightarrow> addr \<Rightarrow> io_fd \<Rightarrow> 'w \<Rightarrow> (failure + unit result \<times> io_fd \<times> 'w) option"
where
  "echo_conn ss k buf s w =
     Option.bind (sync_read ss k s (Single (buffer_of_data (buf_1024 buf))) (transfer_at_least_t 1) w)
       (\<lambda>r. case r of
          Inl e \<Rightarrow> Some (Inl e)
        | Inr (Inl ec, s', w') \<Rightarrow> Some (Inr (Inl ec, s', w'))
        | Inr (Inr sz, s', w') \<Rightarrow>
            (if sz = 0 then Some (Inr (Inr (), s', w'))
             else Option.bind (sync_write_all ss k s' (Single (buffer_of_data_n (buf_1024 buf) sz)) w')
               (\<lambda>r'. case r' of
                  Inl e \<Rightarrow> Some (Inl e)
                | Inr (Inl ec, s'', w'') \<Rightarrow> Some (Inr (Inl ec, s'', w''))
                | Inr (Inr n, s'', w'') \<Rightarrow> echo_conn ss k buf s'' w'')))"

text \<open>
  The outer loop: accept, print the peer, serve, print, destroy the socket. It is left only by
  an error, which \<open>run\<close> returns. \<open>raw\<close> are the indeterminate bytes of the new address.
\<close>

partial_function (option) echo_serve ::
  "subspan_t \<Rightarrow> ('w, 'z) net_clinux_scheme \<Rightarrow> inet_lib \<Rightarrow> addr \<Rightarrow> byte list \<Rightarrow> fd \<Rightarrow> 'w \<Rightarrow> string list
   \<Rightarrow> (failure + error_code \<times> 'w \<times> string list) option"
where
  "echo_serve ss k lib buf raw ac w out =
     (case sync_accept_address k ac (address_create raw) w of
        Inl e \<Rightarrow> Some (Inl e)
      | Inr (Inl ec, addr, w1) \<Rightarrow> Some (Inr (ec, w1, out))
      | Inr (Inr s, addr, w1) \<Rightarrow>
          (case inet_from_address addr of
             Inl e \<Rightarrow> Some (Inl e)
           | Inr (Inl ec) \<Rightarrow> Some (Inr (ec, fd_destroy k s w1, out))
           | Inr (Inr in_addr) \<Rightarrow>
               (case address_to_string lib in_addr of
                  Inl e \<Rightarrow> Some (Inl e)
                | Inr (Inl ec) \<Rightarrow> Some (Inr (ec, fd_destroy k s w1, out))
                | Inr (Inr in_addr_s) \<Rightarrow>
                    Option.bind (echo_conn ss k buf (Nonseekable s) w1)
                      (\<lambda>r. case r of
                         Inl e \<Rightarrow> Some (Inl e)
                       | Inr (Inl ec, s', w2) \<Rightarrow>
                           Some (Inr (ec, fd_destroy k s w2, out @ [''accepted connection from '' @ in_addr_s]))
                       | Inr (Inr u, s', w2) \<Rightarrow>
                           echo_serve ss k lib buf raw ac (fd_destroy k s w2)
                             (out @ [''accepted connection from '' @ in_addr_s, ''connection ended''])))))"

text \<open>\<open>run\<close>: listen on 127.0.0.1, port 8080, and serve; the acceptor is destroyed at the end.\<close>

definition echo_run ::
  "subspan_t \<Rightarrow> ('w, 'z) net_clinux_scheme \<Rightarrow> inet_lib \<Rightarrow> addr \<Rightarrow> byte list \<Rightarrow> 'w
   \<Rightarrow> (failure + error_code \<times> 'w \<times> string list) option"
where
  "echo_run ss k lib buf raw w =
     (case inet_set_host lib ''127.0.0.1'' (family_create AF_INET raw) of
        (Inl ec, ep) \<Rightarrow> Some (Inr (ec, w, []))
      | (Inr u, ep0) \<Rightarrow>
          (let ep = inet_set_port 8080 ep0 in
           case acceptor_create k None False w of
             (Inl ec, w1) \<Rightarrow> Some (Inr (ec, w1, []))
           | (Inr ac, w1) \<Rightarrow>
               (case tcp_bind k ac (to_address ep) w1 of
                  Inl e \<Rightarrow> Some (Inl e)
                | Inr (Inl ec, w2) \<Rightarrow> Some (Inr (ec, fd_destroy k ac w2, []))
                | Inr (Inr u, w2) \<Rightarrow>
                    (case tcp_listen_default k ac w2 of
                       Inl e \<Rightarrow> Some (Inl e)
                     | Inr (Inl ec, w3) \<Rightarrow> Some (Inr (ec, fd_destroy k ac w3, []))
                     | Inr (Inr u, w3) \<Rightarrow>
                         Option.bind (echo_serve ss k lib buf raw ac w3 [])
                           (\<lambda>r. case r of
                              Inl e \<Rightarrow> Some (Inl e)
                            | Inr (ec, w4, out) \<Rightarrow> Some (Inr (ec, fd_destroy k ac w4, out)))))))"

section \<open>The test of mem_fd\<close>

text \<open>
  \<open>tests/test_general.cpp\<close>: write the 5 bytes of the string \<open>data\<close> to a new \<open>mem_fd\<close>, seek back
  to the start and read into the array \<open>rd_buf\<close>. The result is that of \<open>EXPECT_EQ\<close>, which
  compares the two in memory; the \<open>mem_fd\<close> is destroyed on every way out.
\<close>

definition chars_5 :: "addr \<Rightarrow> container" where
  "chars_5 a = \<lparr>c_begin = a, c_count = 5, c_elem_size = 1\<rparr>"

definition test_mem_fd ::
  "subspan_t \<Rightarrow> ('w, 'z) clinux_scheme \<Rightarrow> ('w \<Rightarrow> mem) \<Rightarrow> addr \<Rightarrow> addr \<Rightarrow> 'w
   \<Rightarrow> (failure + bool result \<times> 'w) option"
where
  "test_mem_fd ss k memory data rd_buf w =
     (case mem_fd_create k None ''test_mfd'' 0 w of
        (Inl ec, w1) \<Rightarrow> Some (Inr (Inl ec, w1))
      | (Inr fd, w1) \<Rightarrow>
          Option.bind (sync_write_all ss k (Seekable fd) (Single (buffer_of_data (chars_5 data))) w1)
            (\<lambda>r. case r of
               Inl e \<Rightarrow> Some (Inl e)
             | Inr (Inl ec, f, w2) \<Rightarrow> Some (Inr (Inl ec, io_destroy k f w2))
             | Inr (Inr n, Nonseekable f, w2) \<Rightarrow> Some (Inl Dangling_reference)
             | Inr (Inr n, Seekable fd', w2) \<Rightarrow>
                 (case seekable_seek fd' 0 of
                    Inl e \<Rightarrow> Some (Inl e)
                  | Inr fd'' \<Rightarrow>
                      Option.bind (sync_read_all ss k (Seekable fd'') (Single (buffer_of_data (chars_5 rd_buf))) w2)
                        (\<lambda>r'. case r' of
                           Inl e \<Rightarrow> Some (Inl e)
                         | Inr (Inl ec, f, w3) \<Rightarrow> Some (Inr (Inl ec, io_destroy k f w3))
                         | Inr (Inr n, f, w3) \<Rightarrow>
                             Some (Inr (Inr (map (memory w3) (addr_range rd_buf 5) = map (memory w3) (addr_range data 5)),
                                        io_destroy k f w3))))))"

section \<open>Frames\<close>

text \<open>A part of the world the system calls of a transfer leave alone is left alone by it.\<close>

lemma sync_read_keeps:
  assumes "\<And>n iov w. view (snd (k_readv k n iov w)) = view w" "\<And>n iov off w. view (snd (k_preadv2 k n iov off 0 w)) = view w"
    and "sync_read ss k f b cond w = Some (Inr (out, f', w'))"
  shows "view w' = view w"
proof -
  have call: "view w1 = view w0" if "sync_read_call k f iov w0 = Inr (r, w1)" for f iov w0 r w1
    using that assms(1,2) by (auto simp: sync_read_call_def split: io_fd.splits sum.splits) (metis snd_conv)+
  have "k' = k \<longrightarrow> (\<forall>out f' w'. r = Inr (out, f', w') \<longrightarrow> view w' = view w)"
    if "sync_read_loop ss k' cond b f w d = Some r" for k' r ss cond b f w d
    using that
  proof (rule sync_read_loop.raw_induct [where P = "\<lambda>ss k' cond b f w d r.
        k' = k \<longrightarrow> (\<forall>out f' w'. r = Inr (out, f', w') \<longrightarrow> view w' = view w)", rotated])
    fix loop ss k' cond b f w d r
    assume ih: "\<And>ss k' cond b f w d r. loop ss k' cond b f w d = Some r \<Longrightarrow>
        k' = k \<longrightarrow> (\<forall>out f' w'. r = Inr (out, f', w') \<longrightarrow> view w' = view w)"
      and eq: "(let to_transfer_max = cond (buffer_size b) d in
        if to_transfer_max = 0 then Some (Inr (Inr d, f, w))
        else case to_iovecs ss b d to_transfer_max of
          Inl e \<Rightarrow> Some (Inl e)
        | Inr (reserved, iov) \<Rightarrow>
            (case sync_read_call k' f iov w of
               Inl e \<Rightarrow> Some (Inl e)
             | Inr (syscall_ret, w') \<Rightarrow>
                 (if syscall_ret = - 1 then Some (Inr (Inl (errno_ec k' w'), f, w'))
                  else if syscall_ret = 0 then Some (Inr (Inr d, f, w'))
                  else case io_feed f syscall_ret of
                    Inl e \<Rightarrow> Some (Inl e)
                  | Inr f' \<Rightarrow> loop ss k' cond b f' w' (d + word_of_int syscall_ret)))) = Some r"
    show "k' = k \<longrightarrow> (\<forall>out f' w'. r = Inr (out, f', w') \<longrightarrow> view w' = view w)"
      using eq by (auto simp: Let_def dest!: ih call split: if_splits sum.splits)
  qed
  then show ?thesis using assms(3) unfolding sync_read_def by blast
qed

lemma sync_write_keeps:
  assumes "\<And>n iov w. view (snd (k_writev k n iov w)) = view w" "\<And>n iov off w. view (snd (k_pwritev2 k n iov off 0 w)) = view w"
    and "sync_write ss k f b cond w = Some (Inr (out, f', w'))"
  shows "view w' = view w"
proof -
  have call: "view w1 = view w0" if "sync_write_call k f iov w0 = Inr (r, w1)" for f iov w0 r w1
    using that assms(1,2) by (auto simp: sync_write_call_def split: io_fd.splits sum.splits) (metis snd_conv)+
  have "k' = k \<longrightarrow> (\<forall>out f' w'. r = Inr (out, f', w') \<longrightarrow> view w' = view w)"
    if "sync_write_loop ss k' cond b f w d = Some r" for k' r ss cond b f w d
    using that
  proof (rule sync_write_loop.raw_induct [where P = "\<lambda>ss k' cond b f w d r.
        k' = k \<longrightarrow> (\<forall>out f' w'. r = Inr (out, f', w') \<longrightarrow> view w' = view w)", rotated])
    fix loop ss k' cond b f w d r
    assume ih: "\<And>ss k' cond b f w d r. loop ss k' cond b f w d = Some r \<Longrightarrow>
        k' = k \<longrightarrow> (\<forall>out f' w'. r = Inr (out, f', w') \<longrightarrow> view w' = view w)"
      and eq: "(let to_transfer_max = cond (buffer_size b) d in
        if to_transfer_max = 0 then Some (Inr (Inr d, f, w))
        else case to_iovecs ss b d to_transfer_max of
          Inl e \<Rightarrow> Some (Inl e)
        | Inr (reserved, iov) \<Rightarrow>
            (case sync_write_call k' f iov w of
               Inl e \<Rightarrow> Some (Inl e)
             | Inr (syscall_ret, w') \<Rightarrow>
                 (if syscall_ret = - 1 then Some (Inr (Inl (errno_ec k' w'), f, w'))
                  else case io_feed f syscall_ret of
                    Inl e \<Rightarrow> Some (Inl e)
                  | Inr f' \<Rightarrow> loop ss k' cond b f' w' (d + word_of_int syscall_ret)))) = Some r"
    show "k' = k \<longrightarrow> (\<forall>out f' w'. r = Inr (out, f', w') \<longrightarrow> view w' = view w)"
      using eq by (auto simp: Let_def dest!: ih call split: if_splits sum.splits)
  qed
  then show ?thesis using assms(3) unfolding sync_write_def by blast
qed

lemma buf_1024_addrs:
  "seq_addrs (Single (buffer_of_data (buf_1024 buf))) = addr_range buf 1024"
  "unat (buffer_size (Single (buffer_of_data (buf_1024 buf)))) = 1024"
  "unat sz \<le> 1024 \<Longrightarrow> seq_addrs (Single (buffer_of_data_n (buf_1024 buf) sz)) = addr_range buf (unat sz)"
  "unat sz \<le> 1024 \<Longrightarrow> unat (buffer_size (Single (buffer_of_data_n (buf_1024 buf) sz))) = unat sz"
proof -
  show all: "seq_addrs (Single (buffer_of_data (buf_1024 buf))) = addr_range buf 1024"
    by (simp add: buf_addrs_of_data buf_1024_def)
  then show "unat (buffer_size (Single (buffer_of_data (buf_1024 buf)))) = 1024"
    by (subst unat_buffer_size) simp_all
  show part: "unat sz \<le> 1024 \<Longrightarrow> seq_addrs (Single (buffer_of_data_n (buf_1024 buf) sz)) = addr_range buf (unat sz)"
    using all by (simp add: buffer_of_data_n_def buf_addrs_limit take_addr_range min_def)
  then show "unat sz \<le> 1024 \<Longrightarrow> unat (buffer_size (Single (buffer_of_data_n (buf_1024 buf) sz))) = unat sz"
    by (subst unat_buffer_size) simp_all
qed

text \<open>The first bytes of the buffer after a read.\<close>

lemma received_1024:
  assumes "m \<le> 1024" "m \<le> length bs"
  shows "map (store M (take m (addr_range buf 1024)) (take m bs)) (addr_range buf m) = take m bs"
proof -
  have "take m (addr_range buf 1024) = addr_range buf m" using assms(1) by (simp add: take_addr_range min_def)
  moreover have "distinct (addr_range buf m)" using assms(1) by (intro distinct_addr_range) simp
  ultimately show ?thesis using assms(2) by (simp add: load_store)
qed

section \<open>One turn of the loops\<close>

text \<open>
  A read of at least one byte into the buffer: an error, the end of the input, or some bytes of
  what was pending, now in the buffer.
\<close>

lemma read_some_cases:
  assumes "readv_law k memory stream" "preadv2_law k memory file" "gsl_subspan ss" "io_live f"
  obtains (error) ec f' w' where
      "sync_read ss k f (Single (buffer_of_data (buf_1024 buf))) (transfer_at_least_t 1) w = Some (Inr (Inl ec, f', w'))"
      "ec = errno_ec k w'"
  | (eof) w' f' where
      "sync_read ss k f (Single (buffer_of_data (buf_1024 buf))) (transfer_at_least_t 1) w = Some (Inr (Inr 0, f', w'))"
      "pending stream file f w = []" "pending stream file f' w' = []" "io_feed f 0 = Inr f'"
  | (some) sz f' w' where
      "sync_read ss k f (Single (buffer_of_data (buf_1024 buf))) (transfer_at_least_t 1) w = Some (Inr (Inr sz, f', w'))"
      "sz \<noteq> 0" "unat sz \<le> 1024" "unat sz \<le> length (pending stream file f w)" "io_live f'"
      "io_feed f (int (unat sz)) = Inr f'"
      "pending stream file f' w' = drop (unat sz) (pending stream file f w)"
      "map (memory w') (addr_range buf (unat sz)) = take (unat sz) (pending stream file f w)"
proof -
  let ?b = "Single (buffer_of_data (buf_1024 buf))" and ?P = "pending stream file f w"
  note size = buf_1024_addrs(1,2) [of buf]
  have one: "unat (min 1 (buffer_size ?b)) = 1"
    using size(2) by (simp add: unat_min)
  have "length (seq_addrs ?b) < 2 ^ 64" using size(1) by simp
  from sync_read_total [OF assms(1-3) transfer_at_least.completion_condition_axioms [of 1] this assms(4)]
  obtain out f' w' m where read: "sync_read ss k f ?b (transfer_at_least_t 1) w = Some (Inr (out, f', w'))"
    "io_live f'" "io_feed f (int m) = Inr f'" "m \<le> unat (buffer_size ?b)"
    "case out of Inl e \<Rightarrow> e = errno_ec k w'
     | Inr n \<Rightarrow> m = unat n \<and> m \<le> length ?P \<and> (unat (min 1 (buffer_size ?b)) \<le> m \<or> m = length ?P)
         \<and> pending stream file f' w' = drop m ?P \<and> memory w' = store (memory w) (take m (seq_addrs ?b)) (take m ?P)"
    by blast
  show ?thesis
  proof (cases out)
    case (Inl ec)
    with read error show ?thesis by simp
  next
    case (Inr sz)
    have sz: "m = unat sz" "m \<le> length ?P" "1 \<le> m \<or> m = length ?P" "pending stream file f' w' = drop m ?P"
      "memory w' = store (memory w) (take m (addr_range buf 1024)) (take m ?P)"
      using read(5) unfolding Inr one size(1) sum.case by blast+
    show ?thesis
    proof (cases "sz = 0")
      case True
      with sz read Inr eof show ?thesis by simp
    next
      case False
      have "m \<le> 1024" using read(4) size(2) by simp
      then have "map (memory w') (addr_range buf m) = take m ?P"
        using sz(2) unfolding sz(5) by (rule received_1024)
      with False Inr sz read \<open>m \<le> 1024\<close> some show ?thesis by simp
    qed
  qed
qed

text \<open>A write of the first bytes of the buffer takes all of them, or fails.\<close>

lemma write_all_cases:
  assumes "writev_law k memory sink" "pwritev2_law k memory file" "write_progress k" "gsl_subspan ss" "io_live f"
    and "unat sz \<le> 1024"
  obtains (error) ec f' w' where
      "sync_write_all ss k f (Single (buffer_of_data_n (buf_1024 buf) sz)) w = Some (Inr (Inl ec, f', w'))"
      "ec = errno_ec k w'"
  | (all) n f' w' where
      "sync_write_all ss k f (Single (buffer_of_data_n (buf_1024 buf) sz)) w = Some (Inr (Inr n, f', w'))"
      "io_live f'" "written sink file f w (map (memory w) (addr_range buf (unat sz))) f' w'"
proof -
  let ?b = "Single (buffer_of_data_n (buf_1024 buf) sz)"
  note size = buf_1024_addrs(3,4) [OF assms(6), of buf]
  have "length (seq_addrs ?b) < 2 ^ 64" using size(1) assms(6) by simp
  from sync_write_total [OF assms(1-4) transfer_all.completion_condition_axioms this assms(5)]
  obtain out f' w' where wr: "sync_write ss k f ?b transfer_all_t w = Some (Inr (out, f', w'))" "io_live f'"
    "case out of Inl e \<Rightarrow> e = errno_ec k w'
     | Inr n \<Rightarrow> buffer_size ?b \<le> n \<and> n \<le> buffer_size ?b
         \<and> written sink file f w (map (memory w) (take (unat n) (seq_addrs ?b))) f' w'"
    by blast
  show ?thesis
  proof (cases out)
    case (Inl ec)
    with wr error show ?thesis by (simp add: sync_write_all_def)
  next
    case (Inr n)
    then have "n = buffer_size ?b" and wrt: "written sink file f w (map (memory w) (take (unat n) (seq_addrs ?b))) f' w'"
      using wr(3) by (auto intro: antisym)
    then have "take (unat n) (seq_addrs ?b) = addr_range buf (unat sz)"
      unfolding size(1) using size(2) by (simp add: take_addr_range)
    with Inr wr wrt all show ?thesis by (simp add: sync_write_all_def)
  qed
qed

section \<open>What the programs do\<close>

text \<open>
  The loop over an open file appends to the output the bytes of the file from the object's offset
  on, all of them unless a read fails. What the calls that read leave alone is left alone.
\<close>

definition reads_keep :: "('w, 'z) clinux_scheme \<Rightarrow> ('w \<Rightarrow> 'v) \<Rightarrow> bool" where
  "reads_keep k view \<longleftrightarrow>
     (\<forall>n iov w. view (snd (k_readv k n iov w)) = view w) \<and> (\<forall>n iov off w. view (snd (k_preadv2 k n iov off 0 w)) = view w)"

lemma cat_loop_total:
  assumes "readv_law k memory stream" and "preadv2_law k memory file" and "gsl_subspan ss" and "reads_keep k view"
    and "io_live f"
  shows "\<exists>r f' w' out' rest. cat_loop ss k memory buf f w out = Some (Inr (r, f', w', out'))
    \<and> view w' = view w \<and> out @ pending stream file f w = out' @ rest
    \<and> (case r of Inl ec \<Rightarrow> ec = errno_ec k w' | Inr u \<Rightarrow> rest = [])"
  using assms(5)
proof (induction "length (pending stream file f w)" arbitrary: f w out rule: less_induct)
  case less
  have keep: "\<And>n iov w. view (snd (k_readv k n iov w)) = view w" "\<And>n iov off w. view (snd (k_preadv2 k n iov off 0 w)) = view w"
    using assms(4) by (simp_all add: reads_keep_def)
  have view: "view w' = view w" if "sync_read ss k f (Single (buffer_of_data (buf_1024 buf))) (transfer_at_least_t 1) w =
      Some (Inr (res, f', w'))" for res f' w'
    using keep that by (rule sync_read_keeps)
  from assms(1-3) less.prems show ?case
  proof (cases rule: read_some_cases [where buf = buf and w = w])
    case (error ec f' w')
    then show ?thesis using view by (subst cat_loop.simps) simp
  next
    case (eof w' f')
    then show ?thesis using view by (subst cat_loop.simps) simp
  next
    case (some sz f' w')
    let ?P = "pending stream file f w"
    let ?out = "out @ take (unat sz) ?P"
    have "0 < unat sz" using some(2) by (simp add: unat_gt_0)
    then have "length (pending stream file f' w') < length ?P"
      using some(4,7) by simp
    from less.hyps [OF this some(5), of ?out] obtain r f'' w'' out' rest where
      "cat_loop ss k memory buf f' w' ?out = Some (Inr (r, f'', w'', out'))" "view w'' = view w'"
      "?out @ pending stream file f' w' = out' @ rest" "case r of Inl ec \<Rightarrow> ec = errno_ec k w'' | Inr u \<Rightarrow> rest = []"
      by blast
    then show ?thesis
      using some(1,2,7,8) view [OF some(1)] by (subst cat_loop.simps) (auto split: sum.splits)
  qed
qed

text \<open>
  What open(2) for reading documents: the descriptor reads the contents of the named file, \<open>dir\<close>
  gives the contents of the files by name.
\<close>

definition open_law :: "('w, 'z) clinux_scheme \<Rightarrow> (int \<Rightarrow> 'w \<Rightarrow> byte list) \<Rightarrow> ('w \<Rightarrow> string \<Rightarrow> byte list) \<Rightarrow> bool" where
  "open_law k file dir \<longleftrightarrow>
     (\<forall>path mode w n w'. k_open k path 0 mode w = (n, w') \<longrightarrow> dir w' = dir w \<and> (n = - 1 \<or> file n w' = dir w path))
     \<and> (\<forall>n w. dir (snd (k_close k n w)) = dir w)"

lemma io_destroy_keeps: "(\<And>n w. view (snd (k_close k n w)) = view w) \<Longrightarrow> view (io_destroy k f w) = view w"
  by (auto simp: io_destroy_def fd_destroy_def seekable_destroy_def base_close_def split: io_fd.splits option.splits prod.splits)
     (metis snd_conv)+

text \<open>The run of the program, by induction on the files.\<close>

lemma sync_cat_total:
  assumes "readv_law k memory stream" and "preadv2_law k memory file" and "gsl_subspan ss"
    and "open_law k file dir" and "reads_keep k dir"
  shows "\<exists>r w' out' rest. sync_cat ss k memory buf paths w out = Some (Inr (r, w', out'))
    \<and> out @ concat (map (\<lambda>path. dir w (c_str path)) paths) = out' @ rest
    \<and> (case r of Inl ec \<Rightarrow> \<exists>v. ec = errno_ec k v | Inr u \<Rightarrow> rest = [])"
proof (induction paths arbitrary: w out)
  case (Cons path paths)
  let ?all = "\<lambda>v. concat (map (\<lambda>path. dir v (c_str path)) paths)"
  obtain n w1 where n: "k_open k (c_str path) 0 (7 * 64 + 5 * 8 + 5) w = (n, w1)" by fastforce
  show ?case
  proof (cases "n = - 1")
    case True
    with n show ?thesis by (auto simp: normal_file_open_def normal_file_open_mode_def)
  next
    case False
    let ?f = "Seekable (wrap_seekable None n)"
    have opened: "normal_file_open k None path 0 w = (Inr (wrap_seekable None n), w1)"
      using n False by (simp add: normal_file_open_def normal_file_open_mode_def)
    have fd: "sbase_ptr (wrap_seekable None n) = Some \<lparr>fildes = n, offset_val = 0\<rparr>"
      by (simp add: wrap_seekable_def seekable_move_def set_async_context_def seekable_fd_create_def)
    have w1: "dir w1 = dir w" "file n w1 = dir w (c_str path)"
      using assms(4) n False unfolding open_law_def by blast+
    have "io_live ?f" "pending stream file ?f w1 = dir w (c_str path)"
      using fd w1 by (simp_all add: off_t_in_range_def pending_def)
    with cat_loop_total [OF assms(1-3,5), of ?f buf w1 out]
    obtain r f' w2 out' rest where loop: "cat_loop ss k memory buf ?f w1 out = Some (Inr (r, f', w2, out'))"
      "dir w2 = dir w" "out @ dir w (c_str path) = out' @ rest"
      "case r of Inl ec \<Rightarrow> ec = errno_ec k w2 | Inr u \<Rightarrow> rest = []" using w1 by auto
    have dir: "dir (io_destroy k f' w2) = dir w"
      using assms(4) loop(2) io_destroy_keeps [of dir k] by (simp add: open_law_def)
    show ?thesis
    proof (cases r)
      case (Inl ec)
      have "out @ concat (map (\<lambda>path. dir w (c_str path)) (path # paths)) = out' @ rest @ ?all w"
        using loop(3) by (simp flip: append_assoc)
      with Inl loop(1,4) opened show ?thesis
        by (intro exI [of _ r] exI [of _ "io_destroy k f' w2"] exI [of _ out'] exI [of _ "rest @ ?all w"]) auto
    next
      case (Inr u)
      with Cons.IH [of "io_destroy k f' w2" out'] loop opened dir show ?thesis by (auto simp flip: append_assoc)
    qed
  qed
qed simp

text \<open>
  C18. \<open>sync_cat\<close> prints the files: it always returns, and unless opening or reading a file fails the
  output is the contents of all the files named, one after the other. After a failure what
  it has printed is a prefix of that.
\<close>

theorem sync_cat_correct:
  assumes "readv_law k memory stream" and "preadv2_law k memory file" and "gsl_subspan ss"
    and "open_law k file dir" and "reads_keep k dir"
  shows "\<exists>r w' out' rest. sync_cat ss k memory buf paths w out = Some (Inr (r, w', out'))
    \<and> out @ concat (map (\<lambda>path. dir w (c_str path)) paths) = out' @ rest
    \<and> (case r of Inl ec \<Rightarrow> \<exists>v. ec = errno_ec k v | Inr u \<Rightarrow> rest = [])"
  using assms by (rule sync_cat_total)

definition open_clinux :: "demo_world clinux" where
  "open_clinux = demo_clinux\<lparr>k_open := (\<lambda>path flags mode w. (5, w))\<rparr>"

theorem sync_cat_correct_witness:
  "\<exists>r w' out' rest. sync_cat plain_subspan open_clinux dw_mem 4096 [''a'', ''b''] demo_start [] = Some (Inr (r, w', out'))
    \<and> [] @ concat (map (\<lambda>path. dw_file demo_start 5) [''a'', ''b'']) = out' @ rest
    \<and> (case r of Inl ec \<Rightarrow> \<exists>v. ec = errno_ec open_clinux v | Inr u \<Rightarrow> rest = [])"
proof (rule sync_cat_correct)
  show "readv_law open_clinux dw_mem (\<lambda>n w. dw_in w n)"
    using demo_readv_law by (simp add: readv_law_def open_clinux_def)
  show "preadv2_law open_clinux dw_mem (\<lambda>n w. dw_file w n)"
    using demo_preadv2_law by (simp add: preadv2_law_def open_clinux_def)
  show "gsl_subspan plain_subspan" by (rule gsl_subspan_plain)
  show "open_law open_clinux (\<lambda>n w. dw_file w n) (\<lambda>w path. dw_file w 5)"
    by (simp add: open_law_def open_clinux_def demo_clinux_def)
  show "reads_keep open_clinux (\<lambda>w path. dw_file w 5)"
    by (simp add: reads_keep_def open_clinux_def demo_readv_def demo_preadv2_def demo_scatter_def Let_def)
qed

text \<open>Reading a connection does not change what was sent on it, nor writing what is to be received.\<close>

definition duplex :: "('w, 'z) clinux_scheme \<Rightarrow> (int \<Rightarrow> 'w \<Rightarrow> byte list) \<Rightarrow> (int \<Rightarrow> 'w \<Rightarrow> byte list) \<Rightarrow> bool" where
  "duplex k stream sink \<longleftrightarrow>
     (\<forall>m n iov w. sink m (snd (k_readv k n iov w)) = sink m w) \<and> (\<forall>m n iov off w. sink m (snd (k_preadv2 k n iov off 0 w)) = sink m w)
     \<and> (\<forall>m n iov w. stream m (snd (k_writev k n iov w)) = stream m w)
     \<and> (\<forall>m n iov off w. stream m (snd (k_pwritev2 k n iov off 0 w)) = stream m w)"

text \<open>The writes of a transfer leave a part of the world alone.\<close>

definition writes_keep :: "('w, 'z) clinux_scheme \<Rightarrow> ('w \<Rightarrow> 'v) \<Rightarrow> bool" where
  "writes_keep k view \<longleftrightarrow>
     (\<forall>n iov w. view (snd (k_writev k n iov w)) = view w) \<and> (\<forall>n iov off w. view (snd (k_pwritev2 k n iov off 0 w)) = view w)"

lemma echo_conn_total:
  assumes "readv_law k memory stream" and "preadv2_law k memory file"
    and "writev_law k memory sink" and "pwritev2_law k memory file'" and "write_progress k"
    and "duplex k stream sink" and "gsl_subspan ss" and "base_ptr d = Some b"
    and "reads_keep k view" and "writes_keep k view"
  shows "\<exists>r f' w'. echo_conn ss k buf (Nonseekable d) w = Some (Inr (r, f', w')) \<and> view w' = view w
    \<and> (case r of Inl ec \<Rightarrow> \<exists>v. ec = errno_ec k v
       | Inr u \<Rightarrow> stream (fildes b) w' = [] \<and> sink (fildes b) w' = sink (fildes b) w @ stream (fildes b) w)"
proof (induction "length (stream (fildes b) w)" arbitrary: w rule: less_induct)
  case less
  let ?n = "fildes b"
  have live: "io_live (Nonseekable d)" using assms(8) by simp
  have pend: "pending stream file (Nonseekable d) v = stream ?n v" for v
    using assms(8) by (simp add: pending_def)
  have read_sink: "sink ?n v' = sink ?n v"
    if "sync_read ss k f c cond v = Some (Inr (out, f', v'))" for f c cond v out f' v'
    using sync_read_keeps [of "sink ?n", OF _ _ that] assms(6) by (simp add: duplex_def)
  have write_stream: "stream ?n v' = stream ?n v"
    if "sync_write_all ss k f c v = Some (Inr (out, f', v'))" for f c v out f' v'
    using sync_write_keeps [of "stream ?n", OF _ _ that [unfolded sync_write_all_def]] assms(6)
    by (simp add: duplex_def)
  have read_view: "view v' = view v" if "sync_read ss k f c cond v = Some (Inr (out, f', v'))" for f c cond v out f' v'
    using sync_read_keeps [of view, OF _ _ that] assms(9) by (simp add: reads_keep_def)
  have write_view: "view v' = view v" if "sync_write_all ss k f c v = Some (Inr (out, f', v'))" for f c v out f' v'
    using sync_write_keeps [of view, OF _ _ that [unfolded sync_write_all_def]] assms(10) by (simp add: writes_keep_def)
  from assms(1,2,7) live show ?case
  proof (cases rule: read_some_cases [where buf = buf and w = w])
    case (error ec f' w')
    then show ?thesis using read_view [OF error(1)] by (subst echo_conn.simps) auto
  next
    case (eof w' f')
    then have "f' = Nonseekable d" by simp
    then show ?thesis using eof read_sink [OF eof(1)] read_view [OF eof(1)] by (subst echo_conn.simps) (simp add: pend)
  next
    case (some sz f' w')
    have f': "f' = Nonseekable d" using some(6) by simp
    from assms(3-5,7) live some(3) show ?thesis
    proof (cases rule: write_all_cases [where buf = buf and w = w'])
      case (error ec f'' w'')
      then show ?thesis using some(1,2) f' read_view [OF some(1)] write_view [OF error(1)] by (subst echo_conn.simps) auto
    next
      case (all n f'' w'')
      have f'': "f'' = Nonseekable d" using all(3) by (simp add: written_def)
      have "0 < unat sz" using some(2) by (simp add: unat_gt_0)
      moreover have stream: "stream ?n w'' = drop (unat sz) (stream ?n w)"
        using some(7) write_stream [OF all(1)] by (simp add: pend f')
      ultimately have "length (stream ?n w'') < length (stream ?n w)"
        using some(4) by (simp add: pend)
      from less.hyps [OF this] obtain r f3 w3 where conn: "echo_conn ss k buf (Nonseekable d) w'' = Some (Inr (r, f3, w3))" "view w3 = view w''"
        "case r of Inl ec \<Rightarrow> \<exists>v. ec = errno_ec k v
         | Inr u \<Rightarrow> stream ?n w3 = [] \<and> sink ?n w3 = sink ?n w'' @ stream ?n w''" by blast
      have "sink ?n w'' = sink ?n w @ take (unat sz) (stream ?n w)"
        using all(3) some(8) assms(8) read_sink [OF some(1)] by (simp add: written_def pend)
      then show ?thesis
        using some(1,2) all(1) conn stream read_view [OF some(1)] write_view [OF all(1)] unfolding f' f'' by (subst echo_conn.simps) (auto split: sum.splits)
    qed
  qed
qed

text \<open>
  C17. The echo server echoes: serving a connection always returns, and unless a call fails the peer has
  closed its side and everything it sent has been sent back, in order and nothing else.
\<close>

theorem echo_conn_correct:
  assumes "readv_law k memory stream" and "preadv2_law k memory file"
    and "writev_law k memory sink" and "pwritev2_law k memory file'" and "write_progress k"
    and "duplex k stream sink" and "gsl_subspan ss" and "base_ptr d = Some b"
  shows "\<exists>r f' w'. echo_conn ss k buf (Nonseekable d) w = Some (Inr (r, f', w'))
    \<and> (case r of Inl ec \<Rightarrow> \<exists>v. ec = errno_ec k v
       | Inr u \<Rightarrow> stream (fildes b) w' = [] \<and> sink (fildes b) w' = sink (fildes b) w @ stream (fildes b) w)"
  using echo_conn_total [where view = "\<lambda>w. ()", OF assms] by (simp add: reads_keep_def writes_keep_def)

theorem echo_conn_correct_witness:
  "\<exists>r f' w'. echo_conn plain_subspan demo_clinux 4096 (Nonseekable (fd_create 5)) demo_start = Some (Inr (r, f', w'))
    \<and> (case r of Inl ec \<Rightarrow> \<exists>v. ec = errno_ec demo_clinux v
       | Inr u \<Rightarrow> dw_in w' 5 = [] \<and> dw_out w' 5 = dw_out demo_start 5 @ dw_in demo_start 5)"
proof -
  have "duplex demo_clinux (\<lambda>n w. dw_in w n) (\<lambda>n w. dw_out w n)"
    by (simp add: duplex_def demo_readv_def demo_preadv2_def demo_writev_def demo_pwritev2_def demo_scatter_def Let_def)
  moreover have "base_ptr (fd_create 5) = Some \<lparr>fildes = 5\<rparr>"
    by (simp add: fd_create_def)
  ultimately show ?thesis
    using echo_conn_correct [OF demo_readv_law demo_preadv2_law demo_writev_law demo_pwritev2_law demo_write_progress _
        gsl_subspan_plain, of "fd_create 5" "\<lparr>fildes = 5\<rparr>" 4096 demo_start] by (simp cong: sum.case_cong)
qed

section \<open>A file is read back\<close>

lemma chars_5_addrs:
  "seq_addrs (Single (buffer_of_data (chars_5 a))) = addr_range a 5"
  "buffer_size (Single (buffer_of_data (chars_5 a))) = 5"
proof -
  show addrs: "seq_addrs (Single (buffer_of_data (chars_5 a))) = addr_range a 5"
    by (simp add: buf_addrs_of_data chars_5_def)
  then have "unat (buffer_size (Single (buffer_of_data (chars_5 a)))) = unat (5 :: size_t)"
    by (subst unat_buffer_size) simp_all
  then show "buffer_size (Single (buffer_of_data (chars_5 a))) = 5"
    by (simp only: word_unat_eq_iff)
qed

lemma take_overwrite: "length bs \<le> n \<Longrightarrow> n \<le> length bs \<Longrightarrow> take n (overwrite xs 0 bs) = bs"
  by (cases bs) (simp_all add: overwrite_def)

text \<open>A write of five bytes to the start of a file, and a read of five bytes from there.\<close>

lemma write_5_cases:
  assumes "writev_law k memory sink" "pwritev2_law k memory file" "write_progress k" "gsl_subspan ss"
    and "sbase_ptr fd = Some \<lparr>fildes = n, offset_val = 0\<rparr>"
  obtains (error) ec f' w' where
      "sync_write_all ss k (Seekable fd) (Single (buffer_of_data (chars_5 a))) w = Some (Inr (Inl ec, f', w'))"
      "ec = errno_ec k w'"
  | (all) fd' w' where
      "sync_write_all ss k (Seekable fd) (Single (buffer_of_data (chars_5 a))) w = Some (Inr (Inr 5, Seekable fd', w'))"
      "memory w' = memory w" "sbase_ptr fd' = Some \<lparr>fildes = n, offset_val = 5\<rparr>"
      "file n w' = overwrite (file n w) 0 (map (memory w) (addr_range a 5))"
proof -
  let ?b = "Single (buffer_of_data (chars_5 a))"
  have live: "io_live (Seekable fd)" using assms(5) by (simp add: off_t_in_range_def)
  have "length (seq_addrs ?b) < 2 ^ 64" by (simp only: chars_5_addrs) simp
  from sync_write_total [OF assms(1-4) transfer_all.completion_condition_axioms this live, of w]
  obtain out f' w' where wr: "sync_write_all ss k (Seekable fd) ?b w = Some (Inr (out, f', w'))" "io_live f'" "memory w' = memory w"
    "case out of Inl e \<Rightarrow> e = errno_ec k w'
     | Inr m \<Rightarrow> 5 \<le> m \<and> m \<le> 5 \<and> written sink file (Seekable fd) w (map (memory w) (take (unat m) (addr_range a 5))) f' w'"
    unfolding sync_write_all_def chars_5_addrs by blast
  show thesis
  proof (cases out)
    case (Inl ec)
    then show thesis using wr error by auto
  next
    case (Inr m)
    then have "m = 5" using wr(4) by auto
    then show thesis using wr Inr assms(5) all by (auto simp: written_def)
  qed
qed

lemma read_5_cases:
  assumes "readv_law k memory stream" "preadv2_law k memory file" "gsl_subspan ss"
    and "sbase_ptr fd = Some \<lparr>fildes = n, offset_val = 0\<rparr>" and "5 \<le> length (file n w)"
  obtains (error) ec f' w' where
      "sync_read_all ss k (Seekable fd) (Single (buffer_of_data (chars_5 a))) w = Some (Inr (Inl ec, f', w'))"
      "ec = errno_ec k w'"
  | (all) f' w' where
      "sync_read_all ss k (Seekable fd) (Single (buffer_of_data (chars_5 a))) w = Some (Inr (Inr 5, f', w'))"
      "memory w' = store (memory w) (addr_range a 5) (take 5 (file n w))"
proof -
  let ?b = "Single (buffer_of_data (chars_5 a))"
  have live: "io_live (Seekable fd)" using assms(4) by (simp add: off_t_in_range_def)
  have pend: "pending stream file (Seekable fd) w = file n w" using assms(4) by (simp add: pending_def)
  have "length (seq_addrs ?b) < 2 ^ 64" by (simp only: chars_5_addrs) simp
  from sync_read_total [OF assms(1-3) transfer_all.completion_condition_axioms this live, of w]
  obtain out f' w' m where rd: "sync_read_all ss k (Seekable fd) ?b w = Some (Inr (out, f', w'))" "m \<le> unat (5 :: size_t)"
    "case out of Inl e \<Rightarrow> e = errno_ec k w'
     | Inr j \<Rightarrow> m = unat j \<and> m \<le> length (file n w) \<and> (unat (5 :: size_t) \<le> m \<or> m = length (file n w))
         \<and> pending stream file f' w' = drop m (file n w)
         \<and> memory w' = store (memory w) (take m (addr_range a 5)) (take m (file n w))"
    unfolding sync_read_all_def chars_5_addrs pend by blast
  show thesis
  proof (cases out)
    case (Inl ec)
    then show thesis using rd error by auto
  next
    case (Inr j)
    then have m: "m = 5" "unat j = unat (5 :: size_t)" using rd(2,3) assms(5) by auto
    then have "j = 5" by (simp only: word_unat_eq_iff)
    then show thesis using rd Inr m all by auto
  qed
qed

text \<open>
  C25. What is written to a file is read back: on a kernel that obeys the laws of the calls the
  test of \<open>mem_fd\<close> always returns, and unless a system call fails its \<open>EXPECT_EQ\<close> holds,
  whatever the file of the new descriptor held before.
\<close>

theorem test_mem_fd_passes:
  assumes "readv_law k memory stream" and "preadv2_law k memory file"
    and "writev_law k memory sink" and "pwritev2_law k memory file" and "write_progress k"
    and "gsl_subspan ss" and "set (addr_range rd_buf 5) \<inter> set (addr_range data 5) = {}"
  shows "\<exists>r w'. test_mem_fd ss k memory data rd_buf w = Some (Inr (r, w'))
    \<and> (case r of Inl ec \<Rightarrow> \<exists>v. ec = errno_ec k v | Inr equal \<Rightarrow> equal)"
proof (cases "fst (k_memfd_create k (c_str ''test_mfd'') 0 w) = - 1")
  case True
  then show ?thesis by (auto simp: test_mem_fd_def mem_fd_create_def split: prod.splits)
next
  case False
  obtain n w1 where n: "k_memfd_create k (c_str ''test_mfd'') 0 w = (n, w1)" by fastforce
  let ?fd = "wrap_seekable None n"
  have create: "mem_fd_create k None ''test_mfd'' 0 w = (Inr ?fd, w1)"
    using False n by (simp add: mem_fd_create_def)
  have fd: "sbase_ptr ?fd = Some \<lparr>fildes = n, offset_val = 0\<rparr>"
    by (simp add: wrap_seekable_def seekable_move_def set_async_context_def seekable_fd_create_def)
  from assms(3-6) fd show ?thesis
  proof (cases rule: write_5_cases [where a = data and w = w1])
    case (error ec f' w')
    then show ?thesis by (auto simp: test_mem_fd_def create)
  next
    case (all fd' w2)
    let ?bs = "map (memory w1) (addr_range data 5)"
    let ?fd2 = "fd'\<lparr>sbase_ptr := Some \<lparr>fildes = n, offset_val = 0\<rparr>\<rparr>"
    have seek: "seekable_seek fd' 0 = Inr ?fd2" using all(3) by (simp add: seekable_seek_def)
    have "5 \<le> length (file n w2)" "take 5 (file n w2) = ?bs"
      using all(4) by (simp_all add: take_overwrite) (simp add: overwrite_def)
    note held = this
    have fd2: "sbase_ptr ?fd2 = Some \<lparr>fildes = n, offset_val = 0\<rparr>" by simp
    from assms(1,2,6) fd2 held(1) show ?thesis
    proof (cases rule: read_5_cases [where a = rd_buf])
      case (error ec f' w')
      then show ?thesis using all(1) seek by (auto simp: test_mem_fd_def create)
    next
      case (all f3 w3)
      have "map (memory w3) (addr_range rd_buf 5) = ?bs" "map (memory w3) (addr_range data 5) = ?bs"
        using all(2) held(2) assms(7) \<open>memory w2 = memory w1\<close>
        by (simp_all add: load_store map_store_other distinct_addr_range)
      then show ?thesis using \<open>sync_write_all ss k _ _ w1 = _\<close> all(1) seek by (auto simp: test_mem_fd_def create)
    qed
  qed
qed

definition memfd_clinux :: "demo_world clinux" where
  "memfd_clinux = demo_clinux\<lparr>k_memfd_create := (\<lambda>name flags w. (7, w))\<rparr>"

theorem test_mem_fd_passes_witness:
  "\<exists>r w'. test_mem_fd plain_subspan memfd_clinux dw_mem 100 200 demo_start = Some (Inr (r, w'))
    \<and> (case r of Inl ec \<Rightarrow> \<exists>v. ec = errno_ec memfd_clinux v | Inr equal \<Rightarrow> equal)"
proof (rule test_mem_fd_passes)
  note laws = readv_law_def preadv2_law_def writev_law_def pwritev2_law_def write_progress_def
  show "readv_law memfd_clinux dw_mem (\<lambda>n w. dw_in w n)"
    using demo_readv_law by (simp add: laws memfd_clinux_def)
  show "preadv2_law memfd_clinux dw_mem (\<lambda>n w. dw_file w n)"
    using demo_preadv2_law by (simp add: laws memfd_clinux_def)
  show "writev_law memfd_clinux dw_mem (\<lambda>n w. dw_out w n)"
    using demo_writev_law by (simp add: laws memfd_clinux_def)
  show "pwritev2_law memfd_clinux dw_mem (\<lambda>n w. dw_file w n)"
    using demo_pwritev2_law by (simp add: laws memfd_clinux_def)
  show "write_progress memfd_clinux"
    using demo_write_progress by (simp add: laws memfd_clinux_def)
  show "gsl_subspan plain_subspan" by (rule gsl_subspan_plain)
  show "set (addr_range 200 5) \<inter> set (addr_range 100 5) = {}" by code_simp
qed

end
