(* ===== verification/Ark_Ring_Demo.thy ===== *)
theory Ark_Ring_Demo
  imports Ark_Tcp
begin

text \<open>
  A ring that performs reads and writes with the kernel of short transfers of \<open>Ark_Kernel\<close>, and a
  proof that it keeps the promises the asynchronous operations rely on. Descriptor 6 is a
  file, the others are streams. The closed instances of the theorems on asynchronous
  transfers use it.
\<close>

definition demo_sk :: "int \<Rightarrow> bool" where
  "demo_sk n \<longleftrightarrow> n = 6"

text \<open>A call that fails completes with \<open>-EINVAL\<close>.\<close>

definition as_res :: "ssize_t \<times> 'w \<Rightarrow> int \<times> 'w" where
  "as_res x = (if fst x < 0 then - EINVAL else fst x, snd x)"

lemma as_res_simps [simp]: "snd (as_res x) = snd x" "- 1 \<le> fst x \<Longrightarrow> as_syscall (as_res x) = x"
  by (cases x; simp add: as_res_def as_syscall_def)+

fun demo_perform :: "sqe_op \<Rightarrow> demo_world \<Rightarrow> int \<times> demo_world" where
  "demo_perform (Prep_readv n iov nr off) w = as_res (if demo_sk n then demo_preadv2 n iov off 0 w else demo_readv n iov w)"
| "demo_perform (Prep_writev n iov nr off) w = as_res (if demo_sk n then demo_pwritev2 n iov off 0 w else demo_writev n iov w)"
| "demo_perform sqe w = (- 22, w)"

definition demo_ring_clinux :: "demo_world clinux" where
  "demo_ring_clinux = demo_clinux\<lparr>k_write_bytes := (\<lambda>n bs w. (8, w))\<rparr>"

lemma demo_results:
  "- 1 \<le> fst (demo_readv n iov w) \<and> fst (demo_readv n iov w) \<le> 3"
  "- 1 \<le> fst (demo_preadv2 n iov off 0 w) \<and> fst (demo_preadv2 n iov off 0 w) \<le> 3"
  "- 1 \<le> fst (demo_writev n iov w) \<and> fst (demo_writev n iov w) \<le> 3"
  "- 1 \<le> fst (demo_pwritev2 n iov off 0 w) \<and> fst (demo_pwritev2 n iov off 0 w) \<le> 3"
  by (simp_all add: demo_readv_def demo_preadv2_def demo_writev_def demo_pwritev2_def demo_chunk_def demo_gather_def Let_def
      min_le_iff_disj)

lemma demo_cqe_res_range: "cqe_res_range demo_perform"
  unfolding cqe_res_range_def
proof (intro allI)
  fix sqe w
  have "- 22 \<le> fst (demo_perform sqe w) \<and> fst (demo_perform sqe w) \<le> 3"
    by (cases "(sqe, w)" rule: demo_perform.cases)
       (use demo_results in \<open>auto simp: as_res_def\<close>)
  then show "- (2 ^ 31) \<le> fst (demo_perform sqe w) \<and> fst (demo_perform sqe w) < 2 ^ 31" by simp
qed

lemma demo_ring_calls:
  "k_readv (ring_calls demo_sk demo_perform k) n iov w = (if demo_sk n then (- 1, w) else demo_readv n iov w)"
  "k_preadv2 (ring_calls demo_sk demo_perform k) n iov off 0 w = (if demo_sk n then demo_preadv2 n iov off 0 w else (- 1, w))"
  "k_writev (ring_calls demo_sk demo_perform k) n iov w = (if demo_sk n then (- 1, w) else demo_writev n iov w)"
  "k_pwritev2 (ring_calls demo_sk demo_perform k) n iov off 0 w = (if demo_sk n then demo_pwritev2 n iov off 0 w else (- 1, w))"
  using demo_results by (simp_all add: ring_calls_def io_sqe_def)

lemma demo_ring_laws:
  "readv_law (ring_calls demo_sk demo_perform k) dw_mem (\<lambda>n w. dw_in w n)"
  "preadv2_law (ring_calls demo_sk demo_perform k) dw_mem (\<lambda>n w. dw_file w n)"
  "writev_law (ring_calls demo_sk demo_perform k) dw_mem (\<lambda>n w. dw_out w n)"
  "pwritev2_law (ring_calls demo_sk demo_perform k) dw_mem (\<lambda>n w. dw_file w n)"
  "write_progress (ring_calls demo_sk demo_perform k)"
proof -
  show "readv_law (ring_calls demo_sk demo_perform k) dw_mem (\<lambda>n w. dw_in w n)"
    using demo_readv_law unfolding readv_law_def demo_ring_calls demo_clinux_sel by (metis Pair_inject)
  show "preadv2_law (ring_calls demo_sk demo_perform k) dw_mem (\<lambda>n w. dw_file w n)"
    using demo_preadv2_law unfolding preadv2_law_def demo_ring_calls demo_clinux_sel by (metis Pair_inject)
  show "writev_law (ring_calls demo_sk demo_perform k) dw_mem (\<lambda>n w. dw_out w n)"
    using demo_writev_law unfolding writev_law_def demo_ring_calls demo_clinux_sel by (metis Pair_inject)
  show "pwritev2_law (ring_calls demo_sk demo_perform k) dw_mem (\<lambda>n w. dw_file w n)"
    using demo_pwritev2_law unfolding pwritev2_law_def demo_ring_calls demo_clinux_sel by (metis Pair_inject)
  show "write_progress (ring_calls demo_sk demo_perform k)"
    using demo_write_progress unfolding write_progress_def demo_ring_calls demo_clinux_sel by auto
qed

lemma demo_ring_ok: "submission_ok demo_ring_clinux idle_liburing ev view"
  by (simp add: submission_ok_def demo_ring_clinux_def idle_liburing_def)

definition demo_buffer :: buffer_sequence where
  "demo_buffer = Single \<lparr>b_data = 100, b_size = 7\<rparr>"

definition demo_socket :: io_fd where
  "demo_socket = Nonseekable (wrap_fd (Some 0) 5)"

definition demo_file :: io_fd where
  "demo_file = Seekable (wrap_seekable (Some 0) 6)"

lemma demo_buffer_fits: "length (seq_addrs demo_buffer) < 2 ^ 64"
  by (simp add: demo_buffer_def)

lemma demo_objects:
  "fd_at demo_store (Fd_ref 4096) = Inr demo_socket"
  "fd_at demo_store (Seekable_ref 8192) = Inr demo_file"
  "buffers_at demo_store 16384 = Inr demo_buffer"
  by (simp_all add: demo_store_def buffers_at_def demo_socket_def demo_file_def demo_buffer_def)

lemma demo_fds:
  "io_live demo_socket" "io_context demo_socket = Inr 0" "kind_fits demo_sk demo_socket"
  "io_live demo_file" "io_context demo_file = Inr 0" "kind_fits demo_sk demo_file"
  "io_get demo_socket = Inr 5" "io_get demo_file = Inr 6"
  by (simp_all add: demo_socket_def demo_file_def wrap_fd_def fd_move_def fd_create_def wrap_seekable_def
      seekable_move_def seekable_fd_create_def set_async_context_def get_context_def kind_fits_def demo_sk_def
      fd_get_def seekable_get_def
      off_t_in_range_def)

end
