(* ===== verification/Ark_Coroutine_IO.thy ===== *)
theory Ark_Coroutine_IO
  imports Ark_Coroutine Ark_Examples Ark_Ring_Demo
begin

text \<open>
  What a coroutine gets from \<open>co_await coro::read\<close> and \<open>co_await coro::write\<close>: it is resumed once,
  with what the asynchronous operation reports. The lemmas are stated for programs that submit
  one operation after the other (\<open>runs_to\<close>). \<open>part\<close> is a part of the objects, \<open>ext\<close> a part of the world, that
  the operation leaves alone.
\<close>

lemma async_read_runs_to:
  fixes cb :: 'f and s :: "'x io_store_scheme" and w :: 'w
  assumes laws: "readv_law (ring_calls sk perform k) memory stream" "preadv2_law (ring_calls sk perform k) memory file"
      "cqe_res_range perform" "gsl_subspan ss"
    and cc: "completion_condition cond goal cap" and size: "length (seq_addrs b) < 2 ^ 64" and start: "cond (buffer_size b) 0 \<noteq> 0"
    and ok: "submission_ok k lu ev view"
    and view: "\<And>v w. view v = view w \<Longrightarrow> io_view memory stream file v = io_view memory stream file w"
      "\<And>v w. view v = view w \<Longrightarrow> ext v = ext w"
    and ext: "\<And>n iov off v. ext (snd (perform (io_sqe Read_op n iov off) v)) = ext v"
    and env: "\<And>s s'. R s s' \<Longrightarrow> keeps fr br s s'" "\<And>s s'. R s s' \<Longrightarrow> part s' = part s"
    and feed: "\<And>s s' n. feed_at s fr n = Inr s' \<Longrightarrow> part s' = part s"
    and st: "context_ready ev c" "fd_at s fr = Inr f" "io_live f" "io_context f = Inr ctx" "kind_fits sk f" "buffers_at s br = Inr b"
    and rest: "\<And>out f' m c2 s2 w2. \<lbrakk>context_ready ev c2; fd_at s2 fr = Inr f'; io_live f'; io_feed f (int m) = Inr f';
        part s2 = part s; ext w2 = ext w;
        case out of Inl e \<Rightarrow> is_error e \<and> ec_category e = System_category
        | Inr n \<Rightarrow> m = unat n \<and> read_result goal cap (buffer_size b) (pending stream file f w) m
            \<and> pending stream file f' w2 = drop m (pending stream file f w)
            \<and> memory w2 = received (memory w) (seq_addrs b) (pending stream file f w) m\<rbrakk>
      \<Longrightarrow> runs_to k lu ev perform view ring (run_closure ss k lu fin) R Q (fin cb (Size_result out)) (c2, s2, w2)"
  shows "runs_to k lu ev perform view ring (run_closure ss k lu fin) R Q (async_read ss k lu fin' fr br cond cb) (c, s, w)"
proof -
  let ?post = "async_read_post system_error memory (pending stream file) goal cap fr b cb f (memory w) (pending stream file f w)"
  note eq = async_start(1) [OF st(2,4)]
  have iov_ok: "submission_ok k lu ev (io_view memory stream file)" using ok view(1) by (rule submission_ok_mono)
  have "completes_with k lu ev perform (io_call Read_op) (io_view memory stream file) (run_closure ss k lu) (feeds fr) (keeps fr br)
      ?post (\<lambda>fin. async_io_run ss k lu fin Read_op (io_op ctx cb fr br cond 0 [])) (c, s, w)"
    by (rule async_read_total_all [OF laws cc size st(3) iov_ok run_closure_io st(1,2,6,5) read_inv_start [OF st(3)]])
  then have op: "completes_with k lu ev perform (io_call Read_op) (io_view memory stream file) (run_closure ss k lu) (feeds fr)
      (keeps fr br) ?post (\<lambda>fin. async_read ss k lu fin fr br cond cb) (c, s, w)"
    by (rule completes_with_cong) (simp_all add: eq)
  obtain n off where n: "io_get f = Inr n" "io_offset f = Inr off" using st(3) by (rule io_live_fildes)
  obtain st0 where later: "async_read ss k lu (\<lambda>cb r st. Inl Aborted) fr br cond cb (c, s, w) = Inr st0"
    unfolding eq
    by (rule async_io_run_submits [where cond = cond and d = 0 and kind = Read_op and w = w and ctx = ctx and cb = cb and ?iov0.0 = "[]",
          OF laws(4) st(2) n st(6) start ok st(1)]) blast
  show ?thesis
    by (rule completes_with_chain [where p = "\<lambda>fin. async_read ss k lu fin fr br cond cb" and part = part and ext = ext,
          OF op later st(1) ok view _ env _])
       (use ext feeds_part [OF _ feed] in \<open>auto simp: io_call_def async_read_post_def system_error_def intro: rest cong: sum.case_cong\<close>)
qed

lemma async_write_runs_to:
  fixes cb :: 'f and s :: "'x io_store_scheme" and w :: 'w
  assumes laws: "writev_law (ring_calls sk perform k) memory sink" "pwritev2_law (ring_calls sk perform k) memory file"
      "write_progress (ring_calls sk perform k)" "cqe_res_range perform" "gsl_subspan ss"
    and cc: "completion_condition cond goal cap" and size: "length (seq_addrs b) < 2 ^ 64" and start: "cond (buffer_size b) 0 \<noteq> 0"
    and ok: "submission_ok k lu ev view"
    and view: "\<And>v w. view v = view w \<Longrightarrow> io_view memory sink file v = io_view memory sink file w"
      "\<And>v w. view v = view w \<Longrightarrow> ext v = ext w"
    and ext: "\<And>n iov off v. ext (snd (perform (io_sqe Write_op n iov off) v)) = ext v"
    and env: "\<And>s s'. R s s' \<Longrightarrow> keeps fr br s s'" "\<And>s s'. R s s' \<Longrightarrow> part s' = part s"
    and feed: "\<And>s s' n. feed_at s fr n = Inr s' \<Longrightarrow> part s' = part s"
    and st: "context_ready ev c" "fd_at s fr = Inr f" "io_live f" "io_context f = Inr ctx" "kind_fits sk f" "buffers_at s br = Inr b"
    and rest: "\<And>out f' c2 s2 w2. \<lbrakk>context_ready ev c2; fd_at s2 fr = Inr f'; io_live f';
        part s2 = part s; ext w2 = ext w; memory w2 = memory w;
        case out of Inl e \<Rightarrow> is_error e \<and> ec_category e = System_category
        | Inr n \<Rightarrow> goal (buffer_size b) \<le> n \<and> n \<le> cap (buffer_size b)
            \<and> written sink file f w (map (memory w) (take (unat n) (seq_addrs b))) f' w2\<rbrakk>
      \<Longrightarrow> runs_to k lu ev perform view ring (run_closure ss k lu fin) R Q (fin cb (Size_result out)) (c2, s2, w2)"
  shows "runs_to k lu ev perform view ring (run_closure ss k lu fin) R Q (async_write ss k lu fin' fr br cond cb) (c, s, w)"
proof -
  let ?post = "async_write_post system_error memory (written sink file) goal cap fr b cb f w"
  note eq = async_start(2) [OF st(2,4)]
  have iov_ok: "submission_ok k lu ev (io_view memory sink file)" using ok view(1) by (rule submission_ok_mono)
  have "completes_with k lu ev perform (io_call Write_op) (io_view memory sink file) (run_closure ss k lu) (feeds fr) (keeps fr br)
      ?post (\<lambda>fin. async_io_run ss k lu fin Write_op (io_op ctx cb fr br cond 0 [])) (c, s, w)"
    by (rule async_write_total_all [OF laws cc size st(3) iov_ok run_closure_io st(1,2,6,5) write_inv_start [OF st(3)]])
  then have op: "completes_with k lu ev perform (io_call Write_op) (io_view memory sink file) (run_closure ss k lu) (feeds fr)
      (keeps fr br) ?post (\<lambda>fin. async_write ss k lu fin fr br cond cb) (c, s, w)"
    by (rule completes_with_cong) (simp_all add: eq)
  obtain n off where n: "io_get f = Inr n" "io_offset f = Inr off" using st(3) by (rule io_live_fildes)
  obtain st0 where later: "async_write ss k lu (\<lambda>cb r st. Inl Aborted) fr br cond cb (c, s, w) = Inr st0"
    unfolding eq
    by (rule async_io_run_submits [where cond = cond and d = 0 and kind = Write_op and w = w and ctx = ctx and cb = cb and ?iov0.0 = "[]",
          OF laws(5) st(2) n st(6) start ok st(1)]) blast
  show ?thesis
    by (rule completes_with_chain [where p = "\<lambda>fin. async_write ss k lu fin fr br cond cb" and part = part and ext = ext,
          OF op later st(1) ok view _ env _])
       (use ext feeds_part [OF _ feed] in \<open>auto simp: io_call_def async_write_post_def system_error_def intro: rest cong: sum.case_cong\<close>)
qed

text \<open>A read of at least one byte into the array of 1024 bytes of the example programs.\<close>

lemma io_context_feed: "io_feed f n = Inr f' \<Longrightarrow> io_context f' = io_context f"
  by (cases f) (auto simp: seekable_feed_def get_context_def split: option.splits sum.splits if_splits)

definition read_1024_post ::
  "('w \<Rightarrow> mem) \<Rightarrow> (io_fd \<Rightarrow> 'w \<Rightarrow> byte list) \<Rightarrow> addr \<Rightarrow> io_fd \<Rightarrow> 'w \<Rightarrow> size_t result \<Rightarrow> io_fd \<Rightarrow> 'w \<Rightarrow> bool"
where
  "read_1024_post memory pend buf f w out f' w' \<longleftrightarrow>
     (case out of
        Inl e \<Rightarrow> is_error e \<and> ec_category e = System_category
      | Inr sz \<Rightarrow>
          unat sz \<le> 1024 \<and> unat sz \<le> length (pend f w) \<and> (sz = 0 \<longrightarrow> pend f w = [])
          \<and> pend f' w' = drop (unat sz) (pend f w)
          \<and> map (memory w') (addr_range buf (unat sz)) = take (unat sz) (pend f w))"

lemma read_1024_post:
  assumes "case out of Inl e \<Rightarrow> is_error e \<and> ec_category e = System_category
    | Inr n \<Rightarrow> m = unat n \<and> read_result (min 1) (\<lambda>b. b) (buffer_size (Single (buffer_of_data (buf_1024 buf)))) (pend f w) m
        \<and> pend f' w' = drop m (pend f w)
        \<and> memory w' = received (memory w) (seq_addrs (Single (buffer_of_data (buf_1024 buf)))) (pend f w) m"
  shows "read_1024_post memory pend buf f w out f' w'"
proof (cases out)
  case (Inl e)
  with assms show ?thesis by (simp add: read_1024_post_def)
next
  case (Inr sz)
  let ?B = "buffer_size (Single (buffer_of_data (buf_1024 buf)))"
  have B: "unat ?B = 1024" "unat (min 1 ?B) = 1" using buf_1024_addrs(2) [of buf] by (simp_all add: unat_min)
  have m: "m = unat sz" "m \<le> 1024" "m \<le> length (pend f w)" "1 \<le> m \<or> m = length (pend f w)" "pend f' w' = drop m (pend f w)"
    "memory w' = store (memory w) (take m (addr_range buf 1024)) (take m (pend f w))"
    using assms unfolding Inr sum.case read_result_def received_def buf_1024_addrs(1) B by blast+
  then show ?thesis
    using received_1024 [OF m(2,3), of "memory w" buf] by (auto simp add: read_1024_post_def Inr)
qed

lemma async_read_1024_runs_to:
  fixes cb :: 'f and s :: "'x io_store_scheme" and w :: 'w
  assumes laws: "readv_law (ring_calls sk perform k) memory stream" "preadv2_law (ring_calls sk perform k) memory file"
      "cqe_res_range perform" "gsl_subspan ss"
    and ok: "submission_ok k lu ev view"
    and view: "\<And>v w. view v = view w \<Longrightarrow> io_view memory stream file v = io_view memory stream file w"
      "\<And>v w. view v = view w \<Longrightarrow> ext v = ext w"
    and ext: "\<And>n iov off v. ext (snd (perform (io_sqe Read_op n iov off) v)) = ext v"
    and env: "\<And>s s'. R s s' \<Longrightarrow> keeps fr br s s'" "\<And>s s'. R s s' \<Longrightarrow> part s' = part s"
    and feed: "\<And>s s' n. feed_at s fr n = Inr s' \<Longrightarrow> part s' = part s"
    and st: "context_ready ev c" "fd_at s fr = Inr f" "io_live f" "io_context f = Inr ctx" "kind_fits sk f"
      "buffers_at s br = Inr (Single (buffer_of_data (buf_1024 buf)))"
    and rest: "\<And>out f' c2 s2 w2. \<lbrakk>context_ready ev c2; fd_at s2 fr = Inr f'; io_live f'; io_context f' = Inr ctx; kind_fits sk f';
        part s2 = part s; ext w2 = ext w; read_1024_post memory (pending stream file) buf f w out f' w2\<rbrakk>
      \<Longrightarrow> runs_to k lu ev perform view ring (run_closure ss k lu fin) R Q (fin cb (Size_result out)) (c2, s2, w2)"
  shows "runs_to k lu ev perform view ring (run_closure ss k lu fin) R Q (async_read ss k lu fin' fr br (transfer_at_least_t 1) cb) (c, s, w)"
proof (rule async_read_runs_to [where cond = "transfer_at_least_t 1" and part = part and ext = ext,
      OF laws transfer_at_least.completion_condition_axioms [of 1] _ _ ok view ext env feed st])
  let ?b = "Single (buffer_of_data (buf_1024 buf))"
  show "length (seq_addrs ?b) < 2 ^ 64" unfolding buf_1024_addrs(1) by simp
  have "unat (buffer_size ?b) = 1024" by (rule buf_1024_addrs(2))
  then have "buffer_size ?b \<noteq> 0" by (metis unat_0 zero_neq_numeral)
  then show "transfer_at_least_t 1 (buffer_size ?b) 0 \<noteq> 0" by (simp add: transfer_at_least_t_def word_gt_0)
next
  fix out :: "size_t result" and f' m and c2 :: "'f closure uring_context" and s2 :: "'x io_store_scheme" and w2
  assume "context_ready ev c2" "fd_at s2 fr = Inr f'" "io_live f'" "io_feed f (int m) = Inr f'" "part s2 = part s" "ext w2 = ext w"
    and "case out of Inl e \<Rightarrow> is_error e \<and> ec_category e = System_category
      | Inr n \<Rightarrow> m = unat n \<and> read_result (min 1) (\<lambda>b. b) (buffer_size (Single (buffer_of_data (buf_1024 buf)))) (pending stream file f w) m
          \<and> pending stream file f' w2 = drop m (pending stream file f w)
          \<and> memory w2 = received (memory w) (seq_addrs (Single (buffer_of_data (buf_1024 buf)))) (pending stream file f w) m"
  then show "runs_to k lu ev perform view ring (run_closure ss k lu fin) R Q (fin cb (Size_result out)) (c2, s2, w2)"
    by (intro rest read_1024_post) (use st(4,5) io_context_feed kind_fits_feed in auto)
qed

lemma async_write_1024_runs_to:
  fixes cb :: 'f and s :: "'x io_store_scheme" and w :: 'w
  assumes laws: "writev_law (ring_calls sk perform k) memory sink" "pwritev2_law (ring_calls sk perform k) memory file"
      "write_progress (ring_calls sk perform k)" "cqe_res_range perform" "gsl_subspan ss"
    and ok: "submission_ok k lu ev view"
    and view: "\<And>v w. view v = view w \<Longrightarrow> io_view memory sink file v = io_view memory sink file w"
      "\<And>v w. view v = view w \<Longrightarrow> ext v = ext w"
    and ext: "\<And>n iov off v. ext (snd (perform (io_sqe Write_op n iov off) v)) = ext v"
    and env: "\<And>s s'. R s s' \<Longrightarrow> keeps fr br s s'" "\<And>s s'. R s s' \<Longrightarrow> part s' = part s"
    and feed: "\<And>s s' n. feed_at s fr n = Inr s' \<Longrightarrow> part s' = part s"
    and size: "unat sz \<le> 1024" "sz \<noteq> 0"
    and st: "context_ready ev c" "fd_at s fr = Inr f" "io_live f" "io_context f = Inr ctx" "kind_fits sk f"
      "buffers_at s br = Inr (Single (buffer_of_data_n (buf_1024 buf) sz))"
    and rest: "\<And>out f' c2 s2 w2. \<lbrakk>context_ready ev c2; fd_at s2 fr = Inr f'; io_live f'; part s2 = part s; ext w2 = ext w;
        case out of Inl e \<Rightarrow> is_error e \<and> ec_category e = System_category
        | Inr n \<Rightarrow> written sink file f w (map (memory w) (addr_range buf (unat sz))) f' w2\<rbrakk>
      \<Longrightarrow> runs_to k lu ev perform view ring (run_closure ss k lu fin) R Q (fin cb (Size_result out)) (c2, s2, w2)"
  shows "runs_to k lu ev perform view ring (run_closure ss k lu fin) R Q (async_write ss k lu fin' fr br transfer_all_t cb) (c, s, w)"
proof (rule async_write_runs_to [where cond = transfer_all_t and part = part and ext = ext,
      OF laws transfer_all.completion_condition_axioms _ _ ok view ext env feed st])
  let ?b = "Single (buffer_of_data_n (buf_1024 buf) sz)"
  note b = buf_1024_addrs(3,4) [OF size(1), of buf]
  show "length (seq_addrs ?b) < 2 ^ 64" using b(1) size(1) by simp
  have "buffer_size ?b = sz" using b(2) by (simp add: word_unat_eq_iff)
  then show "transfer_all_t (buffer_size ?b) 0 \<noteq> 0" using size(2) by (simp add: transfer_all_t_def word_gt_0)
  fix out :: "size_t result" and f' and c2 :: "'f closure uring_context" and s2 :: "'x io_store_scheme" and w2
  assume "context_ready ev c2" "fd_at s2 fr = Inr f'" "io_live f'" "part s2 = part s" "ext w2 = ext w"
    and "case out of Inl e \<Rightarrow> is_error e \<and> ec_category e = System_category
      | Inr n \<Rightarrow> buffer_size ?b \<le> n \<and> n \<le> buffer_size ?b \<and> written sink file f w (map (memory w) (take (unat n) (seq_addrs ?b))) f' w2"
  then show "runs_to k lu ev perform view ring (run_closure ss k lu fin) R Q (fin cb (Size_result out)) (c2, s2, w2)"
    using \<open>buffer_size ?b = sz\<close> b(1) by (intro rest) (auto split: sum.splits)
qed

section \<open>Frames\<close>

text \<open>
  The frame of a coroutine of the example programs at address \<open>h\<close> holds its objects at fixed
  distances: the file or socket at \<open>file_at h\<close>, an address at \<open>addr_at h\<close>, the temporary buffer object of a
  \<open>co_await\<close> expression at \<open>temp_at h\<close>, the array at \<open>array_at h\<close>.
\<close>

definition file_at :: "addr \<Rightarrow> addr" where "file_at h = h + 16"
definition addr_at :: "addr \<Rightarrow> addr" where "addr_at h = h + 24"
definition temp_at :: "addr \<Rightarrow> addr" where "temp_at h = h + 32"
definition array_at :: "addr \<Rightarrow> addr" where "array_at h = h + 64"

lemma frame_layout_inj [simp]:
  "file_at h = file_at h' \<longleftrightarrow> h = h'" "addr_at h = addr_at h' \<longleftrightarrow> h = h'" "temp_at h = temp_at h' \<longleftrightarrow> h = h'"
  by (simp_all add: file_at_def addr_at_def temp_at_def)

lemma co_frames_set_frame [simp]: "co_frames (set_frame h fr s) = (co_frames s)(h \<mapsto> fr)"
  by (simp add: set_frame_def)

lemma set_frame_sel [simp]:
  "st_fds (set_frame h fr s) = st_fds s" "st_seekables (set_frame h fr s) = st_seekables s"
  "st_buffers (set_frame h fr s) = st_buffers s" "st_addresses (set_frame h fr s) = st_addresses s"
  "co_futures (set_frame h fr s) = co_futures s" "co_stdout (set_frame h fr s) = co_stdout s" "co_stderr (set_frame h fr s) = co_stderr s"
  by (simp_all add: set_frame_def)

lemma set_frame_set_frame [simp]: "set_frame h fr' (set_frame h fr s) = set_frame h fr' s"
  by (simp add: set_frame_def)

text \<open>
  The completion of the operation a coroutine awaits: the coroutine goes on with the result.
\<close>

lemma resume_callback_step:
  assumes "co_frames s h = Some fr" "fr_at fr = At_op aw" "fr_awaits fr = m"
  shows "resume_callback (co_resume P (Suc n)) (Resume_op h m) r (c, s, w) =
    (case body_run P h (fr_body fr) (Op_value r) (c, set_frame h (fr\<lparr>fr_at := Running\<rparr>) s, w) of
       Inl e \<Rightarrow> Inl e
     | Inr (act, st) \<Rightarrow> co_act P n (co_resume P n) h (fr\<lparr>fr_at := Running\<rparr>) act st)"
  using assms
  by (simp add: resume_callback_def co_step_def frame_await_resume_def op_await_resume_def Let_def)

declare co_resume.simps(2) [simp del] co_destroy.simps(2) [simp del]

text \<open>A task that has returned \<open>r\<close> to the coroutine \<open>hc\<close>, at the end \<open>b\<close> of its body.\<close>

definition returned_frame :: "addr \<Rightarrow> 'v \<Rightarrow> 'b coroutine \<Rightarrow> ('b, 'v) frame \<Rightarrow> bool" where
  "returned_frame hc r b fr \<longleftrightarrow>
     fr_promise fr = Task_promise \<lparr>pr_continuation = Some hc, pr_state = State_value, pr_value = Object r\<rparr>
     \<and> fr_body fr = b \<and> fr_at fr = At_final"

lemma task_returns:
  assumes "fr_promise fr = Task_promise (promise_create\<lparr>pr_continuation := Some hc\<rparr>)"
  obtains fr' where "returned_frame hc r b fr'"
    "co_act P n resume t fr (Return_value r [] b) (c, s, w) = resume hc (c, set_frame t fr' s, w)"
proof
  let ?p = "\<lparr>pr_continuation = Some hc, pr_state = State_value, pr_value = Object r\<rparr>"
  let ?fr = "fr\<lparr>fr_promise := Task_promise ?p, fr_body := b, fr_at := At_final\<rparr>"
  show "returned_frame hc r b ?fr" by (simp add: returned_frame_def)
  show "co_act P n resume t fr (Return_value r [] b) (c, s, w) = resume hc (c, set_frame t ?fr s, w)"
    using assms
    by (simp add: co_act_def promise_return_value_def promise_clear_def promise_create_def lifetime_construct_def co_finish_def)
qed

lemma task_returns_runs:
  assumes "fr_promise fr = Task_promise (promise_create\<lparr>pr_continuation := Some hc\<rparr>)"
    and "\<And>fr'. returned_frame hc r b fr' \<Longrightarrow> runs_to k lu ev perform view ring call R Q (co_resume P n hc) (c, set_frame t fr' s, w)"
  shows "runs_to k lu ev perform view ring call R Q (co_act P n (co_resume P n) t fr (Return_value r [] b)) (c, s, w)"
proof -
  obtain fr' where fr': "returned_frame hc r b fr'"
    "co_act P n (co_resume P n) t fr (Return_value r [] b) (c, s, w) = co_resume P n hc (c, set_frame t fr' s, w)"
    by (rule task_returns [OF assms(1)])
  from assms(2) [OF fr'(1)] fr'(2) show ?thesis by (rule runs_to_cong)
qed

lemma wrap_seekable_async [simp]:
  "sbase_ptr (wrap_seekable ctx n) = Some \<lparr>fildes = n, offset_val = 0\<rparr>"
  "get_context (wrap_seekable (Some i) n) = Inr i"
  by (simp_all add: wrap_seekable_def seekable_move_def set_async_context_def seekable_fd_create_def get_context_def)

section \<open>Allocation\<close>

text \<open>\<open>operator new\<close> gives an address not in use, as long as fewer than \<open>room\<close> objects exist.\<close>

definition objects :: "('b, 'v) co_store \<Rightarrow> nat" where
  "objects s = card (dom (co_frames s) \<union> dom (co_futures s))"

definition new_law :: "(('b, 'v) co_store \<Rightarrow> addr) \<Rightarrow> nat \<Rightarrow> bool" where
  "new_law new room \<longleftrightarrow> (\<forall>s. objects s < room \<longrightarrow> co_frames s (new s) = None \<and> co_futures s (new s) = None)"

lemma objects_step:
  "objects (set_frame h fr s) \<le> Suc (objects s)" "objects (s\<lparr>co_futures := (co_futures s)(a \<mapsto> v)\<rparr>) \<le> Suc (objects s)"
  by (simp_all add: objects_def set_frame_def card_insert_if)

text \<open>\<open>co_async\<close> of a task: the coroutine \<open>hl\<close> of the lambda starts and awaits it.\<close>

lemma co_async_starts:
  assumes new: "new_law (p_new P) room" "objects s + 2 \<le> room"
    and t: "co_frames s t = Some tf" "fr_promise tf \<noteq> Fire_and_forget"
  obtains fut hl pr s' where "task_await_suspend hl (fr_promise tf) = Inr pr" "hl \<noteq> t" "co_frames s hl = None" "objects s' \<le> objects s + 2"
    "s' = set_frame t (tf\<lparr>fr_promise := pr\<rparr>) (set_frame hl \<lparr>fr_promise = Fire_and_forget, fr_body = Co_async_await fut t,
       fr_at = At_task t, fr_awaits = 0\<rparr> (s\<lparr>co_futures := (co_futures s)(fut \<mapsto> None)\<rparr>))"
    "\<And>c w n. co_async P (co_resume P (Suc n)) t (c, s, w) =
       (case co_resume P n t (c, s', w) of Inl e \<Rightarrow> Inl e | Inr st \<Rightarrow> Inr (fut, st))"
proof -
  define fut where "fut = p_new P s"
  define s2 where "s2 = s\<lparr>co_futures := (co_futures s)(fut \<mapsto> None)\<rparr>"
  define hl where "hl = p_new P s2"
  let ?async = "\<lambda>b at. \<lparr>fr_promise = Fire_and_forget, fr_body = b, fr_at = at, fr_awaits = 0\<rparr>"
  have objs: "objects s2 \<le> Suc (objects s)" unfolding s2_def by (rule objects_step)
  then have "objects s2 < room" using new(2) by simp
  then have "co_frames s2 hl = None" using new(1) unfolding new_law_def hl_def by simp
  then have hl: "co_frames s hl = None" "hl \<noteq> t" using t(1) by (auto simp: s2_def)
  obtain pr where pr: "task_await_suspend hl (fr_promise tf) = Inr pr"
    using t(2) by (cases "fr_promise tf") (auto simp: task_await_suspend_def)
  define s' where "s' = set_frame t (tf\<lparr>fr_promise := pr\<rparr>) (set_frame hl (?async (Co_async_await fut t) (At_task t)) s2)"
  have "objects s' = objects (set_frame hl (?async (Co_async_await fut t) (At_task t)) s2)"
    using t(1) by (simp add: objects_def s'_def s2_def insert_commute insert_absorb domI)
  also have "\<dots> \<le> Suc (objects s2)" by (rule objects_step)
  finally have "objects s' \<le> objects s + 2" using objs by simp
  moreover have "co_async P (co_resume P (Suc n)) t (c, s, w) =
      (case co_resume P n t (c, s', w) of Inl e \<Rightarrow> Inl e | Inr st \<Rightarrow> Inr (fut, st))" for c w n
  proof -
    have "co_async P (co_resume P (Suc n)) t (c, s, w) =
        (case co_resume P (Suc n) hl (c, set_frame hl (?async (Co_async_start fut t) At_start) s2, w) of
           Inl e \<Rightarrow> Inl e | Inr st \<Rightarrow> Inr (fut, st))"
      by (simp only: co_async_def Let_def prod.case fut_def [symmetric] s2_def [symmetric] hl_def [symmetric])
    also have "co_resume P (Suc n) hl (c, set_frame hl (?async (Co_async_start fut t) At_start) s2, w) = co_resume P n t (c, s', w)"
      using t(1) hl pr
      by (subst co_resume.simps) (auto simp: co_step_def frame_await_resume_def body_run_def co_async_body_def co_act_def s'_def s2_def Let_def)
    finally show ?thesis .
  qed
  ultimately show ?thesis using that pr hl s'_def s2_def by blast
qed

text \<open>An allocator for the closed instances: the first of eight places that is free.\<close>

definition demo_places :: "addr list" where
  "demo_places = [65536, 131072, 196608, 262144, 327680, 393216, 458752, 524288]"

definition demo_new :: "('b, 'v) co_store \<Rightarrow> addr" where
  "demo_new s = hd (filter (\<lambda>a. co_frames s a = None \<and> co_futures s a = None) demo_places)"

lemma demo_new_law: "new_law demo_new 8"
  unfolding new_law_def
proof (intro allI impI)
  fix s :: "('a, 'b) co_store"
  let ?used = "dom (co_frames s) \<union> dom (co_futures s)"
  assume "objects s < 8"
  moreover have "card (set demo_places) = 8" by (simp add: demo_places_def)
  ultimately have "\<not> set demo_places \<subseteq> ?used" using card_mono [of ?used "set demo_places"] by (auto simp: objects_def)
  then have "filter (\<lambda>a. co_frames s a = None \<and> co_futures s a = None) demo_places \<noteq> []" by (auto simp: filter_empty_conv)
  from hd_in_set [OF this] show "co_frames s (demo_new s) = None \<and> co_futures s (demo_new s) = None" by (auto simp: demo_new_def)
qed

definition empty_store :: "('b, 'v) co_store" where
  "empty_store =
     \<lparr>st_fds = (\<lambda>a. None), st_seekables = (\<lambda>a. None), st_buffers = (\<lambda>a. None), st_addresses = (\<lambda>a. None),
      co_frames = (\<lambda>a. None), co_futures = (\<lambda>a. None), co_stdout = [], co_stderr = []\<rparr>"

end
