(* ===== verification/Ark_Coro_Cat.thy ===== *)
theory Ark_Coro_Cat
  imports Ark_Coroutine_IO
begin

text \<open>
  \<open>examples/coro_cat.cpp\<close>: the files printed by coroutines on the event loop. The value of a \<open>task<result<void>>\<close> is a \<open>unit result\<close>.
\<close>

section \<open>The coroutines\<close>

text \<open>
  The suspension points. \<open>to_stdout\<close> has a reference to the file; \<open>coro_cat\<close> has the files left,
  and the task it awaits.
\<close>

datatype cat_body =
    To_stdout addr
  | To_stdout_read addr
  | Coro_cat "string list"
  | Coro_cat_next "string list"
  | Coro_cat_await addr "string list"
  | Coro_cat_awaited "unit result" "string list"
  | Cat_returned

type_synonym 'w cat_state = "(cat_body, unit result, 'w) co_state"

text \<open>\<open>co_await coro::read(f, buffer(buf), transfer_at_least(1))\<close>, up to the suspension.\<close>

definition to_stdout_await ::
  "addr \<Rightarrow> addr \<Rightarrow> 'w cat_state \<Rightarrow> (cat_body, unit result) action \<times> 'w cat_state"
where
  "to_stdout_await self f st =
     (case st of (c, s, w) \<Rightarrow>
        (Await_op (coro_read (Seekable_ref f) (temp_at self) (transfer_at_least_t 1)) (To_stdout_read f),
         c, s\<lparr>st_buffers := (st_buffers s)(temp_at self \<mapsto> Single (buffer_of_data (buf_1024 (array_at self))))\<rparr>, w))"

text \<open>After the read: the temporary is destroyed, the bytes are printed, and the loop goes on.\<close>

definition to_stdout_resumed ::
  "('w \<Rightarrow> mem) \<Rightarrow> addr \<Rightarrow> addr \<Rightarrow> completion \<Rightarrow> 'w cat_state \<Rightarrow> failure + (cat_body, unit result) action \<times> 'w cat_state"
where
  "to_stdout_resumed memory self f r st =
     (case st of (c, s, w) \<Rightarrow>
      let s' = s\<lparr>st_buffers := (st_buffers s)(temp_at self := None)\<rparr> in
      case r of
        Size_result (Inl ec) \<Rightarrow> Inr (Return_value (Inl ec) [] Cat_returned, c, s', w)
      | Size_result (Inr sz) \<Rightarrow>
          (if sz = 0 then Inr (Return_value (Inr ()) [] Cat_returned, c, s', w)
           else Inr (to_stdout_await self f
                  (c, s'\<lparr>co_stdout := co_stdout s' @ map (memory w) (addr_range (array_at self) (unat sz))\<rparr>, w)))
      | _ \<Rightarrow> Inl No_value)"

text \<open>The loop of \<open>coro_cat\<close>; the exit guard is destroyed when it returns.\<close>

definition coro_cat_loop ::
  "'w clinux \<Rightarrow> ((cat_body, unit result) co_store \<Rightarrow> addr) \<Rightarrow> nat \<Rightarrow> addr \<Rightarrow> string list \<Rightarrow> 'w cat_state
   \<Rightarrow> (cat_body, unit result) action \<times> 'w cat_state"
where
  "coro_cat_loop k new ctx self files st =
     (case st of (c, s, w) \<Rightarrow>
      case files of
        [] \<Rightarrow> (Return_value (Inr ()) [Exit_guard] Cat_returned, st)
      | filename # rest \<Rightarrow>
          (case normal_file_open k (Some ctx) filename 0 w of
             (Inl ec, w') \<Rightarrow> (Return_value (Inl ec) [Exit_guard] Cat_returned, c, s, w')
           | (Inr f, w') \<Rightarrow>
               (case task_create new (Task_promise promise_create) (To_stdout (file_at self))
                       (s\<lparr>st_seekables := (st_seekables s)(file_at self \<mapsto> f)\<rparr>) of
                  (t, s') \<Rightarrow> (Await_task t (Coro_cat_await t rest), c, s', w'))))"

definition cat_run ::
  "'w clinux \<Rightarrow> ((cat_body, unit result) co_store \<Rightarrow> addr) \<Rightarrow> ('w \<Rightarrow> mem) \<Rightarrow> nat \<Rightarrow> addr \<Rightarrow> cat_body \<Rightarrow> unit result awaited
   \<Rightarrow> 'w cat_state \<Rightarrow> failure + (cat_body, unit result) action \<times> 'w cat_state"
where
  "cat_run k new memory ctx self b v st =
     (case (b, v) of
        (To_stdout f, _) \<Rightarrow> Inr (to_stdout_await self f st)
      | (To_stdout_read f, Op_value r) \<Rightarrow> to_stdout_resumed memory self f r st
      | (Coro_cat files, _) \<Rightarrow> Inr (coro_cat_loop k new ctx self files st)
      | (Coro_cat_next files, _) \<Rightarrow> Inr (coro_cat_loop k new ctx self files st)
      | (Coro_cat_await t files, Task_value r) \<Rightarrow> Inr (Destroy [Task_at t] (Coro_cat_awaited r files), st)
      | (Coro_cat_awaited (Inl ec) files, _) \<Rightarrow>
          Inr (Return_value (Inl ec) [Seekable_at (file_at self), Exit_guard] Cat_returned, st)
      | (Coro_cat_awaited (Inr u) files, _) \<Rightarrow> Inr (Destroy [Seekable_at (file_at self)] (Coro_cat_next files), st)
      | _ \<Rightarrow> Inl No_value)"

fun cat_locals :: "addr \<Rightarrow> cat_body \<Rightarrow> owned list" where
  "cat_locals self (To_stdout_read f) = [Buffers_at (temp_at self)]"
| "cat_locals self (Coro_cat_next files) = [Exit_guard]"
| "cat_locals self (Coro_cat_await t files) = [Task_at t, Seekable_at (file_at self), Exit_guard]"
| "cat_locals self (Coro_cat_awaited r files) = [Seekable_at (file_at self), Exit_guard]"
| "cat_locals self _ = []"

text \<open>The program; the parameters of its coroutines are references.\<close>

definition cat_program ::
  "subspan_t \<Rightarrow> 'w clinux \<Rightarrow> 'w liburing \<Rightarrow> ((cat_body, unit result) co_store \<Rightarrow> addr) \<Rightarrow> ('w \<Rightarrow> mem) \<Rightarrow> nat
   \<Rightarrow> (cat_body, unit result, 'w) co_program"
where
  "cat_program ss k lu new memory ctx =
     \<lparr>p_subspan = ss, p_clinux = k, p_liburing = lu, p_new = new, p_dtor = (\<lambda>v w. w), p_void = Inr (),
      p_body = cat_run k new memory ctx, p_locals = cat_locals, p_params = (\<lambda>h b. [])\<rparr>"

text \<open>\<open>run\<close>: \<open>co_async(coro_cat(ctx, filenames))\<close>, then the loop, then the future.\<close>

definition coro_cat_start ::
  "(cat_body, unit result, 'w) co_program \<Rightarrow> nat \<Rightarrow> string list \<Rightarrow> 'w cat_state \<Rightarrow> failure + addr \<times> 'w cat_state"
where
  "coro_cat_start P n filenames st =
     (case st of (c, s, w) \<Rightarrow>
      case task_create (p_new P) (Task_promise promise_create) (Coro_cat filenames) s of
        (t, s') \<Rightarrow> co_async P (co_resume P n) t (c, s', w))"

definition coro_cat_run ::
  "(cat_body, unit result, 'w) co_program \<Rightarrow> nat \<Rightarrow> int \<Rightarrow> string list \<Rightarrow> (cat_body, unit result) co_store \<Rightarrow> 'w
   \<Rightarrow> (failure + unit result \<times> (cat_body, unit result) co_store \<times> 'w) option"
where
  "coro_cat_run P n evfd args s w =
     (case context_init (p_clinux P) (p_liburing P) (context_create evfd) w of
        Inl e \<Rightarrow> Some (Inl e)
      | Inr (Inl ec, c, w1) \<Rightarrow> Some (Inr (Inl ec, s, context_destroy (p_liburing P) c w1))
      | Inr (Inr u, c, w1) \<Rightarrow>
          (case coro_cat_start P n args (c, s, w1) of
             Inl e \<Rightarrow> Some (Inl e)
           | Inr (fut, st) \<Rightarrow>
               Option.bind (context_run (p_clinux P) (p_liburing P) (co_run_closure P n) st)
                 (\<lambda>r. case r of
                    Inl e \<Rightarrow> Some (Inl e)
                  | Inr (Inl ec, c', s', w') \<Rightarrow> Some (Inr (Inl ec, s', context_destroy (p_liburing P) c' w'))
                  | Inr (Inr u, c', s', w') \<Rightarrow>
                      (case co_futures s' fut of
                         Some (Some v) \<Rightarrow> Some (Inr (v, s', context_destroy (p_liburing P) c' w'))
                       | _ \<Rightarrow> None))))"

section \<open>Printing one file\<close>

lemma cat_program_sel [simp]:
  "p_subspan (cat_program ss k lu new memory ctx) = ss" "p_clinux (cat_program ss k lu new memory ctx) = k"
  "p_liburing (cat_program ss k lu new memory ctx) = lu" "p_new (cat_program ss k lu new memory ctx) = new"
  "p_dtor (cat_program ss k lu new memory ctx) = (\<lambda>v w. w)" "p_body (cat_program ss k lu new memory ctx) = cat_run k new memory ctx"
  "p_params (cat_program ss k lu new memory ctx) = (\<lambda>h b. [])"
  by (simp_all add: cat_program_def)

lemma store_with_file:
  assumes "s2\<lparr>st_seekables := (st_seekables s2)(a := None)\<rparr> = s1\<lparr>st_seekables := (st_seekables s1)(a := None)\<rparr>"
    and "st_seekables s2 a = Some f"
  shows "s2 = s1\<lparr>st_seekables := (st_seekables s1)(a \<mapsto> f)\<rparr>"
proof -
  have "s2 = (s2\<lparr>st_seekables := (st_seekables s2)(a := None)\<rparr>)\<lparr>st_seekables := (st_seekables s2)(a := None, a \<mapsto> f)\<rparr>"
    using assms(2) by (simp add: fun_upd_idem)
  also have "\<dots> = s1\<lparr>st_seekables := (st_seekables s2)(a := None, a \<mapsto> f)\<rparr>"
    unfolding assms(1) by simp
  also have "(st_seekables s2)(a := None) = (st_seekables s1)(a := None)"
    using arg_cong [OF assms(1), of st_seekables] by simp
  finally show ?thesis by (simp only: fun_upd_upd)
qed

text \<open>The store while \<open>to_stdout\<close> runs.\<close>

definition cat_st ::
  "(cat_body, unit result) co_store \<Rightarrow> addr \<Rightarrow> seekable_fd \<Rightarrow> (addr \<rightharpoonup> buffer_sequence) \<Rightarrow> byte list \<Rightarrow> addr
   \<Rightarrow> (cat_body, unit result) frame \<Rightarrow> (cat_body, unit result) co_store"
where
  "cat_st s0 fa f sb out t fr =
     set_frame t fr (s0\<lparr>st_seekables := (st_seekables s0)(fa \<mapsto> f), st_buffers := sb, co_stdout := out\<rparr>)"

lemma cat_st_simps [simp]:
  "(cat_st s0 fa f sb out t fr)\<lparr>st_buffers := sb'\<rparr> = cat_st s0 fa f sb' out t fr"
  "(cat_st s0 fa f sb out t fr)\<lparr>co_stdout := out'\<rparr> = cat_st s0 fa f sb out' t fr"
  "(cat_st s0 fa f sb out t fr)\<lparr>st_seekables := (st_seekables s0)(fa \<mapsto> f')\<rparr> = cat_st s0 fa f' sb out t fr"
  "set_frame t fr' (cat_st s0 fa f sb out t fr) = cat_st s0 fa f sb out t fr'"
  "st_buffers (cat_st s0 fa f sb out t fr) = sb" "co_stdout (cat_st s0 fa f sb out t fr) = out"
  "st_seekables (cat_st s0 fa f sb out t fr) = (st_seekables s0)(fa \<mapsto> f)"
  "co_frames (cat_st s0 fa f sb out t fr) = (co_frames s0)(t \<mapsto> fr)"
  by (simp_all add: cat_st_def set_frame_def)

text \<open>After a read: \<open>to_stdout\<close> returns, or prints what it has read and reads again.\<close>

lemma to_stdout_resumed_runs:
  assumes promise: "fr_promise fr = Task_promise (promise_create\<lparr>pr_continuation := Some hc\<rparr>)"
    and post: "read_1024_post memory (pending stream file) (array_at t) (Seekable f) w out2 (Seekable f') w2"
    and out: "P0 = out @ pending stream file (Seekable f) w"
    and returned: "\<And>r fr' left. \<lbrakk>returned_frame hc r (User_body Cat_returned) fr'; P0 = out @ left;
        case r of Inl e \<Rightarrow> is_error e \<and> ec_category e = System_category | Inr u \<Rightarrow> left = []\<rbrakk>
      \<Longrightarrow> runs_to k lu ev perform view ring call R Q (co_resume P n hc) (c2, cat_st s0 fa f' (sb(temp_at t := None)) out t fr', w2)"
    and again: "\<And>out'. \<lbrakk>length (pending stream file (Seekable f') w2) < length (pending stream file (Seekable f) w);
        P0 = out' @ pending stream file (Seekable f') w2\<rbrakk>
      \<Longrightarrow> runs_to k lu ev perform view ring call R Q
        (\<lambda>st. case to_stdout_await t fa st of (act, st') \<Rightarrow> co_act P n (co_resume P n) t fr (action_of act) st')
        (c2, cat_st s0 fa f' (sb(temp_at t := None)) out' t fr, w2)"
  shows "runs_to k lu ev perform view ring call R Q
    (\<lambda>st. case to_stdout_resumed memory t fa (Size_result out2) st of
       Inl e \<Rightarrow> Inl e | Inr (act, st) \<Rightarrow> co_act P n (co_resume P n) t fr (action_of act) st) (c2, cat_st s0 fa f' sb out t fr, w2)"
proof -
  let ?runs = "runs_to k lu ev perform view ring call R Q"
  have ret: "?runs (co_act P n (co_resume P n) t fr (Return_value r [] (User_body Cat_returned)))
      (c2, cat_st s0 fa f' (sb(temp_at t := None)) out t fr, w2)"
    if "P0 = out @ left" "case r of Inl e \<Rightarrow> is_error e \<and> ec_category e = System_category | Inr u \<Rightarrow> left = []" for r left
    by (rule task_returns_runs [OF promise]) (use returned [OF _ that] in simp)
  consider (ends) r :: "unit result" where "out2 = (case r of Inl e \<Rightarrow> Inl e | Inr u \<Rightarrow> Inr 0)" | (data) sz where "out2 = Inr sz" "sz \<noteq> 0"
    by (cases out2) (metis old.sum.simps(5), metis old.sum.simps(6))
  then show ?thesis
  proof cases
    case (ends r)
    then have "?runs (co_act P n (co_resume P n) t fr (Return_value r [] (User_body Cat_returned)))
        (c2, cat_st s0 fa f' (sb(temp_at t := None)) out t fr, w2)"
      using post out by (intro ret [of "pending stream file (Seekable f) w"]) (auto simp: read_1024_post_def split: sum.splits)
    then show ?thesis by (rule runs_to_cong) (auto simp: ends to_stdout_resumed_def split: sum.splits)
  next
    case (data sz)
    let ?out = "out @ take (unat sz) (pending stream file (Seekable f) w)"
    note post = post [unfolded data(1) read_1024_post_def sum.case]
    have "0 < unat sz" using data(2) by (simp add: unat_gt_0)
    then have less: "length (pending stream file (Seekable f') w2) < length (pending stream file (Seekable f) w)"
      using post by (auto intro: diff_less)
    have "?runs (\<lambda>st. case to_stdout_await t fa st of (act, st') \<Rightarrow> co_act P n (co_resume P n) t fr (action_of act) st')
        (c2, cat_st s0 fa f' (sb(temp_at t := None)) ?out t fr, w2)"
      by (rule again [OF less]) (use post out in simp)
    then show ?thesis by (rule runs_to_cong) (use post in \<open>simp add: data to_stdout_resumed_def split: prod.splits\<close>)
  qed
qed

lemma to_stdout_runs:
  fixes w :: 'w
  assumes laws: "readv_law (ring_calls sk perform k) memory stream" "preadv2_law (ring_calls sk perform k) memory file"
      "cqe_res_range perform" "gsl_subspan ss"
    and ok: "submission_ok k lu ev view"
    and view: "\<And>v w. view v = view w \<Longrightarrow> io_view memory stream file v = io_view memory stream file w"
      "\<And>v w. view v = view w \<Longrightarrow> ext v = ext w"
    and ext: "\<And>n iov off v. ext (snd (perform (io_sqe Read_op n iov off) v)) = ext v"
    and P: "P = cat_program ss k lu new memory ctx"
    and rest: "\<And>r f' c2 sb w2 fr' out' left. \<lbrakk>context_ready ev c2; ext w2 = ext w0; returned_frame hc r (User_body Cat_returned) fr';
        P0 = out' @ left; case r of Inl e \<Rightarrow> is_error e \<and> ec_category e = System_category | Inr u \<Rightarrow> left = []\<rbrakk>
      \<Longrightarrow> runs_to k lu ev perform view ring (co_run_closure P (Suc n)) (\<lambda>s s'. s' = s) Q (co_resume P n hc)
            (c2, cat_st s0 fa f' (sb0(temp_at t := None)) out' t fr', w2)"
    and "context_ready ev c" "io_live (Seekable f)" "io_context (Seekable f) = Inr ctx'" "kind_fits sk (Seekable f)"
      "fr_promise fr = Task_promise (promise_create\<lparr>pr_continuation := Some hc\<rparr>)"
      "P0 = out @ pending stream file (Seekable f) w" "ext w = ext w0" "sb(temp_at t := None) = sb0(temp_at t := None)"
  shows "runs_to k lu ev perform view ring (co_run_closure P (Suc n)) (\<lambda>s s'. s' = s) Q
    (\<lambda>st. case to_stdout_await t fa st of (act, st') \<Rightarrow> co_act P m resume t fr (action_of act) st')
    (c, cat_st s0 fa f sb out t fr2, w)"
  using assms(11-)
proof (induction "length (pending stream file (Seekable f) w)" arbitrary: c w f fr fr2 out sb m resume rule: less_induct)
  case less
  let ?aw = "coro_read (Seekable_ref fa) (temp_at t) (transfer_at_least_t 1)" and ?fin = "resume_callback (co_resume P (Suc n))"
  let ?fr = "fr\<lparr>fr_body := User_body (To_stdout_read fa), fr_at := At_op ?aw, fr_awaits := Suc (fr_awaits fr)\<rparr>"
  let ?B = "Single (buffer_of_data (buf_1024 (array_at t)))" and ?cb = "Resume_op t (Suc (fr_awaits fr))"
  let ?s1 = "cat_st s0 fa f (sb(temp_at t \<mapsto> ?B)) out t ?fr"
  let ?part = "\<lambda>s :: (cat_body, unit result) co_store. s\<lparr>st_seekables := (st_seekables s)(fa := None)\<rparr>"
  let ?runs = "runs_to k lu ev perform view ring (run_closure ss k lu ?fin) (\<lambda>s s'. s' = s) Q"
  have call: "co_run_closure P (Suc n) = run_closure ss k lu ?fin" by (simp add: co_run_closure_def P)
  have "?runs (async_read ss k lu (resume_callback resume) (Seekable_ref fa) (temp_at t) (transfer_at_least_t 1) ?cb) (c, ?s1, w)"
  proof (rule async_read_1024_runs_to [where part = ?part and ext = ext and f = "Seekable f" and buf = "array_at t",
        OF laws ok view ext _ _ _ less.prems(1) _ less.prems(2,3,4)])
    fix out2 :: "size_t result" and f2 and c2 :: "co_callback closure uring_context" and s2 w2
    assume res: "context_ready ev c2" "fd_at s2 (Seekable_ref fa) = Inr f2" "io_live f2" "io_context f2 = Inr ctx'" "kind_fits sk f2"
      "?part s2 = ?part ?s1" "ext w2 = ext w"
      "read_1024_post memory (pending stream file) (array_at t) (Seekable f) w out2 f2 w2"
    then obtain f' where f': "f2 = Seekable f'" "st_seekables s2 fa = Some f'" by (auto split: option.splits)
    from store_with_file [OF res(6) f'(2)] have s2: "s2 = cat_st s0 fa f' (sb(temp_at t \<mapsto> ?B)) out t ?fr" by simp
    let ?fr' = "?fr\<lparr>fr_at := Running\<rparr>" and ?sb = "sb(temp_at t := None)"
    have step: "?fin ?cb (Size_result out2) (c2, s2, w2) =
        (case to_stdout_resumed memory t fa (Size_result out2) (c2, cat_st s0 fa f' (sb(temp_at t \<mapsto> ?B)) out t ?fr', w2) of
           Inl e \<Rightarrow> Inl e | Inr (act, st) \<Rightarrow> co_act P n (co_resume P n) t ?fr' (action_of act) st)"
      unfolding s2 P
      by (subst resume_callback_step [where fr = ?fr]) (auto simp: body_run_def cat_run_def split: sum.splits prod.splits)
    have promise: "fr_promise ?fr' = Task_promise (promise_create\<lparr>pr_continuation := Some hc\<rparr>)" using less.prems(5) by simp
    have ext2: "ext w2 = ext w0" using res(7) less.prems(7) by simp
    have sb: "(sb(temp_at t \<mapsto> ?B))(temp_at t := None) = sb0(temp_at t := None)" using less.prems(8) by simp
    have "?runs (\<lambda>st. case to_stdout_resumed memory t fa (Size_result out2) st of
        Inl e \<Rightarrow> Inl e | Inr (act, st) \<Rightarrow> co_act P n (co_resume P n) t ?fr' (action_of act) st)
        (c2, cat_st s0 fa f' (sb(temp_at t \<mapsto> ?B)) out t ?fr', w2)"
    proof (rule to_stdout_resumed_runs [OF promise res(8) [unfolded f'(1)] less.prems(6)], unfold sb call [symmetric])
      show "runs_to k lu ev perform view ring (co_run_closure P (Suc n)) (\<lambda>s s'. s' = s) Q (co_resume P n hc)
          (c2, cat_st s0 fa f' (sb0(temp_at t := None)) out t fr', w2)"
        if "returned_frame hc r (User_body Cat_returned) fr'" "P0 = out @ left"
          "case r of Inl e \<Rightarrow> is_error e \<and> ec_category e = System_category | Inr u \<Rightarrow> left = []" for r fr' left
        by (rule rest [OF res(1) ext2 that])
      show "runs_to k lu ev perform view ring (co_run_closure P (Suc n)) (\<lambda>s s'. s' = s) Q
          (\<lambda>st. case to_stdout_await t fa st of (act, st') \<Rightarrow> co_act P n (co_resume P n) t ?fr' (action_of act) st')
          (c2, cat_st s0 fa f' (sb0(temp_at t := None)) out' t ?fr', w2)"
        if "length (pending stream file (Seekable f') w2) < length (pending stream file (Seekable f) w)"
          "P0 = out' @ pending stream file (Seekable f') w2" for out'
        by (rule less.hyps [OF that(1) res(1) _ _ _ promise that(2) ext2]) (use res(3-5) f'(1) in simp_all)
    qed
    then show "?runs (?fin ?cb (Size_result out2)) (c2, s2, w2)" by (rule runs_to_cong) (rule step)
  qed (auto simp: keeps_def buffers_at_def split: option.splits sum.splits)
  then show ?case
    unfolding call
    by (rule runs_to_cong) (simp add: P to_stdout_await_def co_act_def coro_read_def awaitable_create_def op_await_ready_def
        awaitable_invoke_def Let_def)
qed

section \<open>Returning to the future\<close>

text \<open>The frame of the lambda of \<open>co_async\<close> while it awaits \<open>hc\<close>.\<close>

definition async_frame :: "addr \<Rightarrow> addr \<Rightarrow> (cat_body, unit result) frame \<Rightarrow> bool" where
  "async_frame fut hc fr \<longleftrightarrow>
     fr_promise fr = Fire_and_forget \<and> fr_body fr = Co_async_await fut hc \<and> fr_at fr = At_task hc"

lemma co_destroy_returned:
  assumes "co_frames s h = Some fr" "fr_at fr = At_final"
    and "fr_promise fr = Task_promise \<lparr>pr_continuation = hl, pr_state = State_value, pr_value = Moved_from\<rparr>"
    and "fr_body fr = User_body b"
  shows "co_destroy (cat_program ss k lu new memory ctx) (Suc n) h (c, s, w) = Inr (c, s\<lparr>co_frames := (co_frames s)(h := None)\<rparr>, w)"
  using assms
  by (simp add: co_destroy.simps(2) destroy_frame_def frame_promise_destroy_def promise_destroy_def promise_clear_def lifetime_destruct_def
      body_params_def Let_def)

text \<open>
  \<open>coro_cat\<close> returns: the guard ends the loop, the value reaches the future, and both coroutines are
  gone.
\<close>

lemma coro_cat_returns:
  assumes "context_ready ev c" "submission_ok k lu ev view"
    and "co_frames s hl = Some fl" "async_frame fut hc fl" "hl \<noteq> hc" "co_futures s fut = Some None"
    and "fr_promise fr = Task_promise (promise_create\<lparr>pr_continuation := Some hl\<rparr>)"
    and P: "P = cat_program ss k lu new memory ctx" and calls: "calls_keep k ring"
  obtains w' where "ring w' = ring w" and "co_act P m (co_resume P (Suc (Suc (Suc n)))) hc fr (Return_value r [Exit_guard] (User_body Cat_returned)) (c, s, w) =
    Inr (c\<lparr>exiting := True\<rparr>, s\<lparr>co_futures := (co_futures s)(fut \<mapsto> Some r), co_frames := (co_frames s)(hc := None, hl := None)\<rparr>, w')"
proof -
  obtain b0 a0 m0 where fr: "fr = \<lparr>fr_promise = Task_promise (promise_create\<lparr>pr_continuation := Some hl\<rparr>), fr_body = b0, fr_at = a0, fr_awaits = m0\<rparr>"
    using assms(7) by (cases fr) auto
  obtain ml where fl: "fl = \<lparr>fr_promise = Fire_and_forget, fr_body = Co_async_await fut hc, fr_at = At_task hc, fr_awaits = ml\<rparr>"
    using assms(4) by (cases fl) (auto simp: async_frame_def)
  let ?fr = "\<lambda>v. \<lparr>fr_promise = Task_promise \<lparr>pr_continuation = Some hl, pr_state = State_value, pr_value = v\<rparr>,
    fr_body = User_body Cat_returned, fr_at = At_final, fr_awaits = m0\<rparr>"
  let ?fl = "\<lparr>fr_promise = Fire_and_forget, fr_body = Co_async_end hc, fr_at = At_final, fr_awaits = ml\<rparr>"
  have "context_ready ev (c\<lparr>exiting := True\<rparr>)" using assms(1) by (simp add: context_ready_def unlocked_def)
  from submission_ok_wake(1) [OF assms(2) this, of w] obtain w' where wake: "wake k (c\<lparr>exiting := True\<rparr>) w = (Inr (), w')"
    by (metis prod.collapse)
  then have ring: "ring w' = ring w" using calls by (auto simp: wake_def calls_keep_def split: prod.splits if_splits) (metis snd_conv)
  have "co_act P m (co_resume P (Suc (Suc (Suc n)))) hc fr (Return_value r [Exit_guard] (User_body Cat_returned)) (c, s, w) =
      co_resume P (Suc (Suc (Suc n))) hl (c\<lparr>exiting := True\<rparr>, set_frame hc (?fr (Object r)) s, w')"
    using wake unfolding P fr
    by (simp add: co_act_def promise_return_value_def promise_clear_def promise_create_def lifetime_construct_def co_finish_def
        destroy_owned_def context_exit_def Let_def)
  also have "\<dots> = co_destroy P (Suc (Suc n)) hl (c\<lparr>exiting := True\<rparr>,
      set_frame hl ?fl (set_frame hc (?fr Moved_from) (s\<lparr>co_futures := (co_futures s)(fut \<mapsto> Some r)\<rparr>)), w')"
    using assms(3,5,6) unfolding P fl
    by (simp add: co_resume.simps(2) co_step_def frame_await_resume_def task_await_resume_def promise_get_def lifetime_get_def body_run_def
        co_async_body_def future_set_value_def co_act_def co_finish_def Let_def set_frame_def fun_upd_twist)
  also have "\<dots> = Inr (c\<lparr>exiting := True\<rparr>,
      s\<lparr>co_futures := (co_futures s)(fut \<mapsto> Some r), co_frames := (co_frames s)(hc := None, hl := None)\<rparr>, w')"
    using assms(5) unfolding P
    by (simp add: co_destroy.simps(2) destroy_frame_def frame_promise_destroy_def body_params_def destroy_owned_def promise_destroy_def
        promise_clear_def lifetime_destruct_def Let_def set_frame_def fun_upd_twist)
  finally show ?thesis by (rule that [OF ring])
qed

text \<open>
  \<open>coro_cat\<close> is resumed by \<open>to_stdout\<close>: it takes the result and destroys the task, then it either
  closes the file and returns the error, or closes the file and goes on with the next one.
\<close>

lemma coro_cat_resumed:
  assumes "co_frames s hc = Some fr" "fr_body fr = User_body (Coro_cat_await t files)" "fr_at fr = At_task t" "hc \<noteq> t"
    and pr: "fr_promise fr = Task_promise (promise_create\<lparr>pr_continuation := Some hl\<rparr>)"
    and "co_frames s t = Some tf" "returned_frame hc r (User_body Cat_returned) tf" "st_seekables s (file_at hc) = Some f"
    and P: "P = cat_program ss k lu new memory ctx"
  obtains fr' s' where "fr_promise fr' = fr_promise fr" and "co_frames s' = (co_frames s)(t := None, hc \<mapsto> fr')"
    and "co_futures s' = co_futures s" and "co_stdout s' = co_stdout s"
    and "co_resume P (Suc (Suc (Suc (Suc n)))) hc (c, s, w) =
      (case r of
         Inl ec \<Rightarrow> co_act P (Suc (Suc n)) (co_resume P (Suc (Suc n))) hc fr' (Return_value (Inl ec) [Exit_guard] (User_body Cat_returned))
             (c, s', seekable_destroy k f w)
       | Inr u \<Rightarrow> (case coro_cat_loop k new ctx hc files (c, s', seekable_destroy k f w) of
             (act, st) \<Rightarrow> co_act P (Suc n) (co_resume P (Suc n)) hc fr' (action_of act) st))"
proof -
  let ?pr = "Task_promise (promise_create\<lparr>pr_continuation := Some hl\<rparr>)"
  obtain m where fr: "fr = \<lparr>fr_promise = ?pr, fr_body = User_body (Coro_cat_await t files), fr_at = At_task t, fr_awaits = m\<rparr>"
    using assms(2,3) pr by (cases fr) auto
  let ?fr = "\<lambda>b a. \<lparr>fr_promise = ?pr, fr_body = User_body b, fr_at = a, fr_awaits = m\<rparr>"
  obtain mt where tf: "tf = \<lparr>fr_promise = Task_promise \<lparr>pr_continuation = Some hc, pr_state = State_value, pr_value = Object r\<rparr>,
      fr_body = User_body Cat_returned, fr_at = At_final, fr_awaits = mt\<rparr>"
    using assms(7) by (cases tf) (auto simp: returned_frame_def)
  let ?go = "\<lambda>b. s\<lparr>co_frames := (co_frames s)(t := None, hc \<mapsto> ?fr b Going_on)\<rparr>"
  have task: "co_resume P (Suc (Suc (Suc (Suc n)))) hc (c, s, w) = co_resume P (Suc (Suc (Suc n))) hc (c, ?go (Coro_cat_awaited r files), w)"
    using assms(1,4,6) unfolding P fr tf
    by (subst co_resume.simps, simp add: co_step_def frame_await_resume_def task_await_resume_def promise_get_def lifetime_get_def
        body_run_def cat_run_def co_act_def destroy_owned_def co_destroy_returned Let_def set_frame_def fun_upd_twist
       )
  let ?closed = "\<lambda>b a. s\<lparr>st_seekables := (st_seekables s)(file_at hc := None), co_frames := (co_frames s)(t := None, hc \<mapsto> ?fr b a)\<rparr>"
  note step = co_step_def frame_await_resume_def body_run_def cat_run_def co_act_def promise_return_value_def promise_clear_def
    promise_create_def lifetime_construct_def co_finish_def destroy_owned_def Let_def set_frame_def
  have order: "s\<lparr>co_frames := F, st_seekables := S\<rparr> = s\<lparr>st_seekables := S, co_frames := F\<rparr>" for F S by simp
  show ?thesis
  proof (cases r)
    case (Inl ec)
    let ?b = "Coro_cat_awaited (Inl ec) files"
    have "co_resume P (Suc (Suc (Suc n))) hc (c, ?go ?b, w) =
        co_act P (Suc (Suc n)) (co_resume P (Suc (Suc n))) hc (?fr ?b Running) (Return_value (Inl ec) [Exit_guard] (User_body Cat_returned))
          (c, ?closed ?b Running, seekable_destroy k f w)"
      using assms(4,8) unfolding P by (subst co_resume.simps, simp add: step order)
    then show ?thesis
      by (intro that [of "?fr ?b Running" "?closed ?b Running"]) (simp_all add: task fr Inl)
  next
    case (Inr u)
    let ?b = "Coro_cat_next files"
    have "co_resume P (Suc (Suc (Suc n))) hc (c, ?go (Coro_cat_awaited (Inr u) files), w) =
        co_resume P (Suc (Suc n)) hc (c, ?closed ?b Going_on, seekable_destroy k f w)"
      using assms(4,8) unfolding P by (subst co_resume.simps, simp add: step order)
    also have "\<dots> = (case coro_cat_loop k new ctx hc files (c, ?closed ?b Running, seekable_destroy k f w) of
             (act, st) \<Rightarrow> co_act P (Suc n) (co_resume P (Suc n)) hc (?fr ?b Running) (action_of act) st)"
      unfolding P
      by (subst co_resume.simps, simp add: co_step_def frame_await_resume_def body_run_def cat_run_def Let_def set_frame_def
          split: prod.split)
    finally show ?thesis
      by (intro that [of "?fr ?b Running" "?closed ?b Running"]) (simp_all add: task fr Inr)
  qed
qed

section \<open>Printing all files\<close>

text \<open>What \<open>open\<close> returns is a file.\<close>

definition opens_files :: "('w, 'z) clinux_scheme \<Rightarrow> (int \<Rightarrow> bool) \<Rightarrow> bool" where
  "opens_files k sk \<longleftrightarrow> (\<forall>path flags mode w. fst (k_open k path flags mode w) \<noteq> - 1 \<longrightarrow> sk (fst (k_open k path flags mode w)))"

text \<open>The end: the loop is told to exit, the future has the result, no coroutine is left.\<close>

definition cat_done ::
  "'w clinux \<Rightarrow> addr \<Rightarrow> (addr \<rightharpoonup> (cat_body, unit result) frame) \<Rightarrow> byte list \<Rightarrow> 'w cat_state \<Rightarrow> bool"
where
  "cat_done k fut frames contents st \<longleftrightarrow>
     (case st of (c, s, w) \<Rightarrow>
        exiting c \<and> co_frames s = frames \<and>
        (\<exists>r left. co_futures s fut = Some (Some r) \<and> contents = co_stdout s @ left
           \<and> (case r of Inl ec \<Rightarrow> ec_category ec = System_category \<or> (\<exists>v. ec = errno_ec k v) | Inr u \<Rightarrow> left = [])))"

lemma coro_cat_returns_done:
  assumes "context_ready ev c" "submission_ok k lu ev view"
    and "co_frames s hl = Some fl" "async_frame fut hc fl" "hl \<noteq> hc" "co_futures s fut = Some None"
    and "fr_promise fr = Task_promise (promise_create\<lparr>pr_continuation := Some hl\<rparr>)"
    and "P = cat_program ss k lu new memory ctx" and "calls_keep k ring" and "(co_frames s)(hc := None, hl := None) = frames"
    and "contents = co_stdout s @ left" "case r of Inl ec \<Rightarrow> ec_category ec = System_category \<or> (\<exists>v. ec = errno_ec k v) | Inr u \<Rightarrow> left = []"
  shows "runs_to k lu ev perform view ring call R (cat_done k fut frames contents)
    (co_act P m (co_resume P (Suc (Suc (Suc n)))) hc fr (Return_value r [Exit_guard] (User_body Cat_returned))) (c, s, w)"
proof -
  obtain w' where w': "ring w' = ring w" "co_act P m (co_resume P (Suc (Suc (Suc n)))) hc fr (Return_value r [Exit_guard] (User_body Cat_returned)) (c, s, w) =
      Inr (c\<lparr>exiting := True\<rparr>, s\<lparr>co_futures := (co_futures s)(fut \<mapsto> Some r), co_frames := (co_frames s)(hc := None, hl := None)\<rparr>, w')"
    by (rule coro_cat_returns [OF assms(1-9)])
  show ?thesis
    by (rule runs_to.returns, rule w'(2), rule loop_kept_exit, rule w'(1)) (use assms(10-) in \<open>auto simp: cat_done_def\<close>)
qed

text \<open>The loop opens a file and awaits the task that prints it.\<close>

lemma coro_cat_awaits:
  assumes "normal_file_open k (Some ctx) path 0 w = (Inr f, w1)"
    and "t = new (s\<lparr>st_seekables := (st_seekables s)(file_at hc \<mapsto> f)\<rparr>)" "t \<noteq> hc"
    and P: "P = cat_program ss k lu new memory ctx"
    and "tf = \<lparr>fr_promise = Task_promise (promise_create\<lparr>pr_continuation := Some hc\<rparr>), fr_body = User_body (To_stdout (file_at hc)),
      fr_at = Running, fr_awaits = 0\<rparr>"
    and "s' = set_frame hc (fr\<lparr>fr_body := User_body (Coro_cat_await t paths), fr_at := At_task t\<rparr>) s"
  shows "(case coro_cat_loop k new ctx hc (path # paths) (c, s, w) of
      (act, st) \<Rightarrow> co_act P m (co_resume P (Suc n)) hc fr (action_of act) st) =
    (case to_stdout_await t (file_at hc) (c, cat_st s' (file_at hc) f (st_buffers s) (co_stdout s) t tf, w1) of
       (act, st) \<Rightarrow> co_act P n (co_resume P n) t tf (action_of act) st)"
proof -
  have "(case coro_cat_loop k new ctx hc (path # paths) (c, s, w) of
        (act, st) \<Rightarrow> co_act P m (co_resume P (Suc n)) hc fr (action_of act) st) =
      co_resume P (Suc n) t (c, cat_st s' (file_at hc) f (st_buffers s) (co_stdout s) t (tf\<lparr>fr_at := At_start\<rparr>), w1)"
    using assms(1,3) unfolding assms(5,6)
    by (simp add: assms(2) [symmetric] coro_cat_loop_def task_create_def co_act_def Let_def P set_frame_def task_await_suspend_def cat_st_def
        fun_upd_twist)
  also have "\<dots> = (case to_stdout_await t (file_at hc) (c, cat_st s' (file_at hc) f (st_buffers s) (co_stdout s) t tf, w1) of
       (act, st) \<Rightarrow> co_act P n (co_resume P n) t tf (action_of act) st)"
    unfolding assms(5) P
    by (subst co_resume.simps, simp add: co_step_def frame_await_resume_def body_run_def cat_run_def Let_def split: prod.split)
  finally show ?thesis .
qed

text \<open>What follows the task, given that the loop is right for the other files.\<close>

lemma coro_cat_goes_on:
  assumes ok: "submission_ok k lu ev view" and dir: "\<And>f w. dir (seekable_destroy k f w) = dir w" and calls: "calls_keep k ring"
    and P: "P = cat_program ss k lu new memory ctx" and hl: "async_frame fut hc fl" "hl \<noteq> hc"
    and n: "N = Suc (Suc (Suc (Suc (Suc (Suc n)))))"
    and st: "context_ready ev c" "co_frames s hl = Some fl" "co_frames s hc = Some fr" "co_futures s fut = Some None"
      "fr_promise fr = Task_promise (promise_create\<lparr>pr_continuation := Some hl\<rparr>)"
      "fr_body fr = User_body (Coro_cat_await t paths)" "fr_at fr = At_task t" "t \<noteq> hc" "t \<noteq> hl" "(co_frames s)(hc := None, hl := None, t := None) = frames"
      "co_frames s t = Some tf" "returned_frame hc r (User_body Cat_returned) tf" "st_seekables s (file_at hc) = Some f"
    and out: "contents = co_stdout s @ left @ concat (map (\<lambda>path. dir w (c_str path)) paths)"
      "case r of Inl ec \<Rightarrow> ec_category ec = System_category | Inr u \<Rightarrow> left = []"
    and IH: "\<And>s' w' fr' m. \<lbrakk>co_frames s' = (co_frames s)(t := None, hc \<mapsto> fr'); co_futures s' = co_futures s;
        fr_promise fr' = Task_promise (promise_create\<lparr>pr_continuation := Some hl\<rparr>);
        contents = co_stdout s' @ concat (map (\<lambda>path. dir w' (c_str path)) paths)\<rbrakk>
      \<Longrightarrow> runs_to k lu ev perform view ring call R (cat_done k fut frames contents)
        (\<lambda>st. case coro_cat_loop k new ctx hc paths st of (act, st') \<Rightarrow>
           co_act P (Suc (Suc (Suc m))) (co_resume P (Suc (Suc (Suc m)))) hc fr' (action_of act) st') (c, s', w')"
  shows "runs_to k lu ev perform view ring call R (cat_done k fut frames contents) (co_resume P N hc) (c, s, w)"
proof -
  let ?w = "seekable_destroy k f w"
  obtain fr' s' where s': "fr_promise fr' = fr_promise fr" "co_frames s' = (co_frames s)(t := None, hc \<mapsto> fr')"
    "co_futures s' = co_futures s" "co_stdout s' = co_stdout s"
    and go: "co_resume P N hc (c, s, w) = (case r of
        Inl ec \<Rightarrow> co_act P (Suc (Suc (Suc (Suc n)))) (co_resume P (Suc (Suc (Suc (Suc n))))) hc fr'
          (Return_value (Inl ec) [Exit_guard] (User_body Cat_returned)) (c, s', ?w)
      | Inr u \<Rightarrow> (case coro_cat_loop k new ctx hc paths (c, s', ?w) of
          (act, st) \<Rightarrow> co_act P (Suc (Suc (Suc n))) (co_resume P (Suc (Suc (Suc n)))) hc fr' (action_of act) st))"
    unfolding n using coro_cat_resumed [OF st(3,6,7) st(8) [symmetric] st(5,11-13) P] by blast
  show ?thesis
  proof (cases r)
    case (Inl ec)
    show ?thesis
      by (rule runs_to_after [OF coro_cat_returns_done [OF st(1) ok _ hl _ _ P calls, where r = "Inl ec" and s = s' and fr = fr' and w = ?w]])
        (use st s' out hl Inl in \<open>auto simp: go calls_keep_destroy [OF calls]\<close>)
  next
    case (Inr u)
    have "runs_to k lu ev perform view ring call R (cat_done k fut frames contents)
        (\<lambda>st. case coro_cat_loop k new ctx hc paths st of (act, st') \<Rightarrow>
           co_act P (Suc (Suc (Suc n))) (co_resume P (Suc (Suc (Suc n)))) hc fr' (action_of act) st') (c, s', ?w)"
      by (rule IH) (use s' st(5) out Inr dir in simp_all)
    then show ?thesis by (rule runs_to_after) (simp_all add: go Inr calls_keep_destroy [OF calls])
  qed
qed

text \<open>One round of the loop whose file opens: it is printed and closed, and the loop goes on with the other files.\<close>

lemma coro_cat_file_runs:
  fixes w :: 'w and c :: "co_callback closure uring_context"
  assumes laws: "readv_law (ring_calls sk perform k) memory stream" "preadv2_law (ring_calls sk perform k) memory file"
      "cqe_res_range perform" "gsl_subspan ss"
    and ok: "submission_ok k lu ev view"
    and view: "\<And>v w. view v = view w \<Longrightarrow> io_view memory stream file v = io_view memory stream file w"
      "\<And>v w. view v = view w \<Longrightarrow> dir v = dir w"
    and dir: "\<And>n iov off v. dir (snd (perform (io_sqe Read_op n iov off) v)) = dir v"
    and files: "open_law k file dir" "calls_keep k ring" and new: "new_law new room"
    and P: "P = cat_program ss k lu new memory ctx" and hl: "async_frame fut hc fl" "hl \<noteq> hc"
    and n: "N = Suc (Suc (Suc (Suc (Suc (Suc n)))))"
    and opened: "normal_file_open k (Some ctx) path 0 w = (Inr (wrap_seekable (Some ctx) d), w1)" "dir w1 = dir w" "file d w1 = dir w (c_str path)"
      "sk d" "ring w1 = ring w"
    and st: "context_ready ev c" "co_frames s hl = Some fl" "co_frames s hc = Some fr0" "co_futures s fut = Some None" "objects s < room"
      "fr_promise fr = Task_promise (promise_create\<lparr>pr_continuation := Some hl\<rparr>)" "(co_frames s)(hc := None, hl := None) = frames"
      "contents = co_stdout s @ concat (map (\<lambda>path. dir w (c_str path)) (path # paths))"
    and again: "\<And>c2 s3 w3 fr2 m'. \<lbrakk>context_ready ev c2; co_frames s3 = (co_frames s)(hc \<mapsto> fr2); co_futures s3 = co_futures s;
        fr_promise fr2 = Task_promise (promise_create\<lparr>pr_continuation := Some hl\<rparr>);
        contents = co_stdout s3 @ concat (map (\<lambda>path. dir w3 (c_str path)) paths)\<rbrakk>
      \<Longrightarrow> runs_to k lu ev perform view ring (co_run_closure P (Suc N)) (\<lambda>s s'. s' = s) (cat_done k fut frames contents)
          (\<lambda>st. case coro_cat_loop k new ctx hc paths st of (act, st') \<Rightarrow>
             co_act P (Suc (Suc (Suc m'))) (co_resume P (Suc (Suc (Suc m')))) hc fr2 (action_of act) st') (c2, s3, w3)"
  shows "runs_to k lu ev perform view ring (co_run_closure P (Suc N)) (\<lambda>s s'. s' = s) (cat_done k fut frames contents)
    (\<lambda>st. case coro_cat_loop k new ctx hc (path # paths) st of (act, st') \<Rightarrow>
       co_act P (Suc (Suc (Suc m))) (co_resume P (Suc (Suc (Suc m)))) hc fr (action_of act) st') (c, s, w)"
proof -
  let ?f = "wrap_seekable (Some ctx) d" and ?runs = "runs_to k lu ev perform view ring (co_run_closure P (Suc N)) (\<lambda>s s'. s' = s) (cat_done k fut frames contents)"
  define t where "t = new (s\<lparr>st_seekables := (st_seekables s)(file_at hc \<mapsto> ?f)\<rparr>)"
  have fresh: "co_frames s t = None"
    using new st(5) unfolding new_law_def t_def
    by (auto simp: objects_def dest!: spec [of _ "s\<lparr>st_seekables := (st_seekables s)(file_at hc \<mapsto> ?f)\<rparr>"])
  define tf :: "(cat_body, unit result) frame" where "tf = \<lparr>fr_promise = Task_promise (promise_create\<lparr>pr_continuation := Some hc\<rparr>),
    fr_body = User_body (To_stdout (file_at hc)), fr_at = Running, fr_awaits = 0\<rparr>"
  define s1 where "s1 = set_frame hc (fr\<lparr>fr_body := User_body (Coro_cat_await t paths), fr_at := At_task t\<rparr>) s"
  have t: "t \<noteq> hc" "t \<noteq> hl" using fresh st(2,3) by auto
  have "?runs (\<lambda>st. case to_stdout_await t (file_at hc) st of
         (act, st) \<Rightarrow> co_act P (Suc (Suc m)) (co_resume P (Suc (Suc m))) t tf (action_of act) st)
      (c, cat_st s1 (file_at hc) ?f (st_buffers s) (co_stdout s) t tf, w1)"
  proof (rule to_stdout_runs [where ext = dir and sk = sk and hc = hc and ?w0.0 = w
        and ?P0.0 = "co_stdout s @ dir w (c_str path)", OF laws ok view dir P _ st(1)])
    fix r :: "unit result" and f' and c2 :: "co_callback closure uring_context" and sb and w2 :: 'w and fr' out' left
    assume res: "context_ready ev c2" "dir w2 = dir w" "returned_frame hc r (User_body Cat_returned) fr'" "co_stdout s @ dir w (c_str path) = out' @ left"
      "case r of Inl e \<Rightarrow> is_error e \<and> ec_category e = System_category | Inr u \<Rightarrow> left = []"
    let ?s2 = "cat_st s1 (file_at hc) f' ((st_buffers s)(temp_at t := None)) out' t fr'"
    have dir3: "dir (seekable_destroy k f w) = dir w" for f w
      using files(1) io_destroy_keeps [of dir k "Seekable f" w] by (simp add: open_law_def io_destroy_def)
    have done_ind: "?runs (\<lambda>st. case coro_cat_loop k new ctx hc paths st of (act, st') \<Rightarrow>
           co_act P (Suc (Suc (Suc m'))) (co_resume P (Suc (Suc (Suc m')))) hc fr2 (action_of act) st') (c2, s3, w3)"
      if "co_frames s3 = (co_frames ?s2)(t := None, hc \<mapsto> fr2)" "co_futures s3 = co_futures ?s2"
        "fr_promise fr2 = Task_promise (promise_create\<lparr>pr_continuation := Some hl\<rparr>)"
        "contents = co_stdout s3 @ concat (map (\<lambda>path. dir w3 (c_str path)) paths)" for s3 w3 fr2 m'
      by (rule again [OF res(1) _ _ that(3,4)]) (use that(1,2) fresh t in \<open>auto simp: s1_def cat_st_def fun_upd_idem [of _ t]\<close>)
    have "contents = co_stdout ?s2 @ left @ concat (map (\<lambda>path. dir w2 (c_str path)) paths)"
      using st(8) res(2,4) by (simp flip: append_assoc)
    then show "?runs (co_resume P N hc) (c2, ?s2, w2)"
      by (intro coro_cat_goes_on [where fr = "fr\<lparr>fr_body := User_body (Coro_cat_await t paths), fr_at := At_task t\<rparr>" and t = t and left = left,
            OF ok _ files(2) P hl n res(1) _ _ _ _ _ _ t _ _ res(3) _ _ _ done_ind])
       (use st t hl(2) fresh res(5) files(1) dir3 in \<open>auto simp: s1_def cat_st_def split: sum.splits\<close>)
  qed (use opened in \<open>simp_all add: tf_def kind_fits_def pending_def off_t_in_range_def\<close>)
  then show ?thesis
    by (rule runs_to_after) (rule coro_cat_awaits [OF opened(1) t_def t(1) P tf_def s1_def], simp add: opened(5))
qed

lemma coro_cat_loop_runs:
  fixes w :: 'w
  assumes laws: "readv_law (ring_calls sk perform k) memory stream" "preadv2_law (ring_calls sk perform k) memory file"
      "cqe_res_range perform" "gsl_subspan ss"
    and ok: "submission_ok k lu ev view"
    and view: "\<And>v w. view v = view w \<Longrightarrow> io_view memory stream file v = io_view memory stream file w"
      "\<And>v w. view v = view w \<Longrightarrow> dir v = dir w"
    and dir: "\<And>n iov off v. dir (snd (perform (io_sqe Read_op n iov off) v)) = dir v"
    and files: "open_law k file dir" "opens_files k sk" "calls_keep k ring" and new: "new_law new room"
    and P: "P = cat_program ss k lu new memory ctx" and hl: "async_frame fut hc fl" "hl \<noteq> hc"
    and n: "N = Suc (Suc (Suc (Suc (Suc (Suc n)))))"
    and st: "context_ready ev c" "co_frames s hl = Some fl" "co_frames s hc = Some fr0" "co_futures s fut = Some None" "objects s < room"
      "fr_promise fr = Task_promise (promise_create\<lparr>pr_continuation := Some hl\<rparr>)" "(co_frames s)(hc := None, hl := None) = frames"
      "contents = co_stdout s @ concat (map (\<lambda>path. dir w (c_str path)) paths)"
  shows "runs_to k lu ev perform view ring (co_run_closure P (Suc N)) (\<lambda>s s'. s' = s) (cat_done k fut frames contents)
    (\<lambda>st. case coro_cat_loop k new ctx hc paths st of (act, st') \<Rightarrow>
       co_act P (Suc (Suc (Suc m))) (co_resume P (Suc (Suc (Suc m)))) hc fr (action_of act) st') (c, s, w)"
  using st
proof (induction paths arbitrary: c s w fr fr0 m)
  case Nil
  show ?case
    by (rule runs_to_cong [OF coro_cat_returns_done [OF Nil(1) ok Nil(2) hl Nil(4,6) P files(3) Nil(7), of contents "[]" "Inr ()"]])
      (use Nil(8) in \<open>simp_all add: coro_cat_loop_def\<close>)
next
  case (Cons path paths)
  obtain d w1 where d: "k_open k (c_str path) 0 (7 * 64 + 5 * 8 + 5) w = (d, w1)" by fastforce
  then have w1_ring: "ring w1 = ring w" using files(3) unfolding calls_keep_def by (metis snd_conv)
  show ?case
  proof (cases "d = - 1")
    case True
    with d obtain v where "normal_file_open k (Some ctx) path 0 w = (Inl (errno_ec k v), w1)"
      by (auto simp: normal_file_open_def normal_file_open_mode_def)
    then show ?thesis
      using w1_ring by (intro runs_to_after [OF coro_cat_returns_done [OF Cons(2) ok Cons(3) hl Cons(5,7) P files(3) Cons(8,9), where r = "Inl (errno_ec k v)" and w = w1]]) (auto simp: coro_cat_loop_def)
  next
    case False
    then have opened: "normal_file_open k (Some ctx) path 0 w = (Inr (wrap_seekable (Some ctx) d), w1)"
      using d by (simp add: normal_file_open_def normal_file_open_mode_def)
    have w1: "dir w1 = dir w" "file d w1 = dir w (c_str path)" "sk d"
      using files d False unfolding open_law_def opens_files_def by (blast, blast, metis fst_conv)
    show ?thesis
    proof (rule coro_cat_file_runs [where dir = dir and stream = stream and paths = paths and s = s and d = d,
          OF laws ok view dir files(1,3) new P hl n opened w1 w1_ring Cons.prems])
      fix c2 :: "co_callback closure uring_context" and s3 :: "(cat_body, unit result) co_store" and w3 fr2 m'
      assume "context_ready ev c2" "co_frames s3 = (co_frames s)(hc \<mapsto> fr2)" "co_futures s3 = co_futures s"
        "fr_promise fr2 = Task_promise (promise_create\<lparr>pr_continuation := Some hl\<rparr>)"
        "contents = co_stdout s3 @ concat (map (\<lambda>path. dir w3 (c_str path)) paths)"
      with Cons.prems hl(2) show "runs_to k lu ev perform view ring (co_run_closure P (Suc N)) (\<lambda>s s'. s' = s) (cat_done k fut frames contents)
          (\<lambda>st. case coro_cat_loop k new ctx hc paths st of (act, st') \<Rightarrow>
             co_act P (Suc (Suc (Suc m'))) (co_resume P (Suc (Suc (Suc m')))) hc fr2 (action_of act) st') (c2, s3, w3)"
        by (intro Cons.IH) (auto simp: objects_def insert_absorb domI)
    qed
  qed
qed

text \<open>The start: \<open>co_async\<close> runs its own coroutine, which runs \<open>coro_cat\<close> up to the loop.\<close>

lemma coro_cat_starts:
  assumes new: "new_law new room" "objects s + 3 < room" and P: "P = cat_program ss k lu new memory ctx"
  obtains fut hl hc fl fr s' where "async_frame fut hc fl" "hl \<noteq> hc" "co_frames s' hl = Some fl" "co_frames s' hc = Some fr"
    "co_futures s' fut = Some None" "objects s' < room" "fr_promise fr = Task_promise (promise_create\<lparr>pr_continuation := Some hl\<rparr>)"
    "(co_frames s')(hc := None, hl := None) = co_frames s" "co_stdout s' = co_stdout s"
    "\<And>c w n. coro_cat_start P (Suc (Suc n)) paths (c, s, w) =
       (case (case coro_cat_loop k new ctx hc paths (c, s', w) of (act, st') \<Rightarrow> co_act P n (co_resume P n) hc fr (action_of act) st') of
          Inl e \<Rightarrow> Inl e | Inr st' \<Rightarrow> Inr (fut, st'))"
proof -
  let ?task = "\<lambda>pr at. \<lparr>fr_promise = Task_promise pr, fr_body = User_body (Coro_cat paths), fr_at = at, fr_awaits = 0\<rparr>"
  define hc where "hc = new s"
  define s1 where "s1 = set_frame hc (?task promise_create At_start) s"
  have fresh: "co_frames s hc = None" using new unfolding new_law_def hc_def by simp
  have objs: "objects s1 \<le> Suc (objects s)" unfolding s1_def by (rule objects_step)
  have start_facts: "new_law (p_new P) room" "objects s1 + 2 \<le> room" "co_frames s1 hc = Some (?task promise_create At_start)"
      "fr_promise (?task promise_create At_start) \<noteq> Fire_and_forget"
    using new objs by (simp_all add: P s1_def)
  obtain fut hl pr s2 where async: "task_await_suspend hl (fr_promise (?task promise_create At_start)) = Inr pr" "hl \<noteq> hc"
      "co_frames s1 hl = None" "objects s2 \<le> objects s1 + 2"
    and s2: "s2 = set_frame hc ((?task promise_create At_start)\<lparr>fr_promise := pr\<rparr>) (set_frame hl \<lparr>fr_promise = Fire_and_forget,
      fr_body = Co_async_await fut hc, fr_at = At_task hc, fr_awaits = 0\<rparr> (s1\<lparr>co_futures := (co_futures s1)(fut \<mapsto> None)\<rparr>))"
    and start: "\<And>c w n. co_async P (co_resume P (Suc n)) hc (c, s1, w) =
       (case co_resume P n hc (c, s2, w) of Inl e \<Rightarrow> Inl e | Inr st \<Rightarrow> Inr (fut, st))"
    by (rule co_async_starts [OF start_facts]) (rule that)
  let ?pr = "promise_create\<lparr>pr_continuation := Some hl\<rparr>"
  define s' where "s' = set_frame hc (?task ?pr Running) s2"
  have pr: "pr = Task_promise ?pr" using async(1) by (simp add: task_await_suspend_def)
  have "objects s' = objects s2" by (simp add: objects_def s'_def s2)
  then have room: "objects s' < room" using objs async(4) new(2) by simp
  have "coro_cat_start P (Suc (Suc n)) paths (c, s, w) =
      (case (case coro_cat_loop k new ctx hc paths (c, s', w) of (act, st') \<Rightarrow> co_act P n (co_resume P n) hc (?task ?pr Running) (action_of act) st') of
         Inl e \<Rightarrow> Inl e | Inr st' \<Rightarrow> Inr (fut, st'))" for c w n
  proof -
    have "co_resume P (Suc n) hc (c, s2, w) = (case coro_cat_loop k new ctx hc paths (c, s', w) of
        (act, st') \<Rightarrow> co_act P n (co_resume P n) hc (?task ?pr Running) (action_of act) st')"
      unfolding s'_def s2 pr P
      by (subst co_resume.simps) (simp add: co_step_def frame_await_resume_def body_run_def cat_run_def Let_def split: prod.split)
    moreover have "coro_cat_start P (Suc (Suc n)) paths (c, s, w) = co_async P (co_resume P (Suc (Suc n))) hc (c, s1, w)"
      by (simp add: coro_cat_start_def task_create_def P hc_def s1_def Let_def)
    ultimately show ?thesis by (simp only: start)
  qed
  then show ?thesis
    by (intro that [of fut hc _ hl s' "?task ?pr Running"]) (use async(2,3) room fresh in \<open>auto simp: async_frame_def s'_def s2 s1_def\<close>)
qed

text \<open>The whole chain, from \<open>co_async\<close> to the value of the future.\<close>

lemma coro_cat_runs:
  fixes w :: 'w
  assumes laws: "readv_law (ring_calls sk perform k) memory stream" "preadv2_law (ring_calls sk perform k) memory file"
      "cqe_res_range perform" "gsl_subspan ss" "submission_ok k lu ev view"
      "\<And>v w. view v = view w \<Longrightarrow> io_view memory stream file v = io_view memory stream file w"
      "\<And>v w. view v = view w \<Longrightarrow> dir v = dir w"
      "\<And>n iov off v. dir (snd (perform (io_sqe Read_op n iov off) v)) = dir v"
      "open_law k file dir" "opens_files k sk" "calls_keep k ring"
    and new: "new_law new room" "objects s + 3 < room" and P: "P = cat_program ss k lu new memory ctx" and n: "7 \<le> n"
  obtains fut where "\<And>c w fut' st'. coro_cat_start P n paths (c, s, w) = Inr (fut', st') \<Longrightarrow> fut' = fut"
    "\<And>c w. context_ready ev c \<Longrightarrow> runs_to k lu ev perform view ring (co_run_closure P n) (\<lambda>s s'. s' = s)
       (cat_done k fut (co_frames s) (co_stdout s @ concat (map (\<lambda>path. dir w (c_str path)) paths)))
       (\<lambda>st. map_sum id snd (coro_cat_start P n paths st)) (c, s, w)"
proof -
  obtain N where N: "n = Suc (Suc (Suc (Suc (Suc (Suc (Suc N))))))" using le_Suc_ex [OF n] by (auto simp: eval_nat_numeral)
  let ?m = "Suc (Suc (Suc (Suc (Suc N))))"
  obtain fut hl hc fl fr s' where hl: "async_frame fut hc fl" "hl \<noteq> hc"
    and s': "co_frames s' hl = Some fl" "co_frames s' hc = Some fr" "co_futures s' fut = Some None" "objects s' < room"
      "fr_promise fr = Task_promise (promise_create\<lparr>pr_continuation := Some hl\<rparr>)" "(co_frames s')(hc := None, hl := None) = co_frames s"
      "co_stdout s' = co_stdout s"
    and start: "\<And>c w n. coro_cat_start P (Suc (Suc n)) paths (c, s, w) =
       (case (case coro_cat_loop k new ctx hc paths (c, s', w) of (act, st') \<Rightarrow> co_act P n (co_resume P n) hc fr (action_of act) st') of
          Inl e \<Rightarrow> Inl e | Inr st' \<Rightarrow> Inr (fut, st'))"
    by (rule coro_cat_starts [OF new P]) (rule that)
  have "runs_to k lu ev perform view ring (co_run_closure P n) (\<lambda>s s'. s' = s)
      (cat_done k fut (co_frames s) (co_stdout s @ concat (map (\<lambda>path. dir w (c_str path)) paths)))
      (\<lambda>st. map_sum id snd (coro_cat_start P n paths st)) (c, s, w)" if "context_ready ev c" for c w
  proof -
    have "runs_to k lu ev perform view ring (co_run_closure P n) (\<lambda>s s'. s' = s)
        (cat_done k fut (co_frames s) (co_stdout s @ concat (map (\<lambda>path. dir w (c_str path)) paths)))
        (\<lambda>st. case coro_cat_loop k new ctx hc paths st of (act, st') \<Rightarrow> co_act P ?m (co_resume P ?m) hc fr (action_of act) st') (c, s', w)"
      unfolding N by (rule coro_cat_loop_runs [OF laws new(1) P hl refl that s'(1-6)]) (simp_all add: s'(7))
    then show ?thesis by (rule runs_to_cong) (simp add: N start split: sum.split)
  qed
  then show ?thesis by (intro that [of fut]) (auto simp: N start split: sum.splits)
qed

text \<open>
  C14. \<open>co_async(coro_cat(ctx, filenames))\<close> on the event loop does what \<open>sync_cat\<close> does:
  whatever the operations it submits return, it comes to an end; then the loop is told to exit, the
  future has a result, all coroutines are destroyed, and unless opening or reading a file failed the
  output is the contents of the files, one after the other. After a failure it is a prefix of that.
\<close>

theorem coro_cat_correct:
  fixes w :: 'w
  assumes "readv_law (ring_calls sk perform k) memory stream" and "preadv2_law (ring_calls sk perform k) memory file"
    and "cqe_res_range perform" and "gsl_subspan ss"
    and "submission_ok k lu ev view"
    and "\<And>v w. view v = view w \<Longrightarrow> io_view memory stream file v = io_view memory stream file w"
    and "\<And>v w. view v = view w \<Longrightarrow> dir v = dir w"
    and "\<And>n iov off v. dir (snd (perform (io_sqe Read_op n iov off) v)) = dir v"
    and "open_law k file dir" and "opens_files k sk" and "calls_keep k ring" and "new_law new room" and "objects s + 3 < room"
    and "context_ready ev c" and "P = cat_program ss k lu new memory ctx" and "7 \<le> n"
  shows "\<exists>fut. (\<forall>fut' st'. coro_cat_start P n paths (c, s, w) = Inr (fut', st') \<longrightarrow> fut' = fut) \<and>
    runs_to k lu ev perform view ring (co_run_closure P n) (\<lambda>s s'. s' = s)
    (\<lambda>(c', s', w'). exiting c' \<and> co_frames s' = co_frames s \<and>
       (\<exists>r left. co_futures s' fut = Some (Some r)
          \<and> co_stdout s @ concat (map (\<lambda>path. dir w (c_str path)) paths) = co_stdout s' @ left
          \<and> (case r of Inl ec \<Rightarrow> ec_category ec = System_category \<or> (\<exists>v. ec = errno_ec k v) | Inr u \<Rightarrow> left = [])))
    (\<lambda>st. map_sum id snd (coro_cat_start P n paths st)) (c, s, w)"
proof -
  obtain fut where fut: "\<And>c w fut' st'. coro_cat_start P n paths (c, s, w) = Inr (fut', st') \<Longrightarrow> fut' = fut"
    "\<And>c w. context_ready ev c \<Longrightarrow> runs_to k lu ev perform view ring (co_run_closure P n) (\<lambda>s s'. s' = s)
       (cat_done k fut (co_frames s) (co_stdout s @ concat (map (\<lambda>path. dir w (c_str path)) paths)))
       (\<lambda>st. map_sum id snd (coro_cat_start P n paths st)) (c, s, w)"
    by (rule coro_cat_runs [where paths = paths, OF assms(1-13,15,16)]) (assumption, assumption, rule that)
  show ?thesis
    using fut(1) fut(2) [OF assms(14), of w] unfolding cat_done_def by blast
qed

definition cat_clinux :: "demo_world clinux" where
  "cat_clinux = demo_ring_clinux\<lparr>k_open := (\<lambda>path flags mode w. (6, w))\<rparr>"

theorem coro_cat_correct_witness:
  "\<exists>fut. (\<forall>fut' st'. coro_cat_start (cat_program plain_subspan cat_clinux idle_liburing demo_new dw_mem 0) 7 [''a'', ''b'']
         (ready_context, empty_store, demo_start) = Inr (fut', st') \<longrightarrow> fut' = fut) \<and>
    runs_to cat_clinux idle_liburing 3 demo_perform (\<lambda>w. w) (\<lambda>w. ()) (co_run_closure (cat_program plain_subspan cat_clinux idle_liburing demo_new dw_mem 0) 7)
      (\<lambda>s s'. s' = s)
    (\<lambda>(c', s', w'). exiting c' \<and> co_frames s' = co_frames empty_store \<and>
       (\<exists>r left. co_futures s' fut = Some (Some r)
          \<and> co_stdout (empty_store :: (cat_body, unit result) co_store) @ concat (map (\<lambda>path. dw_file demo_start 6) [''a'', ''b'']) = co_stdout s' @ left
          \<and> (case r of Inl ec \<Rightarrow> ec_category ec = System_category \<or> (\<exists>v. ec = errno_ec cat_clinux v) | Inr u \<Rightarrow> left = [])))
    (\<lambda>st. map_sum id snd (coro_cat_start (cat_program plain_subspan cat_clinux idle_liburing demo_new dw_mem 0) 7 [''a'', ''b''] st))
    (ready_context, empty_store, demo_start)"
proof (rule coro_cat_correct [where dir = "\<lambda>w path. dw_file w 6" and sk = demo_sk and room = 8 and new = demo_new and ctx = 0,
      OF demo_ring_laws(1,2) demo_cqe_res_range gsl_subspan_plain])
  show "submission_ok cat_clinux idle_liburing 3 (\<lambda>w. w)"
    by (simp add: submission_ok_def cat_clinux_def demo_ring_clinux_def idle_liburing_def)
  show "open_law cat_clinux (\<lambda>n w. dw_file w n) (\<lambda>w path. dw_file w 6)"
    by (simp add: open_law_def cat_clinux_def demo_ring_clinux_def demo_clinux_def)
  show "calls_keep cat_clinux (\<lambda>w. ())" by (simp add: calls_keep_def)
  show "opens_files cat_clinux demo_sk" by (simp add: opens_files_def cat_clinux_def demo_sk_def)
  show "new_law (demo_new :: (cat_body, unit result) co_store \<Rightarrow> addr) 8" by (rule demo_new_law)
  show "objects (empty_store :: (cat_body, unit result) co_store) + 3 < 8" by (simp add: objects_def empty_store_def)
  show "context_ready 3 (ready_context :: co_callback closure uring_context)" by (rule demo_context_ready)
  show "(\<lambda>path. dw_file (snd (demo_perform (io_sqe Read_op n iov off) v)) 6) = (\<lambda>path. dw_file v 6)" for n iov off v
    by (simp add: io_sqe_def demo_preadv2_def demo_readv_def demo_scatter_def Let_def)
qed simp_all

end
