(* ===== verification/Ark_Pass.thy ===== *)
theory Ark_Pass
  imports Ark_Async "HOL-Library.Multiset"
begin

text \<open>
  One pass of \<open>run\<close> in \<open>async/io_uring/context.hpp\<close> over a ring in use: submit, wait, collect, call. \<open>ring\<close> is
  the state of the ring as a part of the world, and the laws say what the manual pages of liburing
  promise of it. An operation in flight carries a bound on the number of waits that can return before
  it completes, at most \<open>B\<close> when it is submitted: the kernel completes every operation, but in no
  particular order. \<open>live_state\<close> relates the operations in flight to the registered callbacks.
\<close>

section \<open>What the ring does\<close>

record ring =
  rg_prepared :: "(token_t \<times> sqe_op) list"
  rg_inflight :: "(token_t \<times> sqe_op \<times> nat) list"
  rg_completed :: "(nat \<times> token_t \<times> int) list"

text \<open>The kernel performs submitted calls, one after the other.\<close>

inductive performed ::
  "(sqe_op \<Rightarrow> 'w \<Rightarrow> int \<times> 'w) \<Rightarrow> ('w \<Rightarrow> 'v) \<Rightarrow> sqe_op list \<Rightarrow> 'w \<Rightarrow> int list \<Rightarrow> 'w \<Rightarrow> bool" for perform view
where
  none: "view w' = view w \<Longrightarrow> performed perform view [] w [] w'"
| one: "\<lbrakk>view v = view w; perform op v = (res, v'); performed perform view ops v' rs w'\<rbrakk> \<Longrightarrow> performed perform view (op # ops) w (res # rs) w'"

inductive_simps performed_Nil: "performed perform view [] w rs w'"
inductive_simps performed_Cons: "performed perform view (op # ops) w rs w'"

text \<open>io_uring_get_sqe(3), the functions that fill the entry, and io_uring_submit(3).\<close>

definition submit_law :: "'w liburing \<Rightarrow> ('w \<Rightarrow> ring) \<Rightarrow> ('w \<Rightarrow> 'v) \<Rightarrow> nat \<Rightarrow> bool" where
  "submit_law lu ring view B \<longleftrightarrow>
     (\<forall>w slot w0 op tok. lu_get_sqe lu w = (Some slot, w0) \<longrightarrow>
        ring (lu_sqe_set_data lu slot tok (lu_prep lu slot op w0)) = (ring w)\<lparr>rg_prepared := rg_prepared (ring w) @ [(tok, op)]\<rparr>)
     \<and> (\<forall>w. view (snd (lu_submit lu w)) = view w \<and> ring (snd (lu_submit lu w)) =
          (ring w)\<lparr>rg_prepared := [], rg_inflight := rg_inflight (ring w) @ map (\<lambda>(t, op). (t, op, B)) (rg_prepared (ring w))\<rparr>)"

text \<open>
  io_uring_wait_cqe(3), when it is not interrupted: some of the operations in flight have been performed
  and have an entry in the completion queue, the others are nearer to their completion.
\<close>

definition wait_law :: "'w liburing \<Rightarrow> (sqe_op \<Rightarrow> 'w \<Rightarrow> int \<times> 'w) \<Rightarrow> ('w \<Rightarrow> ring) \<Rightarrow> ('w \<Rightarrow> 'v) \<Rightarrow> bool" where
  "wait_law lu perform ring view \<longleftrightarrow>
     (\<forall>w r w'. lu_wait_cqe lu w = (r, w') \<longrightarrow> 0 \<le> r \<and>
        (\<exists>dn left ps rs left'. mset (rg_inflight (ring w)) = mset (dn @ left)
           \<and> performed perform view (map (\<lambda>(t, op, d). op) dn) w rs w' \<and> length ps = length dn
           \<and> list_all2 (\<lambda>(t, op, d) (t', op', d'). t' = t \<and> op' = op \<and> d' < d) left left'
           \<and> ring w' = (ring w)\<lparr>rg_inflight := left', rg_completed := rg_completed (ring w) @ zip ps (zip (map fst dn) rs)\<rparr>))"

text \<open>io_uring_peek_batch_cqe(3), and the functions that read and release the first entry.\<close>

definition completion_law :: "'w liburing \<Rightarrow> ('w \<Rightarrow> ring) \<Rightarrow> ('w \<Rightarrow> 'v) \<Rightarrow> bool" where
  "completion_law lu ring view \<longleftrightarrow>
     (\<forall>n w. fst (lu_peek_batch_cqe lu n w) = map fst (take n (rg_completed (ring w)))
        \<and> ring (snd (lu_peek_batch_cqe lu n w)) = ring w \<and> view (snd (lu_peek_batch_cqe lu n w)) = view w)
     \<and> (\<forall>w p t res more. rg_completed (ring w) = (p, t, res) # more \<longrightarrow>
          lu_cqe_get_data lu p w = t \<and> lu_cqe_res lu p w = res
          \<and> ring (lu_cqe_seen lu p w) = (ring w)\<lparr>rg_completed := more\<rparr> \<and> view (lu_cqe_seen lu p w) = view w)"

text \<open>
  eventfd(2): when the poll of the waker has completed, the descriptor is readable; poll and read
  leave the files of the program alone.
\<close>

definition waker_law :: "('w, 'z) clinux_scheme \<Rightarrow> int \<Rightarrow> (sqe_op \<Rightarrow> 'w \<Rightarrow> int \<times> 'w) \<Rightarrow> ('w \<Rightarrow> 'v) \<Rightarrow> bool" where
  "waker_law k ev perform view \<longleftrightarrow>
     (\<forall>w. 0 \<le> fst (perform (Prep_poll_add ev POLLIN) w) \<and> view (snd (perform (Prep_poll_add ev POLLIN) w)) = view w
        \<and> fst (k_read_discard k ev 8 w) \<noteq> - 1 \<and> view (snd (k_read_discard k ev 8 w)) = view w)"

section \<open>Operations in flight\<close>

datatype 'u live_op = Live_op (lv_tok: token_t) (lv_cb: "'u callback") (lv_op: sqe_op) (lv_due: nat)

definition lv_entry :: "'u live_op \<Rightarrow> token_t \<times> sqe_op \<times> nat" where
  "lv_entry l = (lv_tok l, lv_op l, lv_due l)"

text \<open>
  The registered callbacks are those of the operations \<open>X\<close>, which are on the ring, and no
  completion is waiting. The tokens of \<open>X\<close> are recent, so that the next one is new; \<open>j\<close> more were given
  out in this pass of the loop.
\<close>

definition live_state :: "int \<Rightarrow> ('w \<Rightarrow> ring) \<Rightarrow> nat \<Rightarrow> nat \<Rightarrow> 'u uring_context \<Rightarrow> 'w \<Rightarrow> 'u live_op list \<Rightarrow> bool" where
  "live_state ev ring B j c w X \<longleftrightarrow>
     context_ready ev c \<and> rg_completed (ring w) = [] \<and> distinct (map lv_tok X)
     \<and> callbacks c = map_of (map (\<lambda>l. (lv_tok l, lv_cb l)) X)
     \<and> mset (rg_inflight (ring w) @ map (\<lambda>(t, op). (t, op, B)) (rg_prepared (ring w))) = mset (map lv_entry X)
     \<and> (\<forall>l \<in> set X. lv_due l \<le> B \<and> callbacks_idx c \<noteq> lv_tok l \<and> unat (callbacks_idx c - lv_tok l) \<le> 2 * (B - lv_due l) + j)"

lemma map_of_mset:
  assumes "mset X = mset Y" "distinct (map fst X)"
  shows "map_of X = map_of Y"
proof -
  have "mset (map fst X) = mset (map fst Y)" using assms(1) by simp
  then have "distinct (map fst Y)" using assms(2) mset_eq_imp_distinct_iff by blast
  then show ?thesis using assms map_of_inject_set [of X Y] mset_eq_setD [OF assms(1)] by simp
qed

lemma map_of_without:
  assumes "distinct (map fst (A @ B))"
  shows "map_of (A @ B) |` (- fst ` set A) = map_of B"
proof
  fix x
  show "(map_of (A @ B) |` (- fst ` set A)) x = map_of B x"
  proof (cases "x \<in> fst ` set A")
    case True
    then have "x \<notin> fst ` set B" using assms by auto
    then show ?thesis using True by (metis map_of_eq_None_iff ComplD restrict_out)
  next
    case False
    then have "map_of A x = None" by (simp add: map_of_eq_None_iff)
    then show ?thesis using False by (simp add: restrict_map_def map_add_def)
  qed
qed

lemma live_state_mset:
  assumes "live_state ev ring B j c w X" "mset X = mset Y"
  shows "live_state ev ring B j c w Y"
proof -
  have "mset (map (\<lambda>l. (lv_tok l, lv_cb l)) X) = mset (map (\<lambda>l. (lv_tok l, lv_cb l)) Y)" using assms(2) by simp
  then have "map_of (map (\<lambda>l. (lv_tok l, lv_cb l)) X) = map_of (map (\<lambda>l. (lv_tok l, lv_cb l)) Y)"
    using assms(1) by (intro map_of_mset) (simp_all add: live_state_def comp_def)
  moreover have "mset (map lv_tok X) = mset (map lv_tok Y)" using assms(2) by simp
  then have "distinct (map lv_tok Y)" using assms(1) mset_eq_imp_distinct_iff unfolding live_state_def by blast
  ultimately show ?thesis
    using assms(1,2) mset_eq_setD [OF assms(2)] by (simp add: live_state_def)
qed

lemma live_state_mono: "live_state ev ring B i c w X \<Longrightarrow> i \<le> j \<Longrightarrow> live_state ev ring B j c w X"
  unfolding live_state_def by (meson add_left_mono order_trans)

text \<open>A submission adds an operation.\<close>

lemma unat_next:
  fixes i t :: token_t
  assumes "unat (i - t) < n" "n < 2 ^ 64"
  shows "i + 1 \<noteq> t" and "unat (i + 1 - t) = Suc (unat (i - t))"
proof -
  have "unat (i - t) + 1 < 2 ^ 64" using assms by simp
  then have "unat (i - t + 1) = unat (i - t) + 1" by (simp add: unat_word_ariths(1) del: unat_plus_simple)
  then show next': "unat (i + 1 - t) = Suc (unat (i - t))" by (simp add: algebra_simps)
  then show "i + 1 \<noteq> t" by auto
qed

lemma live_state_register:
  assumes "live_state ev ring B j c w X" "2 * B + j + 2 < 2 ^ 64"
    and "ring w1 = (ring w)\<lparr>rg_prepared := rg_prepared (ring w) @ [(callbacks_idx c, op)]\<rparr>"
  shows "live_state ev ring B (Suc j) (registered c cb) w1 (Live_op (callbacks_idx c) cb op B # X)"
proof -
  let ?i = "callbacks_idx c"
  have age: "?i \<noteq> lv_tok l" "?i + 1 \<noteq> lv_tok l" "unat (?i + 1 - lv_tok l) \<le> 2 * (B - lv_due l) + Suc j" if "l \<in> set X" for l
  proof -
    have le: "unat (?i - lv_tok l) \<le> 2 * (B - lv_due l) + j" and ne: "?i \<noteq> lv_tok l" using assms(1) that by (auto simp: live_state_def)
    then have "unat (?i - lv_tok l) < 2 * B + j + 1" by (simp add: le_less_trans)
    from unat_next [OF this] assms(2) le ne show "?i \<noteq> lv_tok l" "?i + 1 \<noteq> lv_tok l" "unat (?i + 1 - lv_tok l) \<le> 2 * (B - lv_due l) + Suc j"
      by simp_all
  qed
  have "unat (?i + 1 - ?i) = 1" by simp
  moreover have "context_ready ev (registered c cb)" using assms(1) by (simp add: live_state_def context_ready_def unlocked_def registered_def)
  moreover have "?i \<notin> lv_tok ` set X" using age(1) by auto
  ultimately show ?thesis
    using assms(1,3) age unfolding live_state_def by (intro conjI) (simp_all add: registered_def lv_entry_def)
qed

section \<open>One pass of the loop\<close>

lemma batch_read_completed:
  assumes "completion_law lu ring view" "rg_completed (ring w) = cq"
  shows "batch_read lu (map fst cq) w = map (\<lambda>(p, t, res). (t, result_of_res res)) cq"
    and "ring (fold (lu_cqe_seen lu) (map fst cq) w) = (ring w)\<lparr>rg_completed := []\<rparr>"
    and "view (fold (lu_cqe_seen lu) (map fst cq) w) = view w"
proof -
  have "batch_read lu (map fst cq) w = map (\<lambda>(p, t, res). (t, result_of_res res)) cq
      \<and> ring (fold (lu_cqe_seen lu) (map fst cq) w) = (ring w)\<lparr>rg_completed := []\<rparr>
      \<and> view (fold (lu_cqe_seen lu) (map fst cq) w) = view w"
    using assms(2)
  proof (induction cq arbitrary: w)
    case (Cons e cq)
    obtain p t res where e: "e = (p, t, res)" by (cases e) auto
    have head: "lu_cqe_get_data lu p w = t" "lu_cqe_res lu p w = res" "ring (lu_cqe_seen lu p w) = (ring w)\<lparr>rg_completed := cq\<rparr>"
      "view (lu_cqe_seen lu p w) = view w"
      using assms(1) Cons.prems unfolding completion_law_def e by blast+
    with Cons.IH [of "lu_cqe_seen lu p w"] show ?case by (simp add: e)
  qed simp
  then show "batch_read lu (map fst cq) w = map (\<lambda>(p, t, res). (t, result_of_res res)) cq"
    "ring (fold (lu_cqe_seen lu) (map fst cq) w) = (ring w)\<lparr>rg_completed := []\<rparr>"
    "view (fold (lu_cqe_seen lu) (map fst cq) w) = view w" by blast+
qed

lemma first_hits_all: "distinct (map fst xs) \<Longrightarrow> fst ` set xs \<subseteq> dom m \<Longrightarrow> first_hits m xs = xs"
proof (induction xs arbitrary: m)
  case (Cons x xs)
  obtain t r where x: "x = (t, r)" by fastforce
  from Cons.prems obtain cb where "m t = Some cb" by (auto simp: x)
  moreover have "fst ` set xs \<subseteq> dom (m(t := None))" using Cons.prems by (auto simp: x)
  ultimately show ?case using Cons by (simp add: x)
qed simp

lemma mset_map_order:
  assumes "mset ys = mset (map f X)"
  shows "\<exists>X'. mset X' = mset X \<and> map f X' = ys"
  using assms
proof (induction ys arbitrary: X)
  case (Cons y ys)
  have "y \<in> set (map f X)" using mset_eq_setD [OF Cons.prems] by auto
  then obtain x as bs where X: "X = as @ x # bs" "f x = y" by (auto dest: split_list)
  with Cons.prems have "mset ys = mset (map f (as @ bs))" by simp
  from Cons.IH [OF this] obtain X' where "mset X' = mset (as @ bs)" "map f X' = ys" by blast
  with X show ?case by (intro exI [of _ "x # X'"]) simp
qed simp

lemma performed_length: "performed perform view ops w rs w' \<Longrightarrow> length rs = length ops"
  by (induction rule: performed.induct) simp_all

definition nearer :: "'u live_op \<Rightarrow> 'u live_op \<Rightarrow> bool" where
  "nearer l l' \<longleftrightarrow> lv_tok l' = lv_tok l \<and> lv_cb l' = lv_cb l \<and> lv_op l' = lv_op l \<and> lv_due l' < lv_due l"

lemma nearer_entries:
  assumes "list_all2 (\<lambda>(t, op, d) (t', op', d'). t' = t \<and> op' = op \<and> d' < d) (map lv_entry L) left'"
  shows "\<exists>L'. list_all2 nearer L L' \<and> map lv_entry L' = left'"
  using assms
proof (induction L arbitrary: left')
  case (Cons l L)
  then obtain d' left'' where left': "left' = (lv_tok l, lv_op l, d') # left''" "d' < lv_due l"
    "list_all2 (\<lambda>(t, op, d) (t', op', d'). t' = t \<and> op' = op \<and> d' < d) (map lv_entry L) left''"
    by (auto simp: list_all2_Cons1 lv_entry_def [of l])
  from Cons.IH [OF left'(3)] obtain L' where "list_all2 nearer L L'" "map lv_entry L' = left''" by blast
  with left' show ?case
    by (intro exI [of _ "Live_op (lv_tok l) (lv_cb l) (lv_op l) d' # L'"]) (simp add: nearer_def [of l] lv_entry_def [of "Live_op _ _ _ _"])
qed simp

lemma nearer_all:
  assumes "list_all2 nearer L L'"
  shows "map lv_tok L' = map lv_tok L" "map (\<lambda>l. (lv_tok l, lv_cb l)) L' = map (\<lambda>l. (lv_tok l, lv_cb l)) L" "l' \<in> set L' \<Longrightarrow> \<exists>l \<in> set L. nearer l l'"
  using assms by (induction rule: list_all2_induct) (auto simp: nearer_def)

text \<open>A wait: some operations are performed, the others get nearer.\<close>

lemma wait_splits:
  assumes "wait_law lu perform ring view" "lu_wait_cqe lu w = (r, w')" "mset (rg_inflight (ring w)) = mset (map lv_entry X)"
  obtains D L L' ps rs where "0 \<le> r" "mset X = mset (D @ L)" "list_all2 nearer L L'" "performed perform view (map lv_op D) w rs w'"
    "length ps = length D" "ring w' = (ring w)\<lparr>rg_inflight := map lv_entry L',
       rg_completed := rg_completed (ring w) @ zip ps (zip (map lv_tok D) rs)\<rparr>"
proof -
  from assms(1,2) obtain dn left ps rs left' where r: "0 \<le> r" and dn: "mset (rg_inflight (ring w)) = mset (dn @ left)"
    and perf: "performed perform view (map (\<lambda>(t, op, d). op) dn) w rs w'" and ps: "length ps = length dn"
    and left: "list_all2 (\<lambda>(t, op, d) (t', op', d'). t' = t \<and> op' = op \<and> d' < d) left left'"
    and ring: "ring w' = (ring w)\<lparr>rg_inflight := left', rg_completed := rg_completed (ring w) @ zip ps (zip (map fst dn) rs)\<rparr>"
    unfolding wait_law_def by blast
  from dn assms(3) have "mset (dn @ left) = mset (map lv_entry X)" by simp
  from mset_map_order [OF this] obtain X' where X': "mset X' = mset X" "map lv_entry X' = dn @ left" by blast
  define D L where "D = take (length dn) X'" and "L = drop (length dn) X'"
  have split: "X' = D @ L" "map lv_entry D = dn" "map lv_entry L = left"
    using X'(2) by (simp_all add: D_def L_def take_map [symmetric] drop_map [symmetric])
  obtain L' where L': "list_all2 nearer L L'" "map lv_entry L' = left'"
    using nearer_entries left unfolding split(3) [symmetric] by blast
  have ops: "map (\<lambda>(t, op, d). op) dn = map lv_op D" "map fst dn = map lv_tok D"
    unfolding split(2) [symmetric] by (simp_all add: lv_entry_def comp_def)
  show ?thesis
    by (rule that [of D L L' rs ps])
      (use r X'(1) split(1) L' perf ps ring ops arg_cong [OF split(2), of length] in simp_all)
qed

lemma live_state_left:
  assumes "live_state ev ring B 2 c w X" "mset X = mset (D @ L)" "list_all2 nearer L L'"
    and "ring w' = (ring w)\<lparr>rg_prepared := [], rg_inflight := map lv_entry L', rg_completed := []\<rparr>"
  shows "live_state ev ring B 0 (c\<lparr>callbacks := callbacks c |` (- set (map lv_tok D))\<rparr>) w' L'"
proof -
  have DL: "live_state ev ring B 2 c w (D @ L)" using live_state_mset [OF assms(1,2)] .
  then have dist: "distinct (map lv_tok (D @ L))" by (simp add: live_state_def)
  note same = nearer_all [OF assms(3)]
  have "callbacks c |` (- set (map lv_tok D)) = map_of (map (\<lambda>l. (lv_tok l, lv_cb l)) L)"
    using DL map_of_without [of "map (\<lambda>l. (lv_tok l, lv_cb l)) D" "map (\<lambda>l. (lv_tok l, lv_cb l)) L"] dist
    by (simp add: live_state_def comp_def image_image)
  moreover have "lv_due l' \<le> B \<and> callbacks_idx c \<noteq> lv_tok l' \<and> unat (callbacks_idx c - lv_tok l') \<le> 2 * (B - lv_due l')"
    if "l' \<in> set L'" for l'
  proof -
    from same(3) [OF that] obtain l where l: "l \<in> set L" "nearer l l'" by blast
    with DL have "lv_due l \<le> B" "callbacks_idx c \<noteq> lv_tok l" "unat (callbacks_idx c - lv_tok l) \<le> 2 * (B - lv_due l) + 2"
      by (auto simp: live_state_def)
    with l(2) show ?thesis by (auto simp: nearer_def)
  qed
  ultimately show ?thesis
    using DL dist assms(4) same(1,2) by (simp add: live_state_def context_ready_def unlocked_def)
qed

lemma performed_view:
  assumes "performed perform view ops w rs w'" "view w0 = view w" "view w1 = view w'"
  shows "performed perform view ops w0 rs w1"
  using assms
proof (induction arbitrary: w0 rule: performed.induct)
  case (none w' w)
  then show ?case by (simp add: performed.none)
next
  case (one v w op res v' ops rs w')
  have "view v = view w0" using one.hyps(1) one.prems(1) by simp
  then show ?case using one.hyps(2) one.IH [OF refl one.prems(2)] by (rule performed.one)
qed

text \<open>What the loop collects from the completions of \<open>D\<close>.\<close>

lemma collect_live:
  assumes "live_state ev ring B j c w X" "set D \<subseteq> set X" "distinct (map lv_tok D)" "completion_law lu ring view"
    and "rg_completed (ring v) = zip ps (zip (map lv_tok D) rs)" "length ps = length D" "length rs = length D"
  shows "\<exists>v'. collect_callbacks lu (map Some (map fst (rg_completed (ring v)))) (callbacks c) v =
      Inr (zip (map lv_cb D) (map result_of_res rs), callbacks c |` (- set (map lv_tok D)), v')
    \<and> ring v' = (ring v)\<lparr>rg_completed := []\<rparr> \<and> view v' = view v"
proof -
  let ?cs = "map fst (rg_completed (ring v))"
  have found: "callbacks c (lv_tok l) = Some (lv_cb l)" if "l \<in> set D" for l
  proof -
    have "distinct (map fst (map (\<lambda>l. (lv_tok l, lv_cb l)) X))" using assms(1) by (simp add: live_state_def comp_def)
    moreover have "(lv_tok l, lv_cb l) \<in> set (map (\<lambda>l. (lv_tok l, lv_cb l)) X)" using that assms(2) by auto
    ultimately show ?thesis using assms(1) by (simp only: live_state_def map_of_is_SomeI)
  qed
  note batch = batch_read_completed [OF assms(4) refl, of v]
  have "map (\<lambda>(p, t, res). (t, result_of_res res)) (zip ps (zip (map lv_tok D) rs)) = zip (map lv_tok D) (map result_of_res rs)"
    using assms(6,7) by (intro nth_equalityI) simp_all
  then have read: "batch_read lu ?cs v = zip (map lv_tok D) (map result_of_res rs)" using batch(1) assms(5) by simp
  have toks: "fst ` set (zip (map lv_tok D) (map result_of_res rs)) = set (map lv_tok D)"
    by (metis assms(7) length_map map_fst_zip set_map)
  then have "first_hits (callbacks c) (batch_read lu ?cs v) = zip (map lv_tok D) (map result_of_res rs)"
    unfolding read using assms(3,7) found by (intro first_hits_all) (auto simp: image_iff)
  moreover have "map (\<lambda>(t, r). (the (callbacks c t), r)) (zip (map lv_tok D) (map result_of_res rs)) = zip (map lv_cb D) (map result_of_res rs)"
    using assms(7) found by (intro nth_equalityI) simp_all
  ultimately show ?thesis
    using batch(2,3) toks unfolding collect_callbacks_eq read
    by (intro exI [of _ "fold (lu_cqe_seen lu) ?cs v"]) simp
qed

lemma run_pass:
  assumes laws: "submit_law lu ring view B" "wait_law lu perform ring view" "completion_law lu ring view"
    and st: "live_state ev ring B 2 c w X" "\<not> exiting c" "length X \<le> batch_size"
  obtains D L L' rs w' c' where "mset X = mset (D @ L)" "list_all2 nearer L L'" "performed perform view (map lv_op D) w rs w'"
    "c' = c\<lparr>callbacks := callbacks c |` (- set (map lv_tok D))\<rparr>" "live_state ev ring B 0 c' w' L'"
    "\<And>k user s. run_iteration k lu user (c, s, w) =
       (case run_callbacks (invoke k lu user) (zip (map lv_cb D) (map result_of_res rs)) (c', s, w') of
          Inl e \<Rightarrow> Inl e | Inr st \<Rightarrow> Inr (Looped, st))"
proof -
  obtain sr w1 where submit: "lu_submit lu w = (sr, w1)" by fastforce
  have w1: "view w1 = view w" "ring w1 = (ring w)\<lparr>rg_prepared := [],
      rg_inflight := rg_inflight (ring w) @ map (\<lambda>(t, op). (t, op, B)) (rg_prepared (ring w))\<rparr>"
    using laws(1) submit unfolding submit_law_def by (metis snd_conv)+
  obtain r w2 where wait: "lu_wait_cqe lu w1 = (r, w2)" by fastforce
  have inflight: "mset (rg_inflight (ring w1)) = mset (map lv_entry X)" using st(1) w1(2) by (simp add: live_state_def)
  obtain D L L' ps rs where r: "0 \<le> r" and X: "mset X = mset (D @ L)" "list_all2 nearer L L'"
    and perf: "performed perform view (map lv_op D) w1 rs w2" and ps: "length ps = length D"
    and ring2: "ring w2 = (ring w1)\<lparr>rg_inflight := map lv_entry L', rg_completed := rg_completed (ring w1) @ zip ps (zip (map lv_tok D) rs)\<rparr>"
    by (rule wait_splits [OF laws(2) wait inflight]) (rule that)
  have rs: "length rs = length D" using performed_length [OF perf] by simp
  have cq: "rg_completed (ring w2) = zip ps (zip (map lv_tok D) rs)" using ring2 w1(2) st(1) by (simp add: live_state_def)
  obtain w3 where w3: "lu_peek_batch_cqe lu batch_size w2 = (map fst (rg_completed (ring w2)), w3)" "ring w3 = ring w2" "view w3 = view w2"
  proof -
    have "length (rg_completed (ring w2)) \<le> batch_size"
      using cq ps rs st(3) arg_cong [OF X(1), of size] by simp
    then have "fst (lu_peek_batch_cqe lu batch_size w2) = map fst (rg_completed (ring w2))"
      "ring (snd (lu_peek_batch_cqe lu batch_size w2)) = ring w2" "view (snd (lu_peek_batch_cqe lu batch_size w2)) = view w2"
      using laws(3) unfolding completion_law_def by simp_all
    then show ?thesis by (metis that prod.collapse)
  qed
  have D: "set D \<subseteq> set X" using mset_eq_setD [OF X(1)] by auto
  have "distinct (map lv_tok D)"
    using live_state_mset [OF st(1) X(1)] by (simp add: live_state_def)
  from collect_live [OF st(1) D this laws(3), of w3] obtain w4 where
    collect: "collect_callbacks lu (map Some (map fst (rg_completed (ring w3)))) (callbacks c) w3 =
      Inr (zip (map lv_cb D) (map result_of_res rs), callbacks c |` (- set (map lv_tok D)), w4)"
    "ring w4 = (ring w3)\<lparr>rg_completed := []\<rparr>" "view w4 = view w3"
    using cq ps rs w3(2) by auto
  let ?c = "c\<lparr>callbacks := callbacks c |` (- set (map lv_tok D))\<rparr>"
  have ready: "r_inited c" "\<not> m_submission c" "\<not> m_callbacks c" using st(1) by (simp_all add: live_state_def context_ready_def unlocked_def)
  have peek: "uring_peek_batch_cqe lu True (replicate batch_size None) batch_size w2 = Inr (map Some (map fst (rg_completed (ring w3))), w3)"
    unfolding uring_peek_batch_cqe_def w3(1) w3(2)
    using fill_slots_empty [of "map fst (rg_completed (ring w2))" batch_size lu w3] cq ps rs st(3) arg_cong [OF X(1), of size] by simp
  have "ring w4 = (ring w)\<lparr>rg_prepared := [], rg_inflight := map lv_entry L', rg_completed := []\<rparr>"
    using collect(2) w3(2) ring2 w1(2) by simp
  from live_state_left [OF st(1) X this] have live: "live_state ev ring B 0 ?c w4 L'" .
  have "performed perform view (map lv_op D) w rs w4"
    using perf by (rule performed_view) (use w1 w3 collect in simp_all)
  moreover have "run_iteration k lu user (c, s, w) =
       (case run_callbacks (invoke k lu user) (zip (map lv_cb D) (map result_of_res rs)) (?c, s, w4) of
          Inl e \<Rightarrow> Inl e | Inr st \<Rightarrow> Inr (Looped, st))" for k user s
    using st(2) ready submit wait r peek collect(1)
    by (simp add: run_iteration_def context_submit_def uring_submit_def uring_wait_def)
  ultimately show ?thesis using that [OF X _ refl live] by blast
qed

end
