(* ===== verification/Ark_Loop.thy ===== *)
theory Ark_Loop
  imports Ark_Pass
begin

text \<open>
  The event loop runs a program to its end: \<open>loop_runs_program\<close> turns a chain of operations (\<open>runs_to\<close>) that
  ends with a request to exit into a run of \<open>context_init\<close>, the program and \<open>context_run\<close> that returns. The operation of
  the chain and the poll of the waker complete in any order, in one batch or in two.
\<close>

section \<open>The waker\<close>

lemma submits_ring:
  assumes "submits k lu op c w w1" "submit_law lu ring view B" "calls_keep k ring"
  shows "ring w1 = (ring w)\<lparr>rg_prepared := rg_prepared (ring w) @ [(callbacks_idx c, op)]\<rparr>"
proof -
  from assms(1) obtain slot w0 where slot: "lu_get_sqe lu w = (Some slot, w0)"
    "wake k c (lu_sqe_set_data lu slot (callbacks_idx c) (lu_prep lu slot op w0)) = (Inr (), w1)"
    unfolding submits_def by blast
  have "ring (lu_sqe_set_data lu slot (callbacks_idx c) (lu_prep lu slot op w0)) =
      (ring w)\<lparr>rg_prepared := rg_prepared (ring w) @ [(callbacks_idx c, op)]\<rparr>"
    using assms(2) slot(1) unfolding submit_law_def by blast
  moreover have "ring w1 = ring (lu_sqe_set_data lu slot (callbacks_idx c) (lu_prep lu slot op w0))"
    using slot(2) assms(3) by (auto simp: wake_def calls_keep_def split: prod.splits if_splits) (metis snd_conv)
  ultimately show ?thesis by simp
qed

text \<open>The waker callback drains the descriptor and polls it again; it asks for no exit.\<close>

lemma waker_again:
  assumes "submission_ok k lu ev view" "calls_keep k ring" "submit_law lu ring view B" "waker_law k ev perform view"
    and "live_state ev ring B j c w X" "2 * B + j + 2 < 2 ^ 64" "0 \<le> res"
  obtains w' where "waker_callback k lu (result_of_res res) c w = Inr (registered c Waker_cb, w')" "view w' = view w"
    "live_state ev ring B (Suc j) (registered c Waker_cb) w' (Live_op (callbacks_idx c) Waker_cb (Prep_poll_add ev POLLIN) B # X)"
proof -
  have ready: "context_ready ev c" using assms(5) by (simp add: live_state_def)
  then have ev: "waker_evfd c = ev" by (simp add: context_ready_def)
  obtain n w1 where rd: "k_read_discard k ev 8 w = (n, w1)" by fastforce
  have w1: "n \<noteq> - 1" "view w1 = view w" "ring w1 = ring w"
    using assms(2,4) rd unfolding waker_law_def calls_keep_def by (metis fst_conv snd_conv)+
  obtain w' where w': "add_sqe_cb k lu (Prep_poll_add ev POLLIN) Waker_cb c w1 = Inr (Inr (callbacks_idx c), registered c Waker_cb, w')"
    "submits k lu (Prep_poll_add ev POLLIN) c w1 w'" "view w' = view w1"
    by (rule submission_okE [OF assms(1) ready]) (rule that)
  have "live_state ev ring B (Suc j) (registered c Waker_cb) w' (Live_op (callbacks_idx c) Waker_cb (Prep_poll_add ev POLLIN) B # X)"
    by (rule live_state_register [OF assms(5,6)]) (use submits_ring [OF w'(2) assms(3,2)] w1(3) in simp)
  moreover have "waker_callback k lu (result_of_res res) c w = Inr (registered c Waker_cb, w')"
    using rd w1(1) w'(1) assms(7) by (simp add: waker_callback_def result_of_res_def ev add_waker_def)
  ultimately show ?thesis using that w'(3) w1(2) by simp
qed

section \<open>From chains to runs of the loop\<close>

text \<open>The loop returns without an error, and the objects are as \<open>Q\<close> says.\<close>

definition settles ::
  "('w, 'z) clinux_scheme \<Rightarrow> 'w liburing \<Rightarrow> ('u, 's, 'w) user_callback \<Rightarrow> ('w \<Rightarrow> 'v) \<Rightarrow> (('u, 's, 'w) uring_state \<Rightarrow> bool)
   \<Rightarrow> ('u, 's, 'w) uring_state \<Rightarrow> bool"
where
  "settles k lu call view Q st \<longleftrightarrow>
     (\<exists>c s w c0 w0. context_run k lu call st = Some (Inr (Inr (), c, s, w)) \<and> Q (c0, s, w0) \<and> view w = view w0 \<and> r_inited c)"

lemma settles_loop: "run_iteration k lu call st = Inr (Looped, st') \<Longrightarrow> settles k lu call view Q st' \<Longrightarrow> settles k lu call view Q st"
  unfolding settles_def by (subst context_run.simps) simp

lemma settles_exit:
  "exiting c \<Longrightarrow> \<not> is_error (exiting_error c) \<Longrightarrow> r_inited c \<Longrightarrow> Q (c0, s, w0) \<Longrightarrow> view w = view w0 \<Longrightarrow> settles k lu call view Q (c, s, w)"
  unfolding settles_def by (subst context_run.simps) (auto simp: run_iteration_def)

text \<open>
  A callback of the program runs while the poll of the waker is on the ring, or in a batch in
  which the callback of the waker is still to run.
\<close>

definition waker_due :: "int \<Rightarrow> ('u callback \<times> int result) list \<Rightarrow> 'u live_op list \<Rightarrow> nat \<Rightarrow> bool" where
  "waker_due ev ws X j \<longleftrightarrow>
     ws = [] \<and> j \<le> 1 \<and> (\<exists>t d. X = [Live_op t Waker_cb (Prep_poll_add ev POLLIN) d])
     \<or> (\<exists>res. 0 \<le> res \<and> ws = [(Waker_cb, result_of_res res)]) \<and> j = 0 \<and> X = []"

definition quiet :: "'u uring_context \<Rightarrow> bool" where
  "quiet c \<longleftrightarrow> \<not> exiting c \<and> \<not> is_error (exiting_error c)"

lemma quiet_registered [simp]: "quiet (registered c cb) = quiet c" "quiet (c\<lparr>callbacks := m\<rparr>) = quiet c"
  by (simp_all add: quiet_def registered_def)

lemma mset_two: "mset xs = {#a, b#} \<longleftrightarrow> xs = [a, b] \<or> xs = [b, a]"
proof
  assume m: "mset xs = {#a, b#}"
  then have "size (mset xs) = 2" by simp
  then obtain x y where "xs = [x, y]" by (auto simp: length_Suc_conv numeral_2_eq_2)
  with m show "xs = [a, b] \<or> xs = [b, a]" by (auto simp: add_eq_conv_ex)
qed auto

lemma append_two:
  "D @ L = [a, b] \<longleftrightarrow> D = [] \<and> L = [a, b] \<or> D = [a] \<and> L = [b] \<or> D = [a, b] \<and> L = []"
  by (auto simp: append_eq_Cons_conv)

lemma nearer_Live_op: "nearer (Live_op t cb op d) l' \<longleftrightarrow> (\<exists>d'. l' = Live_op t cb op d' \<and> d' < d)"
  by (cases l') (auto simp: nearer_def)

text \<open>The poll of the waker, performed, succeeds and leaves the view alone.\<close>

lemma poll_performed:
  assumes "waker_law k ev perform view" "perform (Prep_poll_add ev POLLIN) v = (res, v')"
  shows "0 \<le> res" "view v' = view v"
  using assms unfolding waker_law_def by (metis fst_conv, metis snd_conv)

text \<open>
  The callback \<open>cl\<close> of the operation \<open>sqe\<close> may be called: once the kernel has performed the operation,
  it and the callbacks after it in the batch succeed, and the loop settles.
\<close>

definition resumable ::
  "('w, 'z) clinux_scheme \<Rightarrow> 'w liburing \<Rightarrow> int \<Rightarrow> (sqe_op \<Rightarrow> 'w \<Rightarrow> int \<times> 'w) \<Rightarrow> ('w \<Rightarrow> ring) \<Rightarrow> ('w \<Rightarrow> 'v) \<Rightarrow> nat
   \<Rightarrow> ('u, 's, 'w) user_callback \<Rightarrow> (('u, 's, 'w) uring_state \<Rightarrow> bool) \<Rightarrow> 'v \<Rightarrow> 'u \<Rightarrow> sqe_op \<Rightarrow> 's \<Rightarrow> bool"
where
  "resumable k lu ev perform ring view B call Q V cl sqe s \<longleftrightarrow>
     (\<forall>c w v res v' ws X j. view v = V \<longrightarrow> perform sqe v = (res, v') \<longrightarrow> view w = view v' \<longrightarrow> quiet c
        \<longrightarrow> live_state ev ring B j c w X \<longrightarrow> waker_due ev ws X j
        \<longrightarrow> (\<exists>st1 st2. call cl (result_of_res res) (c, s, w) = Inr st1
              \<and> run_callbacks (invoke k lu call) ws st1 = Inr st2 \<and> settles k lu call view Q st2))"

lemma resumableE:
  assumes "resumable k lu ev perform ring view B call Q V cl sqe s" "view v = V" "perform sqe v = (res, v')" "view w = view v'" "quiet c"
    and "live_state ev ring B j c w X" "waker_due ev ws X j"
  obtains st1 st2 where "call cl (result_of_res res) (c, s, w) = Inr st1" "run_callbacks (invoke k lu call) ws st1 = Inr st2"
    "settles k lu call view Q st2"
  using assms unfolding resumable_def by blast

text \<open>A batch with the operation of the program: alone, or with the poll of the waker before or after it.\<close>

lemma batch_settles:
  assumes ok: "submission_ok k lu ev view" "calls_keep k ring" "2 * B + 6 < 2 ^ 64" "submit_law lu ring view B" "waker_law k ev perform view"
    and cont: "resumable k lu ev perform ring view B call Q (view w) cl sqe s"
    and us: "us = Live_op tu (User_cb cl) sqe du" and wk: "wk = Live_op tw Waker_cb (Prep_poll_add ev POLLIN) dw"
    and D: "D = [us] \<and> L = [wk] \<or> D = [wk, us] \<and> L = [] \<or> D = [us, wk] \<and> L = []" "list_all2 nearer L L'"
    and perf: "performed perform view (map lv_op D) w rs w'" and live: "live_state ev ring B 0 c' w' L'" "quiet c'"
  shows "\<exists>st. run_callbacks (invoke k lu call) (zip (map lv_cb D) (map result_of_res rs)) (c', s, w') = Inr st \<and> settles k lu call view Q st"
  using D(1)
proof (elim disjE conjE)
  assume D': "D = [us]" "L = [wk]"
  with D(2) wk obtain dw' where L': "L' = [Live_op tw Waker_cb (Prep_poll_add ev POLLIN) dw']" by (auto simp: list_all2_Cons1 nearer_Live_op)
  obtain v res v' where v: "view v = view w" "perform sqe v = (res, v')" "view w' = view v'" "rs = [res]"
    using perf D'(1) us by (auto simp: performed_Cons performed_Nil)
  have "waker_due ev [] L' 0" by (simp add: waker_due_def L')
  from resumableE [OF cont v(1-3) live(2,1) this] obtain st where "call cl (result_of_res res) (c', s, w') = Inr st" "settles k lu call view Q st"
    by (metis run_callbacks.simps(1) sum.inject(2))
  then show ?thesis using D'(1) us v(4) by (simp add: invoke_def)
next
  assume D': "D = [wk, us]" "L = []"
  then have L': "L' = []" using D(2) by simp
  obtain v1 res1 v1' v res v' where v: "view v1 = view w" "perform (Prep_poll_add ev POLLIN) v1 = (res1, v1')" "view v = view v1'"
    "perform sqe v = (res, v')" "view w' = view v'" "rs = [res1, res]"
    using perf D'(1) us wk by (auto simp: performed_Cons performed_Nil)
  note poll = poll_performed [OF ok(5) v(2)]
  obtain w2 where w2: "waker_callback k lu (result_of_res res1) c' w' = Inr (registered c' Waker_cb, w2)" "view w2 = view w'"
    "live_state ev ring B (Suc 0) (registered c' Waker_cb) w2 (Live_op (callbacks_idx c') Waker_cb (Prep_poll_add ev POLLIN) B # L')"
    by (rule waker_again [OF ok(1,2,4,5) live(1) _ poll(1)]) (use ok(3) in simp, rule that)
  have due: "waker_due ev [] (Live_op (callbacks_idx c') Waker_cb (Prep_poll_add ev POLLIN) B # L') (Suc 0)" by (simp add: waker_due_def L')
  obtain st where "call cl (result_of_res res) (registered c' Waker_cb, s, w2) = Inr st" "settles k lu call view Q st"
    by (rule resumableE [OF cont _ v(4) _ _ w2(3) due]) (use v(1,3,5) poll(2) w2(2) live(2) that in simp_all)
  then show ?thesis using D'(1) us wk v(6) w2(1) by (simp add: invoke_def)
next
  assume D': "D = [us, wk]" "L = []"
  then have L': "L' = []" using D(2) by simp
  obtain v1 res1 v1' v res v' where v: "view v = view w" "perform sqe v = (res, v')" "view v1 = view v'"
    "perform (Prep_poll_add ev POLLIN) v1 = (res1, v1')" "view w' = view v1'" "rs = [res, res1]"
    using perf D'(1) us wk by (auto simp: performed_Cons performed_Nil)
  note poll = poll_performed [OF ok(5) v(4)]
  have due: "waker_due ev [(Waker_cb, result_of_res res1)] L' 0" using poll(1) by (auto simp: waker_due_def L')
  have "view w' = view v'" using v(3,5) poll(2) by simp
  from resumableE [OF cont v(1,2) this live(2,1) due] obtain st1 st2 where
    "call cl (result_of_res res) (c', s, w') = Inr st1" "run_callbacks (invoke k lu call) [(Waker_cb, result_of_res res1)] st1 = Inr st2"
    "settles k lu call view Q st2" by metis
  then show ?thesis using D'(1) us wk v(6) by (simp add: invoke_def)
qed

text \<open>
  The loop with the operation of the program and the poll of the waker in flight settles, by induction on
  the waits left until the operation completes.
\<close>

lemma head_settles:
  assumes ok: "submission_ok k lu ev view" "calls_keep k ring" "2 * B + 6 < 2 ^ 64"
    and laws: "submit_law lu ring view B" "wait_law lu perform ring view" "completion_law lu ring view" "waker_law k ev perform view"
    and cont: "resumable k lu ev perform ring view B call Q V cl sqe s"
    and "live_state ev ring B 2 c w X" "mset X = {#Live_op tw Waker_cb (Prep_poll_add ev POLLIN) dw, Live_op tu (User_cb cl) sqe du#}"
      "quiet c" "view w = V"
  shows "settles k lu call view Q (c, s, w)"
  using assms(9-)
proof (induction du arbitrary: c w X tw dw tu rule: less_induct)
  case (less du)
  let ?wk = "Live_op tw Waker_cb (Prep_poll_add ev POLLIN) dw" and ?us = "Live_op tu (User_cb cl) sqe du"
  have "length X = 2" using arg_cong [OF less.prems(2), of size] by simp
  then have two: "length X \<le> batch_size" and quiet: "\<not> exiting c" using less.prems(3) by (simp_all add: quiet_def)
  obtain D L L' rs w' c' where X: "mset X = mset (D @ L)" "list_all2 nearer L L'" and perf: "performed perform view (map lv_op D) w rs w'"
    and c': "c' = c\<lparr>callbacks := callbacks c |` (- set (map lv_tok D))\<rparr>" and live: "live_state ev ring B 0 c' w' L'"
    and pass: "run_iteration k lu call (c, s, w) =
       (case run_callbacks (invoke k lu call) (zip (map lv_cb D) (map result_of_res rs)) (c', s, w') of Inl e \<Rightarrow> Inl e | Inr st \<Rightarrow> Inr (Looped, st))"
    by (rule run_pass [OF laws(1-3) less.prems(1) quiet two]) (rule that)
  have q: "quiet c'" using less.prems(3) by (simp add: c')
  from X(1) less.prems(2) have "D @ L = [?wk, ?us] \<or> D @ L = [?us, ?wk]" by (simp only: mset_two [symmetric])
  then consider (none) "D = []" "mset L = {#?wk, ?us#}" | (waker) "D = [?wk]" "L = [?us]"
    | (user) "D = [?us] \<and> L = [?wk] \<or> D = [?wk, ?us] \<and> L = [] \<or> D = [?us, ?wk] \<and> L = []"
    unfolding append_two by (elim disjE conjE) simp_all
  then have "\<exists>st. run_callbacks (invoke k lu call) (zip (map lv_cb D) (map result_of_res rs)) (c', s, w') = Inr st \<and> settles k lu call view Q st"
  proof cases
    case none
    then have "L = [?wk, ?us] \<or> L = [?us, ?wk]" by (simp only: mset_two)
    then obtain dw' du' where "du' < du"
        "L' = [Live_op tw Waker_cb (Prep_poll_add ev POLLIN) dw', Live_op tu (User_cb cl) sqe du']
         \<or> L' = [Live_op tu (User_cb cl) sqe du', Live_op tw Waker_cb (Prep_poll_add ev POLLIN) dw']"
      using X(2) by (auto simp: list_all2_Cons1 nearer_Live_op)
    then have L': "du' < du" "mset L' = {#Live_op tw Waker_cb (Prep_poll_add ev POLLIN) dw', Live_op tu (User_cb cl) sqe du'#}"
      by (simp_all only: mset_two)
    have w': "view w' = V" "rs = []" using perf less.prems(4) none(1) by (simp_all add: performed_Nil)
    have "settles k lu call view Q (c', s, w')" by (rule less.IH [OF L'(1) live_state_mono [OF live] L'(2) q w'(1)]) simp
    then show ?thesis using none(1) w'(2) by simp
  next
    case waker
    then obtain du' where L': "L' = [Live_op tu (User_cb cl) sqe du']" "du' < du"
      using X(2) by (auto simp: list_all2_Cons1 nearer_Live_op)
    obtain v res v' where v: "view v = view w" "perform (Prep_poll_add ev POLLIN) v = (res, v')" "view w' = view v'" "rs = [res]"
      using perf waker(1) by (auto simp: performed_Cons performed_Nil)
    note poll = poll_performed [OF laws(4) v(2)]
    obtain w2 where w2: "waker_callback k lu (result_of_res res) c' w' = Inr (registered c' Waker_cb, w2)" "view w2 = view w'"
      "live_state ev ring B (Suc 0) (registered c' Waker_cb) w2 (Live_op (callbacks_idx c') Waker_cb (Prep_poll_add ev POLLIN) B # L')"
      by (rule waker_again [OF ok(1,2) laws(1,4) live _ poll(1)]) (use ok(3) in simp, rule that)
    have "settles k lu call view Q (registered c' Waker_cb, s, w2)"
      by (rule less.IH [OF L'(2) live_state_mono [OF w2(3)]]) (use L'(1) q w2(2) v poll less.prems(4) in simp_all)
    then show ?thesis using waker(1) v(4) w2(1) by (simp add: invoke_def)
  next
    case user
    then show ?thesis using cont less.prems(4) by (intro batch_settles [OF ok laws(1,4) _ refl refl _ X(2) perf live q]) simp_all
  qed
  then show ?case using pass by (auto intro: settles_loop)
qed

lemma live_state_ready: "live_state ev ring B j c w X \<Longrightarrow> context_ready ev c"
  by (simp add: live_state_def)

lemma live_state_kept:
  assumes "live_state ev ring B j c w X" "loop_kept ring c w c' w'"
  shows "live_state ev ring B j c' w' X"
  using assms by (auto simp: live_state_def loop_kept_def context_ready_def unlocked_def)

text \<open>The program has asked for the exit; the callback of the waker may still run.\<close>

lemma exit_settles:
  assumes ok: "submission_ok k lu ev view" "calls_keep k ring" "2 * B + 6 < 2 ^ 64" "submit_law lu ring view B" "waker_law k ev perform view"
    and st: "quiet c" "live_state ev ring B j c w X" "waker_due ev ws X j" "loop_kept ring c w c' w'" "exiting c'" "Q (c', s, w')"
  shows "\<exists>st. run_callbacks (invoke k lu call) ws (c', s, w') = Inr st \<and> settles k lu call view Q st"
proof -
  have live: "live_state ev ring B j c' w' X" using live_state_kept [OF st(2,4)] .
  have c': "exiting c'" "\<not> is_error (exiting_error c')" "r_inited c'"
    using st(1,4,5) live by (auto simp: loop_kept_def quiet_def live_state_def context_ready_def)
  show ?thesis
  proof (cases ws)
    case Nil
    with st(6) c' show ?thesis by (auto intro: settles_exit)
  next
    case Cons
    then obtain res where ws: "0 \<le> res" "ws = [(Waker_cb, result_of_res res)]" "j = 0" using st(3) by (auto simp: waker_due_def)
    obtain w2 where w2: "waker_callback k lu (result_of_res res) c' w' = Inr (registered c' Waker_cb, w2)" "view w2 = view w'"
      by (rule waker_again [OF ok(1,2,4,5) live _ ws(1)]) (use ok(3) ws(3) in simp, rule that)
    have "settles k lu call view Q (registered c' Waker_cb, s, w2)"
      by (rule settles_exit [where Q = Q and view = view, OF _ _ _ st(6) w2(2)]) (use c' in \<open>simp_all add: registered_def\<close>)
    with w2(1) ws(2) show ?thesis by (simp add: invoke_def)
  qed
qed

text \<open>The program has submitted its next operation; the callback of the waker may still run.\<close>

lemma submission_settles:
  assumes ok: "submission_ok k lu ev view" "calls_keep k ring" "2 * B + 6 < 2 ^ 64"
    and laws: "submit_law lu ring view B" "wait_law lu perform ring view" "completion_law lu ring view" "waker_law k ev perform view"
    and cont: "resumable k lu ev perform ring view B call Q (view w1) cl sqe s"
    and st: "quiet c" "live_state ev ring B j c w X" "waker_due ev ws X j" "ring w' = ring w" "submits k lu sqe c w' w1"
  shows "\<exists>st. run_callbacks (invoke k lu call) ws (registered c (User_cb cl), s, w1) = Inr st \<and> settles k lu call view Q st"
proof -
  have ring: "ring w1 = (ring w)\<lparr>rg_prepared := rg_prepared (ring w) @ [(callbacks_idx c, sqe)]\<rparr>"
    using submits_ring [OF st(5) laws(1) ok(2)] st(4) by simp
  let ?u = "Live_op (callbacks_idx c) (User_cb cl) sqe B" and ?c = "registered c (User_cb cl)"
  have j: "j \<le> 1" using st(3) by (auto simp: waker_due_def)
  then have live: "live_state ev ring B (Suc j) ?c w1 (?u # X)"
    by (intro live_state_register [OF st(2) _ ring]) (use ok(3) in simp)
  note head = head_settles [OF ok laws cont]
  show ?thesis
  proof (cases ws)
    case Nil
    then obtain t d where "X = [Live_op t Waker_cb (Prep_poll_add ev POLLIN) d]" using st(3) by (auto simp: waker_due_def)
    then have two: "mset (?u # X) = {#Live_op t Waker_cb (Prep_poll_add ev POLLIN) d, ?u#}" by (simp only: mset_two) simp
    have "settles k lu call view Q (?c, s, w1)"
      by (rule head [OF live_state_mono [OF live] two]) (use j st(1) in simp_all)
    with Nil show ?thesis by simp
  next
    case Cons
    then obtain res where ws: "0 \<le> res" "ws = [(Waker_cb, result_of_res res)]" "j = 0" "X = []" using st(3) by (auto simp: waker_due_def)
    obtain w2 where w2: "waker_callback k lu (result_of_res res) ?c w1 = Inr (registered ?c Waker_cb, w2)" "view w2 = view w1"
        "live_state ev ring B (Suc (Suc j)) (registered ?c Waker_cb) w2 (Live_op (callbacks_idx ?c) Waker_cb (Prep_poll_add ev POLLIN) B # ?u # X)"
      by (rule waker_again [OF ok(1,2) laws(1,4) live _ ws(1)]) (use ok(3) ws(3) in simp, rule that)
    have "settles k lu call view Q (registered ?c Waker_cb, s, w2)"
      by (rule head [OF live_state_mono [OF w2(3)]]) (use ws(3,4) w2(2) st(1) in simp_all)
    with w2(1) ws(2) show ?thesis by (simp add: invoke_def)
  qed
qed

lemma chain_settles:
  assumes ok: "submission_ok k lu ev view" "calls_keep k ring" "2 * B + 6 < 2 ^ 64"
    and laws: "submit_law lu ring view B" "wait_law lu perform ring view" "completion_law lu ring view" "waker_law k ev perform view"
    and chain: "runs_to k lu ev perform view ring call (\<lambda>s s'. s' = s) Q p (c, s, w)"
    and exits: "\<And>c s w. Q (c, s, w) \<Longrightarrow> exiting c"
    and st: "quiet c" "live_state ev ring B j c w X" "waker_due ev ws X j"
  shows "\<exists>st1 st2. p (c, s, w) = Inr st1 \<and> run_callbacks (invoke k lu call) ws st1 = Inr st2 \<and> settles k lu call view Q st2"
  using chain st
proof (induction p "(c, s, w)" arbitrary: c s w j X ws rule: runs_to.induct)
  case (returns p c s w c' s' w')
  show ?case
    using exit_settles [where Q = Q and call = call, OF ok laws(1,4) returns.prems returns.hyps(2) exits [OF returns.hyps(3)] returns.hyps(3)] returns.hyps(1) by simp
next
  case (waits p c s w cl s' w1 w' sqe)
  have "resumable k lu ev perform ring view B call Q (view w1) cl sqe s'"
    unfolding resumable_def by (intro allI impI) (rule waits.hyps(5) [OF live_state_ready refl])
  from submission_settles [OF ok laws this waits.prems waits.hyps(2,3)] show ?case using waits.hyps(1) by simp
qed

section \<open>A program on a new loop\<close>

text \<open>
  eventfd(2) and io_uring_queue_init(3) succeed: the descriptor is \<open>ev\<close> and the new ring is empty.
\<close>

definition start_law ::
  "('w, 'z) clinux_scheme \<Rightarrow> 'w liburing \<Rightarrow> int \<Rightarrow> ('w \<Rightarrow> ring) \<Rightarrow> ('w \<Rightarrow> 'v) \<Rightarrow> 'w \<Rightarrow> bool"
where
  "start_law k lu ev ring view w \<longleftrightarrow>
     ev \<noteq> - 1 \<and> (\<exists>w1 r w2. k_eventfd k 0 0 w = (ev, w1) \<and> lu_queue_init lu batch_size 0 w1 = (r, w2) \<and> 0 \<le> r
       \<and> ring w2 = \<lparr>rg_prepared = [], rg_inflight = [], rg_completed = []\<rparr> \<and> view w2 = view w)"

lemma context_init_live:
  fixes u :: int
  assumes "submission_ok k lu ev view" "calls_keep k ring" "submit_law lu ring view B" "2 * B + 6 < 2 ^ 64" "start_law k lu ev ring view w"
  obtains c w' and X :: "'u live_op list" where "context_init k lu (context_create u) w = Inr (Inr (), c, w')" "view w' = view w" "quiet c"
    "live_state ev ring B 1 c w' X" "waker_due ev [] X 1"
proof -
  from assms(5) obtain w1 r w2 where w2: "k_eventfd k 0 0 w = (ev, w1)" "ev \<noteq> - 1" "lu_queue_init lu batch_size 0 w1 = (r, w2)" "0 \<le> r"
      "ring w2 = \<lparr>rg_prepared = [], rg_inflight = [], rg_completed = []\<rparr>" "view w2 = view w"
    unfolding start_law_def by blast
  define c0 :: "'u uring_context" where "c0 = (context_create u)\<lparr>waker_evfd := ev, r_inited := True, inited := True\<rparr>"
  have c0: "context_ready ev c0" "quiet c0" "waker_evfd c0 = ev"
    by (simp_all add: c0_def context_create_def context_ready_def unlocked_def quiet_def is_error_def no_error_def)
  have live: "live_state ev ring B 0 c0 w2 []" using c0(1) w2(5) by (simp add: live_state_def c0_def context_create_def)
  obtain w' where w': "add_sqe_cb k lu (Prep_poll_add ev POLLIN) Waker_cb c0 w2 = Inr (Inr (callbacks_idx c0), registered c0 Waker_cb, w')"
      "submits k lu (Prep_poll_add ev POLLIN) c0 w2 w'" "view w' = view w2"
    by (rule submission_okE [OF assms(1) c0(1)]) (rule that)
  have "live_state ev ring B 1 (registered c0 Waker_cb) w' [Live_op (callbacks_idx c0) Waker_cb (Prep_poll_add ev POLLIN) B]"
    using live_state_register [OF live _ submits_ring [OF w'(2) assms(3,2)], of Waker_cb] assms(4) by simp
  moreover have "context_init k lu (context_create u) w = Inr (Inr (), registered c0 Waker_cb, w')"
    using w2(1-4) w'(1) by (simp add: context_init_def uring_queue_init_def c0_def context_create_def add_waker_def)
  ultimately show ?thesis using that c0(2) w'(3) w2(6) by (simp add: waker_due_def)
qed

text \<open>
  Whatever chain of operations a program is, the new loop runs it to its end, in whatever order the
  kernel completes the operations of the program and of the waker, together or apart.
\<close>

lemma loop_runs_program:
  fixes u :: int and p :: "('u, 's, 'w) uring_state \<Rightarrow> failure + ('u, 's, 'w) uring_state"
  assumes ok: "submission_ok k lu ev view" "calls_keep k ring" "2 * B + 6 < 2 ^ 64" "start_law k lu ev ring view w"
    and laws: "submit_law lu ring view B" "wait_law lu perform ring view" "completion_law lu ring view" "waker_law k ev perform view"
    and chain: "\<And>c w'. context_ready ev c \<Longrightarrow> view w' = view w \<Longrightarrow> runs_to k lu ev perform view ring call (\<lambda>s s'. s' = s) Q p (c, s, w')"
    and exits: "\<And>c s w. Q (c, s, w) \<Longrightarrow> exiting c"
  obtains c w' st where "context_init k lu (context_create u) w = Inr (Inr (), c, w')" "context_ready ev c" "view w' = view w"
    "p (c, s, w') = Inr st" "settles k lu call view Q st"
proof -
  obtain c w' and X :: "'u live_op list" where init: "context_init k lu (context_create u) w = Inr (Inr (), c, w')" "view w' = view w" "quiet c"
    "live_state ev ring B 1 c w' X" "waker_due ev [] X 1"
    by (rule context_init_live [OF ok(1,2) laws(1) ok(3,4)]) (rule that)
  have ready: "context_ready ev c" using init(4) by (simp add: live_state_def)
  have "\<exists>st1 st2. p (c, s, w') = Inr st1 \<and> run_callbacks (invoke k lu call) [] st1 = Inr st2 \<and> settles k lu call view Q st2"
    by (rule chain_settles [OF ok(1-3) laws chain exits init(3-5)]) (simp_all add: ready init(2))
  then show ?thesis using that init(1,2) ready by auto
qed

end
