(* ===== verification/Ark_Uring_Demo.thy ===== *)
theory Ark_Uring_Demo
  imports Ark_Loop Ark_Ring_Demo
begin

text \<open>
  A ring that can be run: submission queue, operations in flight and completion queue are lists, and
  an operation completes when two more waits have returned. It keeps the laws of \<open>Ark_Pass\<close>;
  the closed instances of the theorems on the event loop use it.
\<close>

record ring_world =
  rw_files :: demo_world
  rw_ring :: ring
  rw_entry :: sqe_op

fun rw_perform :: "sqe_op \<Rightarrow> ring_world \<Rightarrow> int \<times> ring_world" where
  "rw_perform (Prep_poll_add n events) w = (1, w)"
| "rw_perform sqe w = (case demo_perform sqe (rw_files w) of (res, d) \<Rightarrow> (res, w\<lparr>rw_files := d\<rparr>))"

fun rw_perform_all :: "sqe_op list \<Rightarrow> ring_world \<Rightarrow> int list \<times> ring_world" where
  "rw_perform_all [] w = ([], w)"
| "rw_perform_all (op # ops) w =
     (case rw_perform op w of (res, w1) \<Rightarrow> (case rw_perform_all ops w1 of (rs, w2) \<Rightarrow> (res # rs, w2)))"

definition rw_wait :: "ring_world \<Rightarrow> int \<times> ring_world" where
  "rw_wait w =
     (let r = rw_ring w; dn = filter (\<lambda>(t, op, d). d = 0) (rg_inflight r); left = filter (\<lambda>(t, op, d). d \<noteq> 0) (rg_inflight r)
      in case rw_perform_all (map (\<lambda>(t, op, d). op) dn) w of
           (rs, w') \<Rightarrow> (0, w'\<lparr>rw_ring := r\<lparr>rg_inflight := map (\<lambda>(t, op, d). (t, op, d - 1)) left,
              rg_completed := rg_completed r @ zip [0..<length dn] (zip (map fst dn) rs)\<rparr>\<rparr>))"

definition rw_liburing :: "ring_world liburing" where
  "rw_liburing =
     \<lparr>lu_queue_init = (\<lambda>n f w. (0, w\<lparr>rw_ring := \<lparr>rg_prepared = [], rg_inflight = [], rg_completed = []\<rparr>\<rparr>)),
      lu_queue_exit = (\<lambda>w. w), lu_get_sqe = (\<lambda>w. (Some 0, w)), lu_prep = (\<lambda>slot op w. w\<lparr>rw_entry := op\<rparr>),
      lu_sqe_set_data = (\<lambda>slot t w. w\<lparr>rw_ring := (rw_ring w)\<lparr>rg_prepared := rg_prepared (rw_ring w) @ [(t, rw_entry w)]\<rparr>\<rparr>),
      lu_sqe_set_flags = (\<lambda>slot f w. w),
      lu_submit = (\<lambda>w. (int (length (rg_prepared (rw_ring w))), w\<lparr>rw_ring := (rw_ring w)\<lparr>rg_prepared := [],
         rg_inflight := rg_inflight (rw_ring w) @ map (\<lambda>(t, op). (t, op, 2)) (rg_prepared (rw_ring w))\<rparr>\<rparr>)),
      lu_wait_cqe = rw_wait, lu_peek_batch_cqe = (\<lambda>n w. (map fst (take n (rg_completed (rw_ring w))), w)),
      lu_cqe_get_data = (\<lambda>p w. fst (snd (hd (rg_completed (rw_ring w))))),
      lu_cqe_res = (\<lambda>p w. snd (snd (hd (rg_completed (rw_ring w))))),
      lu_cqe_seen = (\<lambda>p w. w\<lparr>rw_ring := (rw_ring w)\<lparr>rg_completed := tl (rg_completed (rw_ring w))\<rparr>\<rparr>)\<rparr>"

text \<open>Descriptor 3 is the eventfd, and every file is opened as descriptor 6; the blocking calls read the same files.\<close>

definition rw_lift :: "(demo_world \<Rightarrow> int \<times> demo_world) \<Rightarrow> ring_world \<Rightarrow> int \<times> ring_world" where
  "rw_lift f w = (case f (rw_files w) of (r, d) \<Rightarrow> (r, w\<lparr>rw_files := d\<rparr>))"

definition rw_clinux :: "ring_world clinux" where
  "rw_clinux = writable_clinux\<lparr>k_open := (\<lambda>path flags mode w. (6, w)), k_close := (\<lambda>n w. (0, w)),
     k_readv := (\<lambda>n iov. rw_lift (demo_readv n iov)), k_preadv2 := (\<lambda>n iov off flags. rw_lift (demo_preadv2 n iov off flags))\<rparr>"

definition rw_start :: ring_world where
  "rw_start = \<lparr>rw_files = demo_start, rw_ring = \<lparr>rg_prepared = [], rg_inflight = [], rg_completed = []\<rparr>, rw_entry = Prep_nop\<rparr>"

section \<open>The laws of the ring\<close>

lemma rw_perform_ring: "rw_perform op w = (res, w') \<Longrightarrow> rw_ring w' = rw_ring w"
  by (cases "(op, w)" rule: rw_perform.cases) (auto split: prod.splits)

lemma rw_performed:
  "rw_perform_all ops w = (rs, w') \<Longrightarrow> rw_files v = rw_files w' \<Longrightarrow> performed rw_perform rw_files ops w rs v"
  by (induction ops arbitrary: w rs) (auto intro: performed.intros split: prod.splits)

lemma rw_submit_law: "submit_law rw_liburing rw_ring rw_files 2"
  by (simp add: submit_law_def rw_liburing_def)

lemma rw_completion_law: "completion_law rw_liburing rw_ring rw_files"
  by (simp add: completion_law_def rw_liburing_def)

lemma rw_wait_law: "wait_law rw_liburing rw_perform rw_ring rw_files"
  unfolding wait_law_def
proof (intro allI impI)
  fix w r w' assume "lu_wait_cqe rw_liburing w = (r, w')"
  then have wait: "rw_wait w = (r, w')" by (simp add: rw_liburing_def)
  define dn left left' where "dn = filter (\<lambda>(t, op, d). d = 0) (rg_inflight (rw_ring w))"
    and "left = filter (\<lambda>(t, op, d). d \<noteq> 0) (rg_inflight (rw_ring w))" and "left' = map (\<lambda>(t, op, d). (t, op, d - 1)) left"
  obtain rs v where all: "rw_perform_all (map (\<lambda>(t, op, d). op) dn) w = (rs, v)" by fastforce
  then have w': "r = 0" "w' = v\<lparr>rw_ring := (rw_ring w)\<lparr>rg_inflight := left',
      rg_completed := rg_completed (rw_ring w) @ zip [0..<length dn] (zip (map fst dn) rs)\<rparr>\<rparr>"
    using wait by (simp_all add: rw_wait_def Let_def dn_def left_def left'_def)
  have "mset xs = mset (filter (\<lambda>(t, op, d). d = 0) xs @ filter (\<lambda>(t, op, d). d \<noteq> 0) xs)" for xs :: "(token_t \<times> sqe_op \<times> nat) list"
    by (induction xs) auto
  then have "mset (rg_inflight (rw_ring w)) = mset (dn @ left)" unfolding dn_def left_def .
  moreover have "performed rw_perform rw_files (map (\<lambda>(t, op, d). op) dn) w rs w'" using all by (rule rw_performed) (simp add: w')
  moreover have "list_all2 (\<lambda>(t, op, d) (t', op', d'). t' = t \<and> op' = op \<and> d' < d) left left'"
    by (auto simp: left'_def left_def list_all2_map2 list_all2_same)
  ultimately show "0 \<le> r \<and> (\<exists>dn left ps rs left'. mset (rg_inflight (rw_ring w)) = mset (dn @ left)
           \<and> performed rw_perform rw_files (map (\<lambda>(t, op, d). op) dn) w rs w' \<and> length ps = length dn
           \<and> list_all2 (\<lambda>(t, op, d) (t', op', d'). t' = t \<and> op' = op \<and> d' < d) left left'
           \<and> rw_ring w' = (rw_ring w)\<lparr>rg_inflight := left', rg_completed := rg_completed (rw_ring w) @ zip ps (zip (map fst dn) rs)\<rparr>)"
    by (intro conjI exI [of _ dn] exI [of _ left] exI [of _ "[0..<length dn]"] exI [of _ rs] exI [of _ left']) (simp_all add: w')
qed

lemma rw_waker_law: "waker_law rw_clinux 3 rw_perform rw_files"
  by (simp add: waker_law_def rw_clinux_def writable_clinux_def)

lemma rw_start_law: "start_law rw_clinux rw_liburing 3 rw_ring rw_files rw_start"
  by (simp add: start_law_def rw_clinux_def writable_clinux_def rw_liburing_def rw_start_def)

lemma rw_submission_ok: "submission_ok rw_clinux rw_liburing 3 rw_files"
  by (simp add: submission_ok_def rw_clinux_def writable_clinux_def rw_liburing_def)

lemma rw_calls_keep: "calls_keep rw_clinux rw_ring"
  by (simp add: calls_keep_def rw_clinux_def writable_clinux_def)

section \<open>The laws of the calls\<close>

lemma rw_perform_io: "rw_perform (io_sqe op n iov off) w =
    (case demo_perform (io_sqe op n iov off) (rw_files w) of (res, d) \<Rightarrow> (res, w\<lparr>rw_files := d\<rparr>))"
  by (simp add: io_sqe_def split: io_operation.split)

lemma rw_ring_calls:
  "k_readv (ring_calls demo_sk rw_perform k) n iov w =
     (case k_readv (ring_calls demo_sk demo_perform failing_clinux) n iov (rw_files w) of (r, d) \<Rightarrow> (r, w\<lparr>rw_files := d\<rparr>))"
  "k_preadv2 (ring_calls demo_sk rw_perform k) n iov off 0 w =
     (case k_preadv2 (ring_calls demo_sk demo_perform failing_clinux) n iov off 0 (rw_files w) of (r, d) \<Rightarrow> (r, w\<lparr>rw_files := d\<rparr>))"
  by (simp_all add: ring_calls_def as_syscall_def rw_perform_io split: prod.split)

lemma rw_laws:
  "readv_law (ring_calls demo_sk rw_perform k) (\<lambda>w. dw_mem (rw_files w)) (\<lambda>n w. dw_in (rw_files w) n)"
  "preadv2_law (ring_calls demo_sk rw_perform k) (\<lambda>w. dw_mem (rw_files w)) (\<lambda>n w. dw_file (rw_files w) n)"
  using demo_ring_laws(1,2) [of failing_clinux]
  unfolding readv_law_def preadv2_law_def rw_ring_calls by (auto split: prod.splits; metis)+

lemma rw_blocking_laws:
  "readv_law rw_clinux (\<lambda>w. dw_mem (rw_files w)) (\<lambda>n w. dw_in (rw_files w) n)"
  "preadv2_law rw_clinux (\<lambda>w. dw_mem (rw_files w)) (\<lambda>n w. dw_file (rw_files w) n)"
proof -
  have calls: "k_readv rw_clinux n iov w = rw_lift (k_readv demo_clinux n iov) w"
    "k_preadv2 rw_clinux n iov off 0 w = rw_lift (k_preadv2 demo_clinux n iov off 0) w" for n iov off w
    by (simp_all add: rw_clinux_def)
  show "readv_law rw_clinux (\<lambda>w. dw_mem (rw_files w)) (\<lambda>n w. dw_in (rw_files w) n)"
    using demo_readv_law unfolding readv_law_def calls rw_lift_def by (auto split: prod.splits)
  show "preadv2_law rw_clinux (\<lambda>w. dw_mem (rw_files w)) (\<lambda>n w. dw_file (rw_files w) n)"
    using demo_preadv2_law unfolding preadv2_law_def calls rw_lift_def by (auto split: prod.splits)
qed

lemma rw_cqe_res_range: "cqe_res_range rw_perform"
  unfolding cqe_res_range_def
proof (intro allI)
  fix sqe w
  have "rw_perform sqe w = (1, w) \<or> fst (rw_perform sqe w) = fst (demo_perform sqe (rw_files w))"
    by (cases "(sqe, w)" rule: rw_perform.cases) (auto split: prod.split)
  then show "- (2 ^ 31) \<le> fst (rw_perform sqe w) \<and> fst (rw_perform sqe w) < 2 ^ 31"
    using demo_cqe_res_range unfolding cqe_res_range_def by (elim disjE) simp_all
qed

end
