(* ===== verification/Ark_Coro_Cat_Run.thy ===== *)
theory Ark_Coro_Cat_Run
  imports Ark_Coro_Cat Ark_Uring_Demo
begin

text \<open>
  The whole program \<open>examples/coro_cat.cpp\<close>: the loop is set up, the coroutines are started, the loop
  runs until the last of them has asked it to exit, and the result is taken from the future. The chain of
  operations comes from \<open>Ark_Coro_Cat\<close>, the loop from \<open>Ark_Loop\<close>.
\<close>

section \<open>From the loop to the result of run\<close>

lemma coro_cat_run_settled:
  assumes "context_init (p_clinux P) (p_liburing P) (context_create u) w = Inr (Inr (), c, w1)" "coro_cat_start P n paths (c, s, w1) = Inr (fut, st)"
    and "settles (p_clinux P) (p_liburing P) (co_run_closure P n) view (cat_done k fut frames contents) st"
  shows "\<exists>r s' w' left. coro_cat_run P n u paths s w = Some (Inr (r, s', w')) \<and> co_frames s' = frames \<and> contents = co_stdout s' @ left
    \<and> (case r of Inl ec \<Rightarrow> ec_category ec = System_category \<or> (\<exists>v. ec = errno_ec k v) | Inr u \<Rightarrow> left = [])"
proof -
  from assms(3) obtain c' s' w' c0 w0 where run: "context_run (p_clinux P) (p_liburing P) (co_run_closure P n) st = Some (Inr (Inr (), c', s', w'))"
    and "cat_done k fut frames contents (c0, s', w0)"
    unfolding settles_def by blast
  then obtain r left where r: "co_frames s' = frames" "co_futures s' fut = Some (Some r)" "contents = co_stdout s' @ left"
      "case r of Inl ec \<Rightarrow> ec_category ec = System_category \<or> (\<exists>v. ec = errno_ec k v) | Inr u \<Rightarrow> left = []"
    unfolding cat_done_def by auto
  then show ?thesis
    using assms(1,2) run by (intro exI [of _ r] exI [of _ s'] exI [of _ "context_destroy (p_liburing P) c' w'"] exI [of _ left])
      (simp add: coro_cat_run_def)
qed

lemma coro_cat_run_returns:
  fixes w :: 'w
  assumes "readv_law (ring_calls sk perform k) memory stream" and "preadv2_law (ring_calls sk perform k) memory file"
    and "cqe_res_range perform" and "gsl_subspan ss"
    and "submission_ok k lu ev view"
    and "\<And>v w. view v = view w \<Longrightarrow> io_view memory stream file v = io_view memory stream file w"
    and "\<And>v w. view v = view w \<Longrightarrow> dir v = dir w"
    and "\<And>n iov off v. dir (snd (perform (io_sqe Read_op n iov off) v)) = dir v"
    and "open_law k file dir" and "opens_files k sk" and "calls_keep k ring" and "new_law new room" and "objects s + 3 < room"
    and "P = cat_program ss k lu new memory ctx" and "7 \<le> n"
    and "submit_law lu ring view B" and "wait_law lu perform ring view" and "completion_law lu ring view" and "waker_law k ev perform view"
    and "start_law k lu ev ring view w" and "2 * B + 6 < 2 ^ 64"
  shows "\<exists>r s' w' left. coro_cat_run P n evfd paths s w = Some (Inr (r, s', w')) \<and> co_frames s' = co_frames s
    \<and> co_stdout s @ concat (map (\<lambda>path. dir w (c_str path)) paths) = co_stdout s' @ left
    \<and> (case r of Inl ec \<Rightarrow> ec_category ec = System_category \<or> (\<exists>v. ec = errno_ec k v) | Inr u \<Rightarrow> left = [])"
proof -
  let ?contents = "\<lambda>w. co_stdout s @ concat (map (\<lambda>path. dir w (c_str path)) paths)"
  obtain fut where fut: "\<And>c w fut' st'. coro_cat_start P n paths (c, s, w) = Inr (fut', st') \<Longrightarrow> fut' = fut"
    "\<And>c w. context_ready ev c \<Longrightarrow> runs_to k lu ev perform view ring (co_run_closure P n) (\<lambda>s s'. s' = s)
       (cat_done k fut (co_frames s) (?contents w)) (\<lambda>st. map_sum id snd (coro_cat_start P n paths st)) (c, s, w)"
    by (rule coro_cat_runs [where paths = paths, OF assms(1-15)]) (assumption, assumption, rule that)
  have chain: "runs_to k lu ev perform view ring (co_run_closure P n) (\<lambda>s s'. s' = s)
      (cat_done k fut (co_frames s) (?contents w)) (\<lambda>st. map_sum id snd (coro_cat_start P n paths st)) (c, s, w')"
    if "context_ready ev c" "view w' = view w" for c w'
    using fut(2) [OF that(1), of w'] assms(7) [OF that(2)] by simp
  obtain c w' st where run: "context_init k lu (context_create evfd) w = Inr (Inr (), c, w')"
      "map_sum id snd (coro_cat_start P n paths (c, s, w')) = Inr st"
      "settles k lu (co_run_closure P n) view (cat_done k fut (co_frames s) (?contents w)) st"
    by (rule loop_runs_program [OF assms(5,11,21,20,16-19) chain]) (assumption, assumption, simp add: cat_done_def, rule that)
  then obtain fut' where start: "coro_cat_start P n paths (c, s, w') = Inr (fut', st)"
    by (cases "coro_cat_start P n paths (c, s, w')") auto
  with fut(1) have start: "coro_cat_start P n paths (c, s, w') = Inr (fut, st)" by simp
  show ?thesis using coro_cat_run_settled [OF _ start, of evfd w] run(1,3) by (simp add: assms(14))
qed

text \<open>
  C13. \<open>run\<close> of coro_cat returns, and does what \<open>sync_cat\<close> does: on a ring that completes every operation
  after at most \<open>B\<close> more waits, in whatever order and whatever the reads return, the loop ends, and unless
  opening or reading a file failed the program has printed the contents of the files, one after the other, and returns
  success. After a failure it has printed a prefix of that and returns the error. No
  coroutine is left.
\<close>

theorem coro_cat_run_correct:
  fixes w :: 'w
  assumes "readv_law (ring_calls sk perform k) memory stream" and "preadv2_law (ring_calls sk perform k) memory file"
    and "cqe_res_range perform" and "gsl_subspan ss"
    and "submission_ok k lu ev view"
    and "\<And>v w. view v = view w \<Longrightarrow> io_view memory stream file v = io_view memory stream file w"
    and "\<And>v w. view v = view w \<Longrightarrow> dir v = dir w"
    and "\<And>n iov off v. dir (snd (perform (io_sqe Read_op n iov off) v)) = dir v"
    and "open_law k file dir" and "opens_files k sk" and "calls_keep k ring" and "new_law new room" and "objects s + 3 < room"
    and "P = cat_program ss k lu new memory ctx" and "7 \<le> n"
    and "submit_law lu ring view B" and "wait_law lu perform ring view" and "completion_law lu ring view" and "waker_law k ev perform view"
    and "start_law k lu ev ring view w" and "2 * B + 6 < 2 ^ 64"
  shows "\<exists>r s' w' left. coro_cat_run P n evfd paths s w = Some (Inr (r, s', w')) \<and> co_frames s' = co_frames s
    \<and> co_stdout s @ concat (map (\<lambda>path. dir w (c_str path)) paths) = co_stdout s' @ left
    \<and> (case r of Inl ec \<Rightarrow> ec_category ec = System_category \<or> (\<exists>v. ec = errno_ec k v) | Inr u \<Rightarrow> left = [])"
  by (rule coro_cat_run_returns [OF assms])

theorem coro_cat_run_correct_witness:
  "\<exists>r s' w' left. coro_cat_run (cat_program plain_subspan rw_clinux rw_liburing demo_new (\<lambda>w. dw_mem (rw_files w)) 0) 7 0 [''a'', ''b'']
       (empty_store :: (cat_body, unit result) co_store) rw_start = Some (Inr (r, s', w'))
    \<and> co_frames s' = co_frames (empty_store :: (cat_body, unit result) co_store)
    \<and> co_stdout (empty_store :: (cat_body, unit result) co_store) @ concat (map (\<lambda>path. dw_file (rw_files rw_start) 6) [''a'', ''b'']) = co_stdout s' @ left
    \<and> (case r of Inl ec \<Rightarrow> ec_category ec = System_category \<or> (\<exists>v. ec = errno_ec rw_clinux v) | Inr u \<Rightarrow> left = [])"
proof (rule coro_cat_run_correct [where dir = "\<lambda>w path. dw_file (rw_files w) 6" and sk = demo_sk and room = 8 and new = demo_new and ctx = 0,
      OF rw_laws rw_cqe_res_range gsl_subspan_plain rw_submission_ok _ _ _ _ _ rw_calls_keep demo_new_law _ refl _
        rw_submit_law rw_wait_law rw_completion_law rw_waker_law rw_start_law])
  show "open_law rw_clinux (\<lambda>n w. dw_file (rw_files w) n) (\<lambda>w path. dw_file (rw_files w) 6)"
    by (simp add: open_law_def rw_clinux_def)
  show "opens_files rw_clinux demo_sk" by (simp add: opens_files_def rw_clinux_def demo_sk_def)
  show "objects (empty_store :: (cat_body, unit result) co_store) + 3 < 8" by (simp add: objects_def empty_store_def)
  show "(\<lambda>path. dw_file (rw_files (snd (rw_perform (io_sqe Read_op n iov off) v))) 6) = (\<lambda>path. dw_file (rw_files v) 6)" for n iov off v
    by (simp add: rw_perform_io io_sqe_def demo_preadv2_def demo_readv_def demo_scatter_def Let_def case_prod_beta)
qed (simp_all add: io_view_def)

end
