(* ===== verification/Ark_Coro_Echo.thy ===== *)
theory Ark_Coro_Echo
  imports Ark_Coroutine_IO
begin

text \<open>
  \<open>examples/coro_echo_server.cpp\<close>: a server on the event loop, with a coroutine that accepts and
  one for each connection. The macro \<open>PRINT_ACCESS_LOG\<close> is defined, as in the source. The socket and
  the address that a coroutine takes by value live in its frame and are destroyed with it; a
  socket that was moved on is empty.
\<close>

section \<open>The coroutines\<close>

datatype echo_body =
    Handle_conn
  | Handle_conn_read
  | Handle_conn_write
  | Handle_conn_returned
  | Run_handle_conn
  | Run_handle_conn_await addr string
  | Run_handle_conn_awaited "unit result" string
  | Run_handle_conn_returned
  | Echo_srv
  | Echo_srv_next
  | Echo_srv_accept
  | Echo_srv_returned

type_synonym 'w echo_state = "(echo_body, unit result, 'w) co_state"

definition as_text :: "string \<Rightarrow> byte list" where
  "as_text str = map of_char str"

text \<open>\<open>handle_conn\<close>: \<open>co_await coro::read(s, buffer(buf), transfer_at_least(1))\<close>.\<close>

definition handle_conn_await ::
  "addr \<Rightarrow> 'w echo_state \<Rightarrow> (echo_body, unit result) action \<times> 'w echo_state"
where
  "handle_conn_await self st =
     (case st of (c, s, w) \<Rightarrow>
        (Await_op (coro_read (Fd_ref (file_at self)) (temp_at self) (transfer_at_least_t 1)) Handle_conn_read,
         c, s\<lparr>st_buffers := (st_buffers s)(temp_at self \<mapsto> Single (buffer_of_data (buf_1024 (array_at self))))\<rparr>, w))"

text \<open>After the read: leave the loop, or \<open>co_await coro::write(s, buffer(buf, sz))\<close>.\<close>

definition handle_conn_read ::
  "addr \<Rightarrow> completion \<Rightarrow> 'w echo_state \<Rightarrow> failure + (echo_body, unit result) action \<times> 'w echo_state"
where
  "handle_conn_read self r st =
     (case st of (c, s, w) \<Rightarrow>
      let s' = s\<lparr>st_buffers := (st_buffers s)(temp_at self := None)\<rparr> in
      case r of
        Size_result (Inl ec) \<Rightarrow> Inr (Return_value (Inl ec) [] Handle_conn_returned, c, s', w)
      | Size_result (Inr sz) \<Rightarrow>
          (if sz = 0 then Inr (Return_value (Inr ()) [] Handle_conn_returned, c, s', w)
           else Inr (Await_op (coro_write_all (Fd_ref (file_at self)) (temp_at self)) Handle_conn_write,
                  c, s\<lparr>st_buffers := (st_buffers s)(temp_at self \<mapsto> Single (buffer_of_data_n (buf_1024 (array_at self)) sz))\<rparr>, w))
      | _ \<Rightarrow> Inl No_value)"

definition handle_conn_written ::
  "addr \<Rightarrow> completion \<Rightarrow> 'w echo_state \<Rightarrow> failure + (echo_body, unit result) action \<times> 'w echo_state"
where
  "handle_conn_written self r st =
     (case st of (c, s, w) \<Rightarrow>
      let s' = s\<lparr>st_buffers := (st_buffers s)(temp_at self := None)\<rparr> in
      case r of
        Size_result (Inl ec) \<Rightarrow> Inr (Return_value (Inl ec) [] Handle_conn_returned, c, s', w)
      | Size_result (Inr sz) \<Rightarrow> Inr (handle_conn_await self (c, s', w))
      | _ \<Rightarrow> Inl No_value)"

text \<open>The call of a coroutine function that takes a socket, and one that takes an address too.\<close>

definition with_socket :: "addr \<Rightarrow> fd \<Rightarrow> addr \<times> (echo_body, unit result) co_store \<Rightarrow> addr \<times> (echo_body, unit result) co_store" where
  "with_socket from d ts =
     (case ts of (t, s) \<Rightarrow>
        (t, s\<lparr>st_fds := (st_fds s)(file_at t \<mapsto> fst (fd_move d), from \<mapsto> snd (fd_move d))\<rparr>))"

definition handle_conn_create ::
  "((echo_body, unit result) co_store \<Rightarrow> addr) \<Rightarrow> addr \<Rightarrow> fd \<Rightarrow> (echo_body, unit result) co_store \<Rightarrow> addr \<times> (echo_body, unit result) co_store"
where
  "handle_conn_create new from d s = with_socket from d (task_create new (Task_promise promise_create) Handle_conn s)"

definition run_handle_conn_create ::
  "((echo_body, unit result) co_store \<Rightarrow> addr) \<Rightarrow> addr \<Rightarrow> fd \<Rightarrow> address \<Rightarrow> (echo_body, unit result) co_store
   \<Rightarrow> addr \<times> (echo_body, unit result) co_store"
where
  "run_handle_conn_create new from d a s =
     (case with_socket from d (task_create new (Void_promise void_promise_create) Run_handle_conn s) of
        (t, s') \<Rightarrow> (t, s'\<lparr>st_addresses := (st_addresses s')(addr_at t \<mapsto> a)\<rparr>))"

text \<open>\<open>run_handle_conn\<close>: the log line, and the call of \<open>handle_conn\<close>, which is awaited.\<close>

definition run_handle_conn_start ::
  "inet_lib \<Rightarrow> ((echo_body, unit result) co_store \<Rightarrow> addr) \<Rightarrow> addr \<Rightarrow> 'w echo_state
   \<Rightarrow> failure + (echo_body, unit result) action \<times> 'w echo_state"
where
  "run_handle_conn_start lib new self st =
     (case st of (c, s, w) \<Rightarrow>
      case (st_addresses s (addr_at self), st_fds s (file_at self)) of
        (Some a, Some d) \<Rightarrow>
          (case address_to_string lib a of
             Inl e \<Rightarrow> Inl e
           | Inr addr_ret \<Rightarrow>
               (let addr_s = (case addr_ret of Inl ec \<Rightarrow> ''[invalid addr]'' | Inr str \<Rightarrow> str) in
                case handle_conn_create new (file_at self) d
                       (s\<lparr>co_stdout := co_stdout s @ as_text (''accepted connection from '' @ addr_s @ ''\<newline>'')\<rparr>) of
                  (t, s') \<Rightarrow> Inr (Await_task t (Run_handle_conn_await t addr_s), c, s', w)))
      | _ \<Rightarrow> Inl Dangling_reference)"

text \<open>After it: \<open>message\<close> gives the text of an error.\<close>

definition run_handle_conn_end ::
  "(error_code \<Rightarrow> string) \<Rightarrow> unit result \<Rightarrow> string \<Rightarrow> 'w echo_state \<Rightarrow> (echo_body, unit result) action \<times> 'w echo_state"
where
  "run_handle_conn_end message ret addr_s st =
     (case st of (c, s, w) \<Rightarrow>
      let s1 = (case ret of Inl ec \<Rightarrow> s\<lparr>co_stderr := co_stderr s @ as_text (message ec @ ''\<newline>'')\<rparr> | Inr u \<Rightarrow> s);
          s2 = s1\<lparr>co_stdout := co_stdout s1 @ as_text (''connection to '' @ addr_s @ '' ended\<newline>'')\<rparr>
      in (Return_void [] Run_handle_conn_returned, c, s2, w))"

text \<open>
  The loop of \<open>echo_srv\<close>: a new address, with the indeterminate bytes \<open>raw\<close>, and \<open>co_await
  tcp::coro::accept(ac, addr)\<close>; then the connection is left to its coroutine, and the moved-from
  socket and the address end their scope.
\<close>

definition echo_srv_await ::
  "byte list \<Rightarrow> addr \<Rightarrow> addr \<Rightarrow> 'w echo_state \<Rightarrow> (echo_body, unit result) action \<times> 'w echo_state"
where
  "echo_srv_await raw ac self st =
     (case st of (c, s, w) \<Rightarrow>
        (Await_op (coro_accept_address ac (addr_at self)) Echo_srv_accept,
         c, s\<lparr>st_addresses := (st_addresses s)(addr_at self \<mapsto> address_create raw)\<rparr>, w))"

definition echo_srv_accepted ::
  "((echo_body, unit result) co_store \<Rightarrow> addr) \<Rightarrow> addr \<Rightarrow> completion \<Rightarrow> 'w echo_state
   \<Rightarrow> failure + (echo_body, unit result) action \<times> 'w echo_state"
where
  "echo_srv_accepted new self r st =
     (case st of (c, s, w) \<Rightarrow>
      case r of
        Socket_result (Inl ec) \<Rightarrow> Inr (Return_value (Inl ec) [Address_at (addr_at self), Exit_guard] Echo_srv_returned, c, s, w)
      | Socket_result (Inr d) \<Rightarrow>
          (case st_addresses s (addr_at self) of
             None \<Rightarrow> Inl Dangling_reference
           | Some a \<Rightarrow>
               (case run_handle_conn_create new (file_at self) d a s of
                  (t, s') \<Rightarrow> Inr (Call_co_async t Echo_srv_next, c, s', w)))
      | _ \<Rightarrow> Inl No_value)"

definition echo_run_body ::
  "inet_lib \<Rightarrow> (error_code \<Rightarrow> string) \<Rightarrow> ((echo_body, unit result) co_store \<Rightarrow> addr) \<Rightarrow> byte list \<Rightarrow> addr \<Rightarrow> addr \<Rightarrow> echo_body
   \<Rightarrow> unit result awaited \<Rightarrow> 'w echo_state \<Rightarrow> failure + (echo_body, unit result) action \<times> 'w echo_state"
where
  "echo_run_body lib message new raw ac self b v st =
     (case (b, v) of
        (Handle_conn, _) \<Rightarrow> Inr (handle_conn_await self st)
      | (Handle_conn_read, Op_value r) \<Rightarrow> handle_conn_read self r st
      | (Handle_conn_write, Op_value r) \<Rightarrow> handle_conn_written self r st
      | (Run_handle_conn, _) \<Rightarrow> run_handle_conn_start lib new self st
      | (Run_handle_conn_await t addr_s, Task_value r) \<Rightarrow> Inr (Destroy [Task_at t] (Run_handle_conn_awaited r addr_s), st)
      | (Run_handle_conn_awaited r addr_s, _) \<Rightarrow> Inr (run_handle_conn_end message r addr_s st)
      | (Echo_srv, _) \<Rightarrow> Inr (echo_srv_await raw ac self st)
      | (Echo_srv_accept, Op_value r) \<Rightarrow> echo_srv_accepted new self r st
      | (Echo_srv_next, _) \<Rightarrow> Inr (Destroy [Fd_at (file_at self), Address_at (addr_at self)] Echo_srv, st)
      | _ \<Rightarrow> Inl No_value)"

fun echo_locals :: "addr \<Rightarrow> echo_body \<Rightarrow> owned list" where
  "echo_locals self Handle_conn_read = [Buffers_at (temp_at self)]"
| "echo_locals self Handle_conn_write = [Buffers_at (temp_at self)]"
| "echo_locals self (Run_handle_conn_await t addr_s) = [Task_at t]"
| "echo_locals self Echo_srv_next = [Fd_at (file_at self), Address_at (addr_at self), Exit_guard]"
| "echo_locals self Echo_srv_accept = [Address_at (addr_at self), Exit_guard]"
| "echo_locals self Echo_srv = [Exit_guard]"
| "echo_locals self _ = []"

fun echo_params :: "addr \<Rightarrow> echo_body \<Rightarrow> owned list" where
  "echo_params self Handle_conn = [Fd_at (file_at self)]"
| "echo_params self Handle_conn_read = [Fd_at (file_at self)]"
| "echo_params self Handle_conn_write = [Fd_at (file_at self)]"
| "echo_params self Handle_conn_returned = [Fd_at (file_at self)]"
| "echo_params self Run_handle_conn = [Address_at (addr_at self), Fd_at (file_at self)]"
| "echo_params self (Run_handle_conn_await t addr_s) = [Address_at (addr_at self), Fd_at (file_at self)]"
| "echo_params self (Run_handle_conn_awaited r addr_s) = [Address_at (addr_at self), Fd_at (file_at self)]"
| "echo_params self Run_handle_conn_returned = [Address_at (addr_at self), Fd_at (file_at self)]"
| "echo_params self _ = []"

definition echo_program ::
  "subspan_t \<Rightarrow> 'w clinux \<Rightarrow> 'w liburing \<Rightarrow> inet_lib \<Rightarrow> (error_code \<Rightarrow> string) \<Rightarrow> ((echo_body, unit result) co_store \<Rightarrow> addr)
   \<Rightarrow> byte list \<Rightarrow> addr \<Rightarrow> (echo_body, unit result, 'w) co_program"
where
  "echo_program ss k lu lib message new raw ac =
     \<lparr>p_subspan = ss, p_clinux = k, p_liburing = lu, p_new = new, p_dtor = (\<lambda>v w. w), p_void = Inr (),
      p_body = echo_run_body lib message new raw ac, p_locals = echo_locals, p_params = echo_params\<rparr>"

text \<open>
  \<open>run\<close>: the acceptor, an object at the address \<open>ac\<close>, listens on 127.0.0.1, port 8080; then
  \<open>co_async(echo_srv(ac))\<close>, the loop, and the future. What \<open>run\<close> returns comes with the store and the world;
  its objects are destroyed in the end.
\<close>

definition coro_echo_start ::
  "(echo_body, unit result, 'w) co_program \<Rightarrow> nat \<Rightarrow> 'w echo_state \<Rightarrow> failure + addr \<times> 'w echo_state"
where
  "coro_echo_start P n st =
     (case st of (c, s, w) \<Rightarrow>
      case task_create (p_new P) (Task_promise promise_create) Echo_srv s of
        (t, s') \<Rightarrow> co_async P (co_resume P n) t (c, s', w))"

definition coro_echo_listen ::
  "('w, 'z) net_clinux_scheme \<Rightarrow> inet_lib \<Rightarrow> byte list \<Rightarrow> nat \<Rightarrow> 'w \<Rightarrow> failure + fd result \<times> 'w"
where
  "coro_echo_listen k lib raw ctx w =
     (case inet_set_host lib ''127.0.0.1'' (family_create AF_INET raw) of
        (Inl ec, ep) \<Rightarrow> Inr (Inl ec, w)
      | (Inr u, ep0) \<Rightarrow>
          (let ep = inet_set_port 8080 ep0 in
           case acceptor_create k (Some ctx) False w of
             (Inl ec, w1) \<Rightarrow> Inr (Inl ec, w1)
           | (Inr ac, w1) \<Rightarrow>
               (case tcp_bind k ac (to_address ep) w1 of
                  Inl e \<Rightarrow> Inl e
                | Inr (Inl ec, w2) \<Rightarrow> Inr (Inl ec, fd_destroy k ac w2)
                | Inr (Inr u, w2) \<Rightarrow>
                    (case tcp_listen_default k ac w2 of
                       Inl e \<Rightarrow> Inl e
                     | Inr (Inl ec, w3) \<Rightarrow> Inr (Inl ec, fd_destroy k ac w3)
                     | Inr (Inr u, w3) \<Rightarrow> Inr (Inr ac, w3)))))"

definition coro_echo_run ::
  "('w, 'z) net_clinux_scheme \<Rightarrow> (echo_body, unit result, 'w) co_program \<Rightarrow> inet_lib \<Rightarrow> byte list \<Rightarrow> addr \<Rightarrow> nat \<Rightarrow> int
   \<Rightarrow> (echo_body, unit result) co_store \<Rightarrow> 'w \<Rightarrow> (failure + unit result \<times> (echo_body, unit result) co_store \<times> 'w) option"
where
  "coro_echo_run k P lib raw ac n evfd s w =
     (case context_init (p_clinux P) (p_liburing P) (context_create evfd) w of
        Inl e \<Rightarrow> Some (Inl e)
      | Inr (Inl ec, c, w1) \<Rightarrow> Some (Inr (Inl ec, s, context_destroy (p_liburing P) c w1))
      | Inr (Inr u, c, w1) \<Rightarrow>
          (case coro_echo_listen k lib raw 0 w1 of
             Inl e \<Rightarrow> Some (Inl e)
           | Inr (Inl ec, w2) \<Rightarrow> Some (Inr (Inl ec, s, context_destroy (p_liburing P) c w2))
           | Inr (Inr d, w2) \<Rightarrow>
               (case coro_echo_start P n (c, s\<lparr>st_fds := (st_fds s)(ac \<mapsto> d)\<rparr>, w2) of
                  Inl e \<Rightarrow> Some (Inl e)
                | Inr (fut, st) \<Rightarrow>
                    Option.bind (context_run (p_clinux P) (p_liburing P) (co_run_closure P n) st)
                      (\<lambda>r. case r of
                         Inl e \<Rightarrow> Some (Inl e)
                       | Inr (Inl ec, c', s', w') \<Rightarrow> Some (Inr (Inl ec, s', context_destroy (p_liburing P) c' (fd_destroy k d w')))
                       | Inr (Inr u, c', s', w') \<Rightarrow>
                           (case co_futures s' fut of
                              Some (Some v) \<Rightarrow> Some (Inr (v, s', context_destroy (p_liburing P) c' (fd_destroy k d w')))
                            | _ \<Rightarrow> None)))))"

section \<open>One connection\<close>

lemma echo_program_sel [simp]:
  "p_subspan (echo_program ss k lu lib message new raw ac) = ss" "p_clinux (echo_program ss k lu lib message new raw ac) = k"
  "p_liburing (echo_program ss k lu lib message new raw ac) = lu" "p_new (echo_program ss k lu lib message new raw ac) = new"
  "p_dtor (echo_program ss k lu lib message new raw ac) = (\<lambda>v w. w)" "p_void (echo_program ss k lu lib message new raw ac) = Inr ()"
  "p_body (echo_program ss k lu lib message new raw ac) = echo_run_body lib message new raw ac"
  "p_params (echo_program ss k lu lib message new raw ac) = echo_params"
  by (simp_all add: echo_program_def)

text \<open>
  The objects of a connection: \<open>hh\<close>, \<open>hr\<close> and \<open>hl\<close> are the coroutines \<open>handle_conn\<close>, \<open>run_handle_conn\<close> and that
  of \<open>co_async\<close>. \<open>conn_rest\<close> leaves out what changes while \<open>handle_conn\<close> runs. Others may do what
  they like with everything else.
\<close>

definition conn_rest where
  "conn_rest hl hr hh fut s =
     (co_frames s hl, co_frames s hr, st_fds s (file_at hh), st_fds s (file_at hr), st_addresses s (addr_at hr),
      co_futures s fut, co_stdout s, co_stderr s)"

definition conn_keeps :: "addr \<Rightarrow> addr \<Rightarrow> addr \<Rightarrow> addr \<Rightarrow> (echo_body, unit result) co_store \<Rightarrow> (echo_body, unit result) co_store \<Rightarrow> bool" where
  "conn_keeps hl hr hh fut s s' \<longleftrightarrow>
     conn_rest hl hr hh fut s' = conn_rest hl hr hh fut s
     \<and> co_frames s' hh = co_frames s hh \<and> st_buffers s' (temp_at hh) = st_buffers s (temp_at hh)"

definition conn_part where
  "conn_part hl hr hh fut s = (conn_rest hl hr hh fut s, co_frames s hh, st_buffers s (temp_at hh))"

lemma conn_keeps_part: "conn_keeps hl hr hh fut s s' \<longleftrightarrow> conn_part hl hr hh fut s' = conn_part hl hr hh fut s"
  by (auto simp: conn_keeps_def conn_part_def)

lemma conn_keeps_keeps: "conn_keeps hl hr hh fut s s' \<Longrightarrow> keeps (Fd_ref (file_at hh)) (temp_at hh) s s'"
  by (simp add: conn_keeps_def conn_rest_def keeps_def buffers_at_def)

lemma conn_rest_set [simp]:
  "hh \<noteq> hr \<Longrightarrow> hh \<noteq> hl \<Longrightarrow> conn_rest hl hr hh fut (set_frame hh fr s) = conn_rest hl hr hh fut s"
  "conn_rest hl hr hh fut (s\<lparr>st_buffers := b\<rparr>) = conn_rest hl hr hh fut s"
  by (simp_all add: conn_rest_def)

text \<open>The write of what was read, and what follows it.\<close>

lemma handle_conn_write_runs:
  fixes w :: 'w and s :: "(echo_body, unit result) co_store"
  assumes wr: "writev_law (ring_calls sk perform k) memory sink" "pwritev2_law (ring_calls sk perform k) memory file'"
      "write_progress (ring_calls sk perform k)" "cqe_res_range perform" "gsl_subspan ss"
    and ok: "submission_ok k lu ev view"
    and view: "\<And>v w. view v = view w \<Longrightarrow> io_view memory sink file' v = io_view memory sink file' w"
      "\<And>v w. view v = view w \<Longrightarrow> (\<lambda>m. stream m v) = (\<lambda>m. stream m w)"
    and duplex: "\<And>n iov off v. (\<lambda>m. stream m (snd (perform (io_sqe Write_op n iov off) v))) = (\<lambda>m. stream m v)"
    and P: "P = echo_program ss k lu lib message new raw ac"
    and d: "base_ptr d = Some b" "get_context d = Inr ctx" "\<not> sk (fildes b)" and h: "hh \<noteq> hr" "hh \<noteq> hl"
    and size: "unat sz \<le> 1024" "sz \<noteq> 0"
    and st: "context_ready ev c" "st_fds s (file_at hh) = Some d"
    and rest: "\<And>out c2 s2 w2 fr2. \<lbrakk>context_ready ev c2; fr_promise fr2 = fr_promise fr; conn_rest hl hr hh fut s2 = conn_rest hl hr hh fut s; stream (fildes b) w2 = stream (fildes b) w;
        case out of Inl e \<Rightarrow> is_error e \<and> ec_category e = System_category
        | Inr n \<Rightarrow> sink (fildes b) w2 = sink (fildes b) w @ map (memory w) (addr_range (array_at hh) (unat sz))\<rbrakk>
      \<Longrightarrow> runs_to k lu ev perform view ring (co_run_closure P (Suc n)) (conn_keeps hl hr hh fut) Q
        (\<lambda>st. case handle_conn_written hh (Size_result out) st of Inl e \<Rightarrow> Inl e | Inr (act, st) \<Rightarrow>
           co_act P n (co_resume P n) hh fr2 (action_of act) st) (c2, s2, w2)"
  shows "runs_to k lu ev perform view ring (co_run_closure P (Suc n)) (conn_keeps hl hr hh fut) Q
    (co_act P m resume hh fr (Await_op (coro_write_all (Fd_ref (file_at hh)) (temp_at hh)) (User_body Handle_conn_write)))
    (c, s\<lparr>st_buffers := (st_buffers s)(temp_at hh \<mapsto> Single (buffer_of_data_n (buf_1024 (array_at hh)) sz))\<rparr>, w)"
proof -
  let ?aw = "coro_write_all (Fd_ref (file_at hh)) (temp_at hh)" and ?fin = "resume_callback (co_resume P (Suc n))"
  let ?fr = "fr\<lparr>fr_body := User_body Handle_conn_write, fr_at := At_op ?aw, fr_awaits := Suc (fr_awaits fr)\<rparr>"
  let ?B = "Single (buffer_of_data_n (buf_1024 (array_at hh)) sz)" and ?cb = "Resume_op hh (Suc (fr_awaits fr))"
  let ?s1 = "set_frame hh ?fr (s\<lparr>st_buffers := (st_buffers s)(temp_at hh \<mapsto> ?B)\<rparr>)"
  let ?part = "conn_part hl hr hh fut :: (echo_body, unit result) co_store \<Rightarrow> _"
  let ?runs = "runs_to k lu ev perform view ring (run_closure ss k lu ?fin) (conn_keeps hl hr hh fut) Q"
  have call: "co_run_closure P (Suc n) = run_closure ss k lu ?fin" by (simp add: co_run_closure_def P)
  have "?runs (async_write ss k lu (resume_callback resume) (Fd_ref (file_at hh)) (temp_at hh) transfer_all_t ?cb) (c, ?s1, w)"
  proof (rule async_write_1024_runs_to [where part = ?part and ext = "\<lambda>w m. stream m w" and f = "Nonseekable d" and buf = "array_at hh",
        OF wr ok view duplex _ _ _ size st(1)])
    fix out :: "size_t result" and f2 and c2 :: "co_callback closure uring_context" and s2 w2
    assume res: "context_ready ev c2" "?part s2 = ?part ?s1" "(\<lambda>m. stream m w2) = (\<lambda>m. stream m w)"
      "case out of Inl e \<Rightarrow> is_error e \<and> ec_category e = System_category
        | Inr n \<Rightarrow> written sink file' (Nonseekable d) w (map (memory w) (addr_range (array_at hh) (unat sz))) f2 w2"
    have s2: "conn_rest hl hr hh fut s2 = conn_rest hl hr hh fut s" "co_frames s2 hh = Some ?fr" using res(2) h by (simp_all add: conn_part_def)
    have "?runs (\<lambda>st. case handle_conn_written hh (Size_result out) st of Inl e \<Rightarrow> Inl e | Inr (act, st) \<Rightarrow>
           co_act P n (co_resume P n) hh (?fr\<lparr>fr_at := Running\<rparr>) (action_of act) st) (c2, set_frame hh (?fr\<lparr>fr_at := Running\<rparr>) s2, w2)"
      unfolding call [symmetric]
      by (rule rest [OF res(1)]) (use s2(1) h res(3,4) d(1) in \<open>auto simp: written_def fun_eq_iff split: sum.splits\<close>)
    then show "?runs (?fin ?cb (Size_result out)) (c2, s2, w2)"
      by (rule runs_to_cong) (subst resume_callback_step [OF s2(2)], simp_all add: P body_run_def echo_run_body_def split: sum.splits prod.splits)
  qed (use st(2) d in \<open>auto simp: keeps_def buffers_at_def conn_keeps_part conn_part_def conn_rest_def kind_fits_def\<close>)
  then show ?thesis
    unfolding call
    by (rule runs_to_cong) (simp add: P co_act_def coro_write_all_def awaitable_create_def op_await_ready_def awaitable_invoke_def Let_def)
qed

text \<open>The read, and what follows it.\<close>

lemma handle_conn_read_runs:
  fixes w :: 'w and s :: "(echo_body, unit result) co_store"
  assumes rd: "readv_law (ring_calls sk perform k) memory stream" "preadv2_law (ring_calls sk perform k) memory file"
      "cqe_res_range perform" "gsl_subspan ss"
    and ok: "submission_ok k lu ev view"
    and view: "\<And>v w. view v = view w \<Longrightarrow> io_view memory stream file v = io_view memory stream file w"
      "\<And>v w. view v = view w \<Longrightarrow> (\<lambda>m. sink m v) = (\<lambda>m. sink m w)"
    and duplex: "\<And>n iov off v. (\<lambda>m. sink m (snd (perform (io_sqe Read_op n iov off) v))) = (\<lambda>m. sink m v)"
    and P: "P = echo_program ss k lu lib message new raw ac"
    and d: "base_ptr d = Some b" "get_context d = Inr ctx" "\<not> sk (fildes b)" and h: "hh \<noteq> hr" "hh \<noteq> hl"
    and st: "context_ready ev c" "st_fds s (file_at hh) = Some d"
    and rest: "\<And>out c2 s2 w2 fr2. \<lbrakk>context_ready ev c2; fr_promise fr2 = fr_promise fr; conn_rest hl hr hh fut s2 = conn_rest hl hr hh fut s;
        sink (fildes b) w2 = sink (fildes b) w;
        case out of Inl e \<Rightarrow> is_error e \<and> ec_category e = System_category
        | Inr sz \<Rightarrow> unat sz \<le> 1024 \<and> unat sz \<le> length (stream (fildes b) w) \<and> (sz = 0 \<longrightarrow> stream (fildes b) w = [])
            \<and> stream (fildes b) w2 = drop (unat sz) (stream (fildes b) w)
            \<and> map (memory w2) (addr_range (array_at hh) (unat sz)) = take (unat sz) (stream (fildes b) w)\<rbrakk>
      \<Longrightarrow> runs_to k lu ev perform view ring (co_run_closure P (Suc n)) (conn_keeps hl hr hh fut) Q
        (\<lambda>st. case handle_conn_read hh (Size_result out) st of Inl e \<Rightarrow> Inl e | Inr (act, st) \<Rightarrow>
           co_act P n (co_resume P n) hh fr2 (action_of act) st) (c2, s2, w2)"
  shows "runs_to k lu ev perform view ring (co_run_closure P (Suc n)) (conn_keeps hl hr hh fut) Q
    (\<lambda>st. case handle_conn_await hh st of (act, st') \<Rightarrow> co_act P m resume hh fr (action_of act) st') (c, s, w)"
proof -
  let ?aw = "coro_read (Fd_ref (file_at hh)) (temp_at hh) (transfer_at_least_t 1)" and ?fin = "resume_callback (co_resume P (Suc n))"
  let ?fr = "fr\<lparr>fr_body := User_body Handle_conn_read, fr_at := At_op ?aw, fr_awaits := Suc (fr_awaits fr)\<rparr>"
  let ?B = "Single (buffer_of_data (buf_1024 (array_at hh)))" and ?cb = "Resume_op hh (Suc (fr_awaits fr))"
  let ?s1 = "set_frame hh ?fr (s\<lparr>st_buffers := (st_buffers s)(temp_at hh \<mapsto> ?B)\<rparr>)"
  let ?part = "conn_part hl hr hh fut :: (echo_body, unit result) co_store \<Rightarrow> _"
  let ?runs = "runs_to k lu ev perform view ring (run_closure ss k lu ?fin) (conn_keeps hl hr hh fut) Q"
  have call: "co_run_closure P (Suc n) = run_closure ss k lu ?fin" by (simp add: co_run_closure_def P)
  have "?runs (async_read ss k lu (resume_callback resume) (Fd_ref (file_at hh)) (temp_at hh) (transfer_at_least_t 1) ?cb) (c, ?s1, w)"
  proof (rule async_read_1024_runs_to [where part = ?part and ext = "\<lambda>w n. sink n w" and f = "Nonseekable d" and buf = "array_at hh",
        OF rd ok view duplex _ _ _ st(1)])
    fix out :: "size_t result" and f2 and c2 :: "co_callback closure uring_context" and s2 w2
    assume res: "context_ready ev c2" "fd_at s2 (Fd_ref (file_at hh)) = Inr f2" "?part s2 = ?part ?s1" "(\<lambda>n. sink n w2) = (\<lambda>n. sink n w)"
      "read_1024_post memory (pending stream file) (array_at hh) (Nonseekable d) w out f2 w2"
    have s2: "conn_rest hl hr hh fut s2 = conn_rest hl hr hh fut s" "co_frames s2 hh = Some ?fr" using res(3) h by (simp_all add: conn_part_def)
    then have f2: "f2 = Nonseekable d" using res(2) st(2) by (auto simp: conn_rest_def)
    have "?runs (\<lambda>st. case handle_conn_read hh (Size_result out) st of Inl e \<Rightarrow> Inl e | Inr (act, st) \<Rightarrow>
           co_act P n (co_resume P n) hh (?fr\<lparr>fr_at := Running\<rparr>) (action_of act) st) (c2, set_frame hh (?fr\<lparr>fr_at := Running\<rparr>) s2, w2)"
      unfolding call [symmetric]
      by (rule rest [OF res(1)]) (use s2(1) h fun_cong [OF res(4)] res(5) d(1) in \<open>auto simp: f2 read_1024_post_def pending_def split: sum.splits\<close>)
    then show "?runs (?fin ?cb (Size_result out)) (c2, s2, w2)"
      by (rule runs_to_cong) (subst resume_callback_step [OF s2(2)], simp_all add: P body_run_def echo_run_body_def split: sum.splits prod.splits)
  qed (use st(2) d in \<open>auto simp: keeps_def buffers_at_def conn_keeps_part conn_part_def conn_rest_def kind_fits_def\<close>)
  then show ?thesis
    unfolding call
    by (rule runs_to_cong) (simp add: P handle_conn_await_def co_act_def coro_read_def awaitable_create_def op_await_ready_def
        awaitable_invoke_def Let_def)
qed

text \<open>After the write: the loop goes on, or the coroutine returns the error.\<close>

lemma handle_conn_written_runs:
  assumes "fr_promise fr = Task_promise (promise_create\<lparr>pr_continuation := Some hr\<rparr>)" and s': "s' = s\<lparr>st_buffers := (st_buffers s)(temp_at hh := None)\<rparr>"
    and returned: "\<And>e fr'. out = Inl e \<Longrightarrow> returned_frame hr (Inl e) (User_body Handle_conn_returned) fr'
      \<Longrightarrow> runs_to k lu ev perform view ring call R Q (co_resume P n hr) (c, set_frame hh fr' s', w)"
    and again: "\<And>m. out = Inr m \<Longrightarrow> runs_to k lu ev perform view ring call R Q
        (\<lambda>st. case handle_conn_await hh st of (act, st') \<Rightarrow> co_act P n (co_resume P n) hh fr (action_of act) st') (c, s', w)"
  shows "runs_to k lu ev perform view ring call R Q
    (\<lambda>st. case handle_conn_written hh (Size_result out) st of Inl e \<Rightarrow> Inl e | Inr (act, st) \<Rightarrow>
       co_act P n (co_resume P n) hh fr (action_of act) st) (c, s, w)"
proof (cases out)
  case (Inl e)
  show ?thesis
    by (rule runs_to_cong [OF task_returns_runs [OF assms(1) returned [OF Inl]]]) (simp_all add: Inl handle_conn_written_def s')
next
  case (Inr m)
  show ?thesis by (rule runs_to_cong [OF again [OF Inr]]) (simp add: Inr handle_conn_written_def s' split: prod.splits)
qed

text \<open>After a read of \<open>sz\<close> bytes these are sent back, and the loop goes on or the coroutine returns the error.\<close>

lemma handle_conn_echo_runs:
  fixes w :: 'w and s :: "(echo_body, unit result) co_store"
  assumes wr: "writev_law (ring_calls sk perform k) memory sink" "pwritev2_law (ring_calls sk perform k) memory file'"
      "write_progress (ring_calls sk perform k)"
    and laws: "cqe_res_range perform" "gsl_subspan ss"
    and ok: "submission_ok k lu ev view"
    and view: "\<And>v w. view v = view w \<Longrightarrow> io_view memory sink file' v = io_view memory sink file' w"
      "\<And>v w. view v = view w \<Longrightarrow> (\<lambda>m. stream m v) = (\<lambda>m. stream m w)"
    and duplex: "\<And>n iov off v. (\<lambda>m. stream m (snd (perform (io_sqe Write_op n iov off) v))) = (\<lambda>m. stream m v)"
    and P: "P = echo_program ss k lu lib message new raw ac"
    and d: "base_ptr d = Some b" "get_context d = Inr ctx" "\<not> sk (fildes b)" and h: "hh \<noteq> hr" "hh \<noteq> hl"
    and sz: "unat sz \<le> 1024" "sz \<noteq> 0"
    and st: "context_ready ev c" "st_fds s (file_at hh) = Some d" "conn_rest hl hr hh fut s = X"
      "fr_promise fr = Task_promise (promise_create\<lparr>pr_continuation := Some hr\<rparr>)"
    and fails: "\<And>e c2 s2 w2 fr'. \<lbrakk>context_ready ev c2; conn_rest hl hr hh fut s2 = X; co_frames s2 hh = Some fr';
        returned_frame hr (Inl e) (User_body Handle_conn_returned) fr'; is_error e; ec_category e = System_category\<rbrakk>
      \<Longrightarrow> runs_to k lu ev perform view ring (co_run_closure P (Suc n)) (conn_keeps hl hr hh fut) Q (co_resume P n hr) (c2, s2, w2)"
    and again: "\<And>c2 s2 w2 fr2. \<lbrakk>context_ready ev c2; conn_rest hl hr hh fut s2 = X; st_fds s2 (file_at hh) = Some d;
        fr_promise fr2 = Task_promise (promise_create\<lparr>pr_continuation := Some hr\<rparr>); stream (fildes b) w2 = stream (fildes b) w;
        sink (fildes b) w2 = sink (fildes b) w @ map (memory w) (addr_range (array_at hh) (unat sz))\<rbrakk>
      \<Longrightarrow> runs_to k lu ev perform view ring (co_run_closure P (Suc n)) (conn_keeps hl hr hh fut) Q
            (\<lambda>st. case handle_conn_await hh st of (act, st') \<Rightarrow> co_act P n (co_resume P n) hh fr2 (action_of act) st') (c2, s2, w2)"
  shows "runs_to k lu ev perform view ring (co_run_closure P (Suc n)) (conn_keeps hl hr hh fut) Q
    (\<lambda>st. case handle_conn_read hh (Size_result (Inr sz)) st of Inl e \<Rightarrow> Inl e | Inr (act, st) \<Rightarrow>
       co_act P n (co_resume P n) hh fr (action_of act) st) (c, s, w)"
proof -
  let ?runs = "runs_to k lu ev perform view ring (co_run_closure P (Suc n)) (conn_keeps hl hr hh fut) Q" and ?x = "fildes b"
  have "?runs (co_act P n (co_resume P n) hh fr (Await_op (coro_write_all (Fd_ref (file_at hh)) (temp_at hh)) (User_body Handle_conn_write)))
      (c, s\<lparr>st_buffers := (st_buffers s)(temp_at hh \<mapsto> Single (buffer_of_data_n (buf_1024 (array_at hh)) sz))\<rparr>, w)"
  proof (rule handle_conn_write_runs [where stream = stream, OF wr laws ok view duplex P d h sz st(1,2)])
    fix out :: "size_t result" and c3 :: "co_callback closure uring_context" and s3 :: "(echo_body, unit result) co_store" and w3
      and fr3 :: "(echo_body, unit result) frame"
    assume res: "context_ready ev c3" "fr_promise fr3 = fr_promise fr" "conn_rest hl hr hh fut s3 = conn_rest hl hr hh fut s"
      "stream ?x w3 = stream ?x w"
      "case out of Inl e \<Rightarrow> is_error e \<and> ec_category e = System_category
       | Inr n \<Rightarrow> sink ?x w3 = sink ?x w @ map (memory w) (addr_range (array_at hh) (unat sz))"
    let ?s3 = "s3\<lparr>st_buffers := (st_buffers s3)(temp_at hh := None)\<rparr>"
    have s3: "conn_rest hl hr hh fut ?s3 = X" "st_fds ?s3 (file_at hh) = Some d"
      using res(3) st(3) by simp (use res(3) st(2) in \<open>auto simp: conn_rest_def\<close>)
    show "?runs (\<lambda>st. case handle_conn_written hh (Size_result out) st of Inl e \<Rightarrow> Inl e | Inr (act, st) \<Rightarrow>
         co_act P n (co_resume P n) hh fr3 (action_of act) st) (c3, s3, w3)"
    proof (rule handle_conn_written_runs [OF _ refl])
      show promise: "fr_promise fr3 = Task_promise (promise_create\<lparr>pr_continuation := Some hr\<rparr>)" using res(2) st(4) by simp
      show "?runs (co_resume P n hr) (c3, set_frame hh fr' ?s3, w3)"
        if "out = Inl e" "returned_frame hr (Inl e) (User_body Handle_conn_returned) fr'" for e fr'
        by (rule fails [OF res(1) _ _ that(2)]) (use s3(1) res(5) that(1) h in simp_all)
      show "?runs (\<lambda>st. case handle_conn_await hh st of (act, st') \<Rightarrow> co_act P n (co_resume P n) hh fr3 (action_of act) st')
          (c3, ?s3, w3)" if "out = Inr m" for m
        by (rule again [OF res(1) s3 promise res(4)]) (use res(5) that in simp)
    qed
  qed
  then show ?thesis by (rule runs_to_cong) (simp add: sz handle_conn_read_def)
qed

lemma handle_conn_runs:
  fixes w :: 'w and s :: "(echo_body, unit result) co_store"
  assumes rd: "readv_law (ring_calls sk perform k) memory stream" "preadv2_law (ring_calls sk perform k) memory file"
    and wr: "writev_law (ring_calls sk perform k) memory sink" "pwritev2_law (ring_calls sk perform k) memory file'"
      "write_progress (ring_calls sk perform k)"
    and laws: "cqe_res_range perform" "gsl_subspan ss"
    and ok: "submission_ok k lu ev view"
    and view: "\<And>v w. view v = view w \<Longrightarrow> io_view memory stream file v = io_view memory stream file w"
      "\<And>v w. view v = view w \<Longrightarrow> io_view memory sink file' v = io_view memory sink file' w"
    and duplex: "\<And>n iov off v. (\<lambda>m. sink m (snd (perform (io_sqe Read_op n iov off) v))) = (\<lambda>m. sink m v)"
      "\<And>n iov off v. (\<lambda>m. stream m (snd (perform (io_sqe Write_op n iov off) v))) = (\<lambda>m. stream m v)"
    and P: "P = echo_program ss k lu lib message new raw ac"
    and d: "base_ptr d = Some b" "get_context d = Inr ctx" "\<not> sk (fildes b)" and h: "hh \<noteq> hr" "hh \<noteq> hl"
    and rest: "\<And>r c2 s2 w2 fr. \<lbrakk>context_ready ev c2; conn_rest hl hr hh fut s2 = X; co_frames s2 hh = Some fr;
        returned_frame hr r (User_body Handle_conn_returned) fr;
        case r of Inl e \<Rightarrow> is_error e \<and> ec_category e = System_category
        | Inr u \<Rightarrow> stream (fildes b) w2 = [] \<and> sink (fildes b) w2 = sink0 @ stream0\<rbrakk>
      \<Longrightarrow> runs_to k lu ev perform view ring (co_run_closure P (Suc n)) (conn_keeps hl hr hh fut) Q (co_resume P n hr) (c2, s2, w2)"
    and "context_ready ev c" "conn_rest hl hr hh fut s = X" "st_fds s (file_at hh) = Some d"
      "fr_promise fr = Task_promise (promise_create\<lparr>pr_continuation := Some hr\<rparr>)"
      "sink (fildes b) w @ stream (fildes b) w = sink0 @ stream0"
  shows "runs_to k lu ev perform view ring (co_run_closure P (Suc n)) (conn_keeps hl hr hh fut) Q
    (\<lambda>st. case handle_conn_await hh st of (act, st') \<Rightarrow> co_act P m resume hh fr (action_of act) st') (c, s, w)"
  using assms(20-)
proof (induction "length (stream (fildes b) w)" arbitrary: c s w fr m resume rule: less_induct)
  case less
  let ?runs = "runs_to k lu ev perform view ring (co_run_closure P (Suc n)) (conn_keeps hl hr hh fut) Q" and ?x = "fildes b"
  have views: "(\<lambda>m. sink m v) = (\<lambda>m. sink m v')" "(\<lambda>m. stream m v) = (\<lambda>m. stream m v')" if "view v = view v'" for v v'
    using view [OF that] by (simp_all add: io_view_def)
  have ret: "?runs (co_act P n (co_resume P n) hh fr3 (Return_value r [] (User_body Handle_conn_returned))) (c3, s3, w3)"
    if returned: "context_ready ev c3" "conn_rest hl hr hh fut s3 = X" "fr_promise fr3 = fr_promise fr"
      "case r of Inl e \<Rightarrow> is_error e \<and> ec_category e = System_category
       | Inr u \<Rightarrow> stream ?x w3 = [] \<and> sink ?x w3 = sink0 @ stream0" for r fr3 c3 s3 w3
    by (rule task_returns_runs, rule trans [OF returned(3) less.prems(4)], rule rest [OF returned(1) _ _ _ returned(4)])
      (use returned(2) h in simp_all)
  show ?case
  proof (rule handle_conn_read_runs [where sink = sink, OF rd laws ok view(1) views(1) duplex(1) P d h less.prems(1,3)])
    fix out :: "size_t result" and c2 :: "co_callback closure uring_context" and s2 :: "(echo_body, unit result) co_store" and w2
      and fr2 :: "(echo_body, unit result) frame"
    assume res: "context_ready ev c2" "fr_promise fr2 = fr_promise fr" "conn_rest hl hr hh fut s2 = conn_rest hl hr hh fut s"
      "sink ?x w2 = sink ?x w"
      and post: "case out of Inl e \<Rightarrow> is_error e \<and> ec_category e = System_category
        | Inr sz \<Rightarrow> unat sz \<le> 1024 \<and> unat sz \<le> length (stream ?x w) \<and> (sz = 0 \<longrightarrow> stream ?x w = [])
            \<and> stream ?x w2 = drop (unat sz) (stream ?x w)
            \<and> map (memory w2) (addr_range (array_at hh) (unat sz)) = take (unat sz) (stream ?x w)"
    have s2: "conn_rest hl hr hh fut s2 = X" "st_fds s2 (file_at hh) = Some d"
      using res(3) less.prems(2,3) by simp (use res(3) less.prems(3) in \<open>auto simp: conn_rest_def\<close>)
    consider (ends) r :: "unit result" where "out = (case r of Inl e \<Rightarrow> Inl e | Inr u \<Rightarrow> Inr 0)" | (data) sz where "out = Inr sz" "sz \<noteq> 0"
      by (cases out) (metis old.sum.simps(5), metis old.sum.simps(6))
    then show "?runs (\<lambda>st. case handle_conn_read hh (Size_result out) st of Inl e \<Rightarrow> Inl e | Inr (act, st) \<Rightarrow>
        co_act P n (co_resume P n) hh fr2 (action_of act) st) (c2, s2, w2)"
    proof cases
      case (ends r)
      show ?thesis
        by (rule runs_to_cong [OF ret [where r = r and ?fr3.0 = fr2 and ?s3.0 = "s2\<lparr>st_buffers := (st_buffers s2)(temp_at hh := None)\<rparr>" and ?w3.0 = w2, OF res(1) _ res(2)]])
          (use post res(4) s2(1) less.prems(5) in \<open>auto simp: ends handle_conn_read_def split: sum.splits\<close>)
    next
      case (data sz)
      note post = post [unfolded data(1) sum.case]
      have shorter: "length (stream ?x w2) < length (stream ?x w)" using post data(2) by (auto simp: unat_gt_0 intro!: diff_less)
      show ?thesis
        unfolding data(1)
      proof (rule handle_conn_echo_runs [where stream = stream and X = X, OF wr laws ok view(2) views(2) duplex(2) P d h _ data(2) res(1) s2(2,1)])
        show "?runs (\<lambda>st. case handle_conn_await hh st of (act, st') \<Rightarrow> co_act P n (co_resume P n) hh fr3 (action_of act) st') (c3, s3, w3)"
          if "context_ready ev c3" "conn_rest hl hr hh fut s3 = X" "st_fds s3 (file_at hh) = Some d"
            "fr_promise fr3 = Task_promise (promise_create\<lparr>pr_continuation := Some hr\<rparr>)" "stream ?x w3 = stream ?x w2"
            "sink ?x w3 = sink ?x w2 @ map (memory w2) (addr_range (array_at hh) (unat sz))" for c3 s3 w3 fr3
          by (rule less.hyps) (use that shorter res(4) post less.prems(5) in simp_all)
        show "?runs (co_resume P n hr) (c3, s3, w3)"
          if "context_ready ev c3" "conn_rest hl hr hh fut s3 = X" "co_frames s3 hh = Some fr'"
            "returned_frame hr (Inl e) (User_body Handle_conn_returned) fr'" "is_error e" "ec_category e = System_category" for e c3 s3 w3 fr'
          by (rule rest [OF that(1-4)]) (use that(5,6) in simp)
      qed (use post res(2) less.prems(4) in simp_all)
    qed
  qed
qed

text \<open>
  The end of a connection: \<open>run_handle_conn\<close> destroys the task, which closes the socket, and reports; then
  the future gets its value and the other two coroutines go.
\<close>

definition error_text :: "(error_code \<Rightarrow> string) \<Rightarrow> unit result \<Rightarrow> byte list" where
  "error_text message r = (case r of Inl ec \<Rightarrow> as_text (message ec @ ''\<newline>'') | Inr u \<Rightarrow> [])"

definition conn_log :: "string \<Rightarrow> byte list" where
  "conn_log addr_s = as_text (''connection to '' @ addr_s @ '' ended\<newline>'')"

definition conn_frames ::
  "addr \<Rightarrow> addr \<Rightarrow> addr \<Rightarrow> addr \<Rightarrow> string \<Rightarrow> (echo_body, unit result) co_store \<Rightarrow> bool"
where
  "conn_frames hl hr hh fut addr_s s \<longleftrightarrow>
     (\<exists>m. co_frames s hl = Some \<lparr>fr_promise = Fire_and_forget, fr_body = Co_async_await fut hr, fr_at = At_task hr, fr_awaits = m\<rparr>)
     \<and> (\<exists>m. co_frames s hr = Some \<lparr>fr_promise = Void_promise (void_promise_create\<lparr>vp_continuation := Some hl\<rparr>),
              fr_body = User_body (Run_handle_conn_await hh addr_s), fr_at = At_task hh, fr_awaits = m\<rparr>)"

lemma run_handle_conn_resumed:
  assumes "conn_frames hl hr hh fut addr_s s" "co_frames s hh = Some tf" "returned_frame hr r (User_body Handle_conn_returned) tf"
    and "st_fds s (file_at hh) = Some d" "distinct [hl, hr, hh]"
    and P: "P = echo_program ss k lu lib message new raw ac"
  obtains s' where "co_resume P (Suc (Suc n)) hr (c, s, w) = co_resume P (Suc n) hr (c, s', fd_destroy k d w)"
    "\<exists>m. co_frames s' = (co_frames s)(hh := None, hr \<mapsto> \<lparr>fr_promise = Void_promise (void_promise_create\<lparr>vp_continuation := Some hl\<rparr>),
       fr_body = User_body (Run_handle_conn_awaited r addr_s), fr_at = Going_on, fr_awaits = m\<rparr>)"
    "st_fds s' = (st_fds s)(file_at hh := None)" "st_addresses s' = st_addresses s"
    "co_futures s' = co_futures s" "co_stdout s' = co_stdout s" "co_stderr s' = co_stderr s"
proof -
  obtain m where fr: "co_frames s hr = Some \<lparr>fr_promise = Void_promise (void_promise_create\<lparr>vp_continuation := Some hl\<rparr>),
      fr_body = User_body (Run_handle_conn_await hh addr_s), fr_at = At_task hh, fr_awaits = m\<rparr>"
    using assms(1) unfolding conn_frames_def by blast
  obtain mt where tf: "tf = \<lparr>fr_promise = Task_promise \<lparr>pr_continuation = Some hr, pr_state = State_value, pr_value = Object r\<rparr>,
      fr_body = User_body Handle_conn_returned, fr_at = At_final, fr_awaits = mt\<rparr>"
    using assms(3) by (cases tf) (auto simp: returned_frame_def)
  let ?s = "s\<lparr>st_fds := (st_fds s)(file_at hh := None), co_frames := (co_frames s)(hh := None, hr \<mapsto>
      \<lparr>fr_promise = Void_promise (void_promise_create\<lparr>vp_continuation := Some hl\<rparr>),
       fr_body = User_body (Run_handle_conn_awaited r addr_s), fr_at = Going_on, fr_awaits = m\<rparr>)\<rparr>"
  have "co_resume P (Suc (Suc n)) hr (c, s, w) = co_resume P (Suc n) hr (c, ?s, fd_destroy k d w)"
    using assms(2,4,5) fr unfolding P tf
    by (subst co_resume.simps) (auto simp: co_destroy.simps(2) co_step_def frame_await_resume_def task_await_resume_def promise_get_def lifetime_get_def
        body_run_def echo_run_body_def co_act_def destroy_owned_def destroy_frame_def frame_promise_destroy_def promise_destroy_def
        promise_clear_def lifetime_destruct_def body_params_def Let_def set_frame_def fun_upd_twist)
  then show ?thesis by (rule that) auto
qed

lemma run_handle_conn_returns:
  assumes "co_frames s hl = Some \<lparr>fr_promise = Fire_and_forget, fr_body = Co_async_await fut hr, fr_at = At_task hr, fr_awaits = ml\<rparr>"
    and "co_frames s hr = Some \<lparr>fr_promise = Void_promise (void_promise_create\<lparr>vp_continuation := Some hl\<rparr>),
       fr_body = User_body (Run_handle_conn_awaited r addr_s), fr_at = Going_on, fr_awaits = m\<rparr>"
    and "st_fds s (file_at hr) = Some e" "base_ptr e = None" "co_futures s fut = Some None" "hl \<noteq> hr"
    and P: "P = echo_program ss k lu lib message new raw ac"
  obtains s' where "co_resume P (Suc (Suc (Suc (Suc n)))) hr (c, s, w) = Inr (c, s', w)"
    "co_frames s' = (co_frames s)(hl := None, hr := None)" "st_fds s' = (st_fds s)(file_at hr := None)"
    "st_addresses s' = (st_addresses s)(addr_at hr := None)" "co_futures s' = (co_futures s)(fut \<mapsto> Some (Inr ()))"
    "co_stdout s' = co_stdout s @ conn_log addr_s" "co_stderr s' = co_stderr s @ error_text message r"
proof -
  let ?fr = "\<lparr>fr_promise = Void_promise \<lparr>vp_continuation = Some hl, vp_state = State_value\<rparr>,
       fr_body = User_body Run_handle_conn_returned, fr_at = At_final, fr_awaits = m\<rparr>"
  let ?fl = "\<lparr>fr_promise = Fire_and_forget, fr_body = Co_async_end hr, fr_at = At_final, fr_awaits = ml\<rparr>"
  let ?s1 = "s\<lparr>co_stderr := co_stderr s @ error_text message r, co_stdout := co_stdout s @ conn_log addr_s,
      co_frames := (co_frames s)(hr \<mapsto> ?fr)\<rparr>"
  let ?s2 = "?s1\<lparr>co_futures := (co_futures s)(fut \<mapsto> Some (Inr ())), co_frames := (co_frames s)(hr \<mapsto> ?fr, hl \<mapsto> ?fl)\<rparr>"
  let ?s3 = "?s2\<lparr>st_addresses := (st_addresses s)(addr_at hr := None), st_fds := (st_fds s)(file_at hr := None),
      co_frames := (co_frames s)(hr := None, hl := None)\<rparr>"
  have err: "(case r of Inl ec \<Rightarrow> s\<lparr>co_stderr := co_stderr s @ as_text (message ec @ ''\<newline>'')\<rparr> | Inr u \<Rightarrow> s)
      = s\<lparr>co_stderr := co_stderr s @ error_text message r\<rparr>" for s :: "(echo_body, unit result) co_store"
    by (simp add: error_text_def split: sum.split)
  have "co_resume P (Suc (Suc (Suc (Suc n)))) hr (c, s, w) = co_resume P (Suc (Suc (Suc n))) hl (c, ?s1, w)"
    using assms(2) unfolding P
    by (subst co_resume.simps) (simp add: co_step_def frame_await_resume_def body_run_def echo_run_body_def
        run_handle_conn_end_def err conn_log_def co_act_def co_finish_def void_promise_return_void_def void_promise_clear_def
        void_promise_create_def Let_def set_frame_def)
  also have "\<dots> = co_destroy P (Suc (Suc n)) hl (c, ?s2, w)"
    using assms(1,5,6) unfolding P
    by (subst co_resume.simps) (simp add: co_step_def frame_await_resume_def task_await_resume_def body_run_def co_async_body_def
        future_set_value_def co_act_def co_finish_def Let_def set_frame_def fun_upd_twist)
  also have "\<dots> = Inr (c, ?s3, w)"
    using assms(3,4,6) unfolding P
    by (simp add: co_destroy.simps(2) destroy_frame_def frame_promise_destroy_def body_params_def destroy_owned_def fd_destroy_def
        Let_def fun_upd_twist)
  finally show ?thesis using assms(6) by (elim that) (simp_all add: fun_upd_twist)
qed

lemma run_handle_conn_ends:
  assumes "conn_frames hl hr hh fut addr_s s" "co_frames s hh = Some tf" "returned_frame hr r (User_body Handle_conn_returned) tf"
    and "st_fds s (file_at hh) = Some d" "st_fds s (file_at hr) = Some e" "base_ptr e = None" "co_futures s fut = Some None" "distinct [hl, hr, hh]"
    and P: "P = echo_program ss k lu lib message new raw ac"
  obtains s' where "co_resume P (Suc (Suc (Suc (Suc (Suc n))))) hr (c, s, w) = Inr (c, s', fd_destroy k d w)"
    "co_frames s' = (co_frames s)(hl := None, hr := None, hh := None)" "st_fds s' = (st_fds s)(file_at hr := None, file_at hh := None)"
    "st_addresses s' = (st_addresses s)(addr_at hr := None)" "co_futures s' = (co_futures s)(fut \<mapsto> Some (Inr ()))"
    "co_stdout s' = co_stdout s @ conn_log addr_s" "co_stderr s' = co_stderr s @ error_text message r"
proof -
  obtain s1 m where s1: "co_resume P (Suc (Suc (Suc (Suc (Suc n))))) hr (c, s, w) = co_resume P (Suc (Suc (Suc (Suc n)))) hr (c, s1, fd_destroy k d w)"
    "co_frames s1 = (co_frames s)(hh := None, hr \<mapsto> \<lparr>fr_promise = Void_promise (void_promise_create\<lparr>vp_continuation := Some hl\<rparr>),
       fr_body = User_body (Run_handle_conn_awaited r addr_s), fr_at = Going_on, fr_awaits = m\<rparr>)"
    "st_fds s1 = (st_fds s)(file_at hh := None)" "st_addresses s1 = st_addresses s"
    "co_futures s1 = co_futures s" "co_stdout s1 = co_stdout s" "co_stderr s1 = co_stderr s"
    using run_handle_conn_resumed [OF assms(1-4,8) P, of "Suc (Suc (Suc n))" c w] by metis
  obtain ml where fl: "co_frames s1 hl = Some \<lparr>fr_promise = Fire_and_forget, fr_body = Co_async_await fut hr, fr_at = At_task hr, fr_awaits = ml\<rparr>"
    using assms(1,8) s1(2) by (auto simp: conn_frames_def)
  have fr: "co_frames s1 hr = Some \<lparr>fr_promise = Void_promise (void_promise_create\<lparr>vp_continuation := Some hl\<rparr>),
       fr_body = User_body (Run_handle_conn_awaited r addr_s), fr_at = Going_on, fr_awaits = m\<rparr>" "st_fds s1 (file_at hr) = Some e"
      "co_futures s1 fut = Some None" "hl \<noteq> hr"
    using assms(5,7,8) s1(2,3,5) by auto
  show ?thesis
    by (rule run_handle_conn_returns [OF fl fr(1,2) assms(6) fr(3,4) P])
      (rule that, use assms(8) in \<open>auto simp: s1 fun_upd_twist\<close>)
qed

text \<open>The start: \<open>co_async(run_handle_conn(move(s), move(addr)))\<close>, up to the first read.\<close>

definition accept_log :: "string \<Rightarrow> byte list" where
  "accept_log addr_s = as_text (''accepted connection from '' @ addr_s @ ''\<newline>'')"

definition log_name :: "string result \<Rightarrow> string" where
  "log_name addr_ret = (case addr_ret of Inl ec \<Rightarrow> ''[invalid addr]'' | Inr str \<Rightarrow> str)"

text \<open>Up to its await, \<open>run_handle_conn\<close> prints the name of the peer and creates the task that gets its socket.\<close>

lemma run_handle_conn_calls:
  assumes "address_to_string lib a = Inr addr_ret" "st_addresses s (addr_at hr) = Some a" "st_fds s (file_at hr) = Some d"
    and "s' = s\<lparr>co_stdout := co_stdout s @ accept_log (log_name addr_ret)\<rparr>" "hh = new s'"
  shows "run_handle_conn_start lib new hr (c, s, w) =
    Inr (Await_task hh (Run_handle_conn_await hh (log_name addr_ret)), c,
      (set_frame hh \<lparr>fr_promise = Task_promise promise_create, fr_body = User_body Handle_conn, fr_at = At_start, fr_awaits = 0\<rparr> s')
        \<lparr>st_fds := (st_fds s')(file_at hh \<mapsto> d, file_at hr \<mapsto> d\<lparr>base_ptr := None\<rparr>)\<rparr>, w)"
proof -
  have "handle_conn_create new (file_at hr) d s' = (hh,
      (set_frame hh \<lparr>fr_promise = Task_promise promise_create, fr_body = User_body Handle_conn, fr_at = At_start, fr_awaits = 0\<rparr> s')
        \<lparr>st_fds := (st_fds s')(file_at hh \<mapsto> d, file_at hr \<mapsto> d\<lparr>base_ptr := None\<rparr>)\<rparr>)"
    by (simp add: handle_conn_create_def with_socket_def task_create_def assms(5) fd_move_def Let_def)
  with assms(1-3) show ?thesis
    by (simp add: run_handle_conn_start_def log_name_def [symmetric] accept_log_def [symmetric] assms(4) [symmetric] Let_def del: append.simps)
qed

lemma run_handle_conn_starts:
  assumes new: "new_law new room" "objects s + 3 < room" and P: "P = echo_program ss k lu lib message new raw ac"
    and create: "run_handle_conn_create new (file_at self) d a s = (hr, s1)" "co_frames s self \<noteq> None"
    and name: "address_to_string lib a = Inr addr_ret"
  obtains hl hh fut fr s' where "conn_frames hl hr hh fut (log_name addr_ret) s'" "distinct [hl, hr, hh]"
    "co_frames s hl = None" "co_frames s hr = None" "co_frames s hh = None"
    "st_fds s' (file_at hh) = Some d" "st_fds s' (file_at hr) = Some (d\<lparr>base_ptr := None\<rparr>)" "co_futures s' fut = Some None"
    "co_stdout s' = co_stdout s @ accept_log (log_name addr_ret)" "co_stderr s' = co_stderr s"
    "fr_promise fr = Task_promise (promise_create\<lparr>pr_continuation := Some hr\<rparr>)"
    "\<And>c w n. co_async P (co_resume P (Suc (Suc (Suc n)))) hr (c, s1, w) =
       (case (case handle_conn_await hh (c, s', w) of (act, st) \<Rightarrow> co_act P n (co_resume P n) hh fr (action_of act) st) of
          Inl e \<Rightarrow> Inl e | Inr st \<Rightarrow> Inr (fut, st))"
proof -
  let ?run = "\<lambda>pr b at. \<lparr>fr_promise = Void_promise pr, fr_body = User_body b, fr_at = at, fr_awaits = 0\<rparr>"
  let ?conn = "\<lambda>pr at. \<lparr>fr_promise = Task_promise pr, fr_body = User_body Handle_conn, fr_at = at, fr_awaits = 0\<rparr>"
  let ?name = "log_name addr_ret" and ?empty = "d\<lparr>base_ptr := None\<rparr>"
  have s1: "hr = new s" "co_frames s1 = (co_frames s)(hr \<mapsto> ?run void_promise_create Run_handle_conn At_start)"
    "co_futures s1 = co_futures s" "co_stdout s1 = co_stdout s" "co_stderr s1 = co_stderr s" "st_addresses s1 (addr_at hr) = Some a"
    "st_fds s1 = (st_fds s)(file_at hr \<mapsto> d, file_at self \<mapsto> ?empty)"
    using create(1) by (auto simp: run_handle_conn_create_def with_socket_def task_create_def fd_move_def Let_def)
  have o1: "objects s1 \<le> Suc (objects s)" using s1(2,3) by (simp add: objects_def card_insert_if)
  have start_facts: "new_law (p_new P) room" "objects s1 + 2 \<le> room" "co_frames s1 hr = Some (?run void_promise_create Run_handle_conn At_start)"
      "fr_promise (?run void_promise_create Run_handle_conn At_start) \<noteq> Fire_and_forget"
    using new o1 s1(2) by (simp_all add: P)
  have hr: "co_frames s hr = None" "hr \<noteq> self" using new create(2) s1(1) unfolding new_law_def by auto
  obtain fut hl pr s2 where async: "task_await_suspend hl (fr_promise (?run void_promise_create Run_handle_conn At_start)) = Inr pr" "hl \<noteq> hr"
      "co_frames s1 hl = None" "objects s2 \<le> objects s1 + 2"
    and s2: "s2 = set_frame hr ((?run void_promise_create Run_handle_conn At_start)\<lparr>fr_promise := pr\<rparr>) (set_frame hl
      \<lparr>fr_promise = Fire_and_forget, fr_body = Co_async_await fut hr, fr_at = At_task hr, fr_awaits = 0\<rparr>
      (s1\<lparr>co_futures := (co_futures s1)(fut \<mapsto> None)\<rparr>))"
    and start: "\<And>c w n. co_async P (co_resume P (Suc n)) hr (c, s1, w) =
       (case co_resume P n hr (c, s2, w) of Inl e \<Rightarrow> Inl e | Inr st \<Rightarrow> Inr (fut, st))"
    by (rule co_async_starts [OF start_facts]) (rule that)
  let ?pr = "void_promise_create\<lparr>vp_continuation := Some hl\<rparr>"
  have pr: "pr = Void_promise ?pr" using async(1) by (simp add: task_await_suspend_def)
  define s3 where "s3 = (set_frame hr (?run ?pr Run_handle_conn Running) s2)\<lparr>co_stdout := co_stdout s @ accept_log ?name\<rparr>"
  define hh where "hh = new s3"
  have o3: "objects s3 = objects s2" by (simp add: objects_def s3_def s2)
  then have "co_frames s3 hh = None" using new o1 async(4) unfolding new_law_def hh_def by simp
  then have hh: "hh \<noteq> hl" "hh \<noteq> hr" "co_frames s hh = None" by (auto simp: s3_def s2 s1(2) split: if_splits)
  define s' where "s' = set_frame hh (?conn (promise_create\<lparr>pr_continuation := Some hr\<rparr>) Running)
    (set_frame hr (?run ?pr (Run_handle_conn_await hh ?name) (At_task hh)) (s3\<lparr>st_fds := (st_fds s3)(file_at hh \<mapsto> d, file_at hr \<mapsto> ?empty)\<rparr>))"
  have call: "run_handle_conn_start lib new hr (c, set_frame hr (?run ?pr Run_handle_conn Running) s2, w) =
      Inr (Await_task hh (Run_handle_conn_await hh ?name), c,
        (set_frame hh (?conn promise_create At_start) s3)\<lparr>st_fds := (st_fds s3)(file_at hh \<mapsto> d, file_at hr \<mapsto> ?empty)\<rparr>, w)" for c w
    by (rule run_handle_conn_calls [OF name]) (use s1(4,6,7) hr(2) in \<open>simp_all add: s2 s3_def hh_def\<close>)
  have s2hr: "co_frames s2 hr = Some (?run ?pr Run_handle_conn At_start)" by (simp add: s2 pr)
  let ?fr = "?conn (promise_create\<lparr>pr_continuation := Some hr\<rparr>)"
  have "co_async P (co_resume P (Suc (Suc (Suc n)))) hr (c, s1, w) =
      (case (case handle_conn_await hh (c, s', w) of (act, st) \<Rightarrow> co_act P n (co_resume P n) hh (?fr Running) (action_of act) st) of
         Inl e \<Rightarrow> Inl e | Inr st \<Rightarrow> Inr (fut, st))" for c w n
  proof -
    have "co_resume P (Suc (Suc n)) hr (c, s2, w) = co_resume P (Suc n) hh (c, set_frame hh (?fr At_start) s', w)"
      using hh(2) unfolding P
      by (subst co_resume.simps) (auto simp: co_step_def s2hr frame_await_resume_def body_run_def echo_run_body_def call [unfolded set_frame_def] co_act_def
          task_await_suspend_def s'_def set_frame_def Let_def fun_upd_twist)
    also have "\<dots> = (case handle_conn_await hh (c, s', w) of (act, st) \<Rightarrow> co_act P n (co_resume P n) hh (?fr Running) (action_of act) st)"
      unfolding P s'_def
      by (subst co_resume.simps) (simp add: co_step_def frame_await_resume_def body_run_def echo_run_body_def Let_def split: prod.split)
    finally show ?thesis by (simp only: start)
  qed
  then show ?thesis
    by (intro that [of hl hh fut s' "?fr Running"])
      (use async(2,3) hr hh s1 in \<open>auto simp: conn_frames_def s'_def s3_def s2 split: if_splits\<close>)
qed

text \<open>
  C15. A connection served by a coroutine: \<open>co_async(run_handle_conn(move(s), move(addr)))\<close>, as \<open>echo_srv\<close> calls
  it, comes to an end whatever the operations it submits return, if other coroutines leave its
  objects and the two output streams alone. Its three coroutines and their objects are then gone, the
  socket has been closed as the last thing, both log lines are printed, and unless an error is
  reported the peer has closed its side and everything it sent has been sent back, in order
  and nothing else.
\<close>

theorem coro_echo_correct:
  fixes w :: 'w
  assumes "readv_law (ring_calls sk perform k) memory stream" and "preadv2_law (ring_calls sk perform k) memory file"
    and "writev_law (ring_calls sk perform k) memory sink" and "pwritev2_law (ring_calls sk perform k) memory file'"
    and "write_progress (ring_calls sk perform k)" and "cqe_res_range perform" and "gsl_subspan ss"
    and "submission_ok k lu ev view"
    and "\<And>v w. view v = view w \<Longrightarrow> io_view memory stream file v = io_view memory stream file w"
    and "\<And>v w. view v = view w \<Longrightarrow> io_view memory sink file' v = io_view memory sink file' w"
    and "\<And>n iov off v. (\<lambda>m. sink m (snd (perform (io_sqe Read_op n iov off) v))) = (\<lambda>m. sink m v)"
    and "\<And>n iov off v. (\<lambda>m. stream m (snd (perform (io_sqe Write_op n iov off) v))) = (\<lambda>m. stream m v)"
    and "new_law new room" and "objects s + 3 < room" and "P = echo_program ss k lu lib message new raw ac" and "6 \<le> n"
    and "context_ready ev c" and "base_ptr d = Some b" and "get_context d = Inr ctx" and "\<not> sk (fildes b)"
    and "address_to_string lib a = Inr addr_ret" and "co_frames s self \<noteq> None"
    and "run_handle_conn_create new (file_at self) d a s = (hr, s1)" and "calls_keep k ring"
  shows "\<exists>hl hh fut. runs_to k lu ev perform view ring (co_run_closure P n) (conn_keeps hl hr hh fut)
    (\<lambda>(c', s', w'). co_frames s' hl = None \<and> co_frames s' hr = None \<and> co_frames s' hh = None
       \<and> st_fds s' (file_at hh) = None \<and> st_fds s' (file_at hr) = None \<and> st_addresses s' (addr_at hr) = None
       \<and> co_futures s' fut = Some (Some (Inr ()))
       \<and> co_stdout s' = co_stdout s @ accept_log (log_name addr_ret) @ conn_log (log_name addr_ret)
       \<and> (\<exists>r w2. w' = fd_destroy k d w2 \<and> co_stderr s' = co_stderr s @ error_text message r
            \<and> (case r of Inl e \<Rightarrow> is_error e \<and> ec_category e = System_category
               | Inr u \<Rightarrow> stream (fildes b) w2 = [] \<and> sink (fildes b) w2 = sink (fildes b) w @ stream (fildes b) w)))
    (\<lambda>st. map_sum id snd (co_async P (co_resume P n) hr st)) (c, s1, w)"
    (is "\<exists>hl hh fut. runs_to _ _ _ _ _ _ _ _ (?Q hl hh fut) _ _")
proof -
  obtain N where n: "n = Suc (Suc (Suc (Suc (Suc (Suc N)))))" using le_Suc_ex [OF assms(16)] by (auto simp: eval_nat_numeral)
  obtain hl hh fut fr s' where frames: "conn_frames hl hr hh fut (log_name addr_ret) s'" "distinct [hl, hr, hh]"
    and s': "st_fds s' (file_at hh) = Some d" "st_fds s' (file_at hr) = Some (d\<lparr>base_ptr := None\<rparr>)" "co_futures s' fut = Some None"
      "co_stdout s' = co_stdout s @ accept_log (log_name addr_ret)" "co_stderr s' = co_stderr s"
      "fr_promise fr = Task_promise (promise_create\<lparr>pr_continuation := Some hr\<rparr>)"
    and start: "\<And>c w n. co_async P (co_resume P (Suc (Suc (Suc n)))) hr (c, s1, w) =
       (case (case handle_conn_await hh (c, s', w) of (act, st) \<Rightarrow> co_act P n (co_resume P n) hh fr (action_of act) st) of
          Inl e \<Rightarrow> Inl e | Inr st \<Rightarrow> Inr (fut, st))"
    by (rule run_handle_conn_starts [OF assms(13-15,23,22,21)]) (rule that)
  have h: "hh \<noteq> hr" "hh \<noteq> hl" using frames(2) by auto
  have "runs_to k lu ev perform view ring (co_run_closure P n) (conn_keeps hl hr hh fut) (?Q hl hh fut)
      (\<lambda>st. case handle_conn_await hh st of (act, st') \<Rightarrow> co_act P (Suc (Suc (Suc N))) (co_resume P (Suc (Suc (Suc N)))) hh fr (action_of act) st')
      (c, s', w)"
    unfolding n
  proof (rule handle_conn_runs [OF assms(1-12,15,18-20) h _ assms(17) refl s'(1,6) refl])
    fix r and c2 :: "co_callback closure uring_context" and s2 :: "(echo_body, unit result) co_store" and w2 :: 'w and fr2
    assume "context_ready ev c2" and rest: "conn_rest hl hr hh fut s2 = conn_rest hl hr hh fut s'"
      and res: "co_frames s2 hh = Some fr2" "returned_frame hr r (User_body Handle_conn_returned) fr2"
        "case r of Inl e \<Rightarrow> is_error e \<and> ec_category e = System_category
         | Inr u \<Rightarrow> stream (fildes b) w2 = [] \<and> sink (fildes b) w2 = sink (fildes b) w @ stream (fildes b) w"
    have s2: "conn_frames hl hr hh fut (log_name addr_ret) s2" "st_fds s2 (file_at hh) = Some d"
      "st_fds s2 (file_at hr) = Some (d\<lparr>base_ptr := None\<rparr>)" "co_futures s2 fut = Some None"
      "co_stdout s2 = co_stdout s @ accept_log (log_name addr_ret)" "co_stderr s2 = co_stderr s"
      using frames(1) s' rest by (simp_all add: conn_frames_def conn_rest_def)
    show "runs_to k lu ev perform view ring (co_run_closure P (Suc (Suc (Suc (Suc (Suc (Suc N))))))) (conn_keeps hl hr hh fut) (?Q hl hh fut)
        (co_resume P (Suc (Suc (Suc (Suc (Suc N))))) hr) (c2, s2, w2)"
      by (rule run_handle_conn_ends [OF s2(1) res(1,2) s2(2,3) _ s2(4) frames(2) assms(15)], simp)
        (rule runs_to.returns, assumption, use s2(5,6) res(3) in \<open>auto simp: calls_keep_destroy [OF assms(24)] intro: loop_kept_same\<close>)
  qed
  then have "runs_to k lu ev perform view ring (co_run_closure P n) (conn_keeps hl hr hh fut) (?Q hl hh fut)
      (\<lambda>st. map_sum id snd (co_async P (co_resume P n) hr st)) (c, s1, w)"
    by (rule runs_to_cong) (simp add: n start split: sum.split)
  then show ?thesis by blast
qed

text \<open>A connection on descriptor 5, taken by an \<open>echo_srv\<close> whose frame is at 65536.\<close>

definition echo_demo_store :: "(echo_body, unit result) co_store" where
  "echo_demo_store = set_frame 65536 \<lparr>fr_promise = Task_promise promise_create, fr_body = User_body Echo_srv_accept, fr_at = Running, fr_awaits = 1\<rparr>
     empty_store"

definition echo_demo :: "addr \<times> (echo_body, unit result) co_store" where
  "echo_demo = run_handle_conn_create demo_new (file_at 65536) (wrap_fd (Some 0) 5) (address_create (replicate 128 0)) echo_demo_store"

definition echo_demo_program :: "(echo_body, unit result, demo_world) co_program" where
  "echo_demo_program = echo_program plain_subspan demo_ring_clinux idle_liburing \<lparr>pton = (\<lambda>f s. (0, [])), ntop = (\<lambda>f bs n. Inl 28)\<rparr>
     (\<lambda>ec. ''error'') demo_new (replicate 128 0) 4096"

theorem coro_echo_correct_witness:
  "\<exists>hl hh fut. runs_to demo_ring_clinux idle_liburing 3 demo_perform (\<lambda>w. w) (\<lambda>w. ()) (co_run_closure echo_demo_program 6) (conn_keeps hl (fst echo_demo) hh fut)
    (\<lambda>(c', s', w'). co_frames s' hl = None \<and> co_frames s' (fst echo_demo) = None \<and> co_frames s' hh = None
       \<and> st_fds s' (file_at hh) = None \<and> st_fds s' (file_at (fst echo_demo)) = None \<and> st_addresses s' (addr_at (fst echo_demo)) = None
       \<and> co_futures s' fut = Some (Some (Inr ()))
       \<and> co_stdout s' = co_stdout echo_demo_store @ accept_log (log_name (Inl (as_ec EAFNOSUPPORT))) @ conn_log (log_name (Inl (as_ec EAFNOSUPPORT)))
       \<and> (\<exists>r w2. w' = fd_destroy demo_ring_clinux (wrap_fd (Some 0) 5) w2
            \<and> co_stderr s' = co_stderr echo_demo_store @ error_text (\<lambda>ec. ''error'') r
            \<and> (case r of Inl e \<Rightarrow> is_error e \<and> ec_category e = System_category
               | Inr u \<Rightarrow> dw_in w2 5 = [] \<and> dw_out w2 5 = dw_out demo_start 5 @ dw_in demo_start 5)))
    (\<lambda>st. map_sum id snd (co_async echo_demo_program (co_resume echo_demo_program 6) (fst echo_demo) st)) (ready_context, snd echo_demo, demo_start)"
proof (rule coro_echo_correct [where sk = demo_sk and room = 8 and self = 65536 and b = "\<lparr>fildes = 5\<rparr>", unfolded fd_base.simps,
      OF demo_ring_laws demo_cqe_res_range gsl_subspan_plain demo_ring_ok _ _ _ _ demo_new_law _ echo_demo_program_def])
  show "(\<lambda>m. dw_out (snd (demo_perform (io_sqe Read_op n iov off) v)) m) = (\<lambda>m. dw_out v m)" for n iov off v
    by (simp add: io_sqe_def demo_preadv2_def demo_readv_def demo_scatter_def Let_def)
  show "(\<lambda>m. dw_in (snd (demo_perform (io_sqe Write_op n iov off) v)) m) = (\<lambda>m. dw_in v m)" for n iov off v
    by (simp add: io_sqe_def demo_pwritev2_def demo_writev_def Let_def)
  show "objects echo_demo_store + 3 < 8"
    by (simp add: objects_def echo_demo_store_def empty_store_def)
  show "context_ready 3 (ready_context :: co_callback closure uring_context)" by (rule demo_context_ready)
  show "address_to_string \<lparr>pton = (\<lambda>f s. (0, [])), ntop = (\<lambda>f bs n. Inl 28)\<rparr> (address_create (replicate 128 0)) = Inr (Inl (as_ec EAFNOSUPPORT))"
    by code_simp
  show "co_frames echo_demo_store 65536 \<noteq> None" by (simp add: echo_demo_store_def)
  show "run_handle_conn_create demo_new (file_at 65536) (wrap_fd (Some 0) 5) (address_create (replicate 128 0)) echo_demo_store = (fst echo_demo, snd echo_demo)"
    by (simp add: echo_demo_def)
qed (simp_all add: wrap_fd_def fd_move_def fd_create_def set_async_context_def get_context_def demo_sk_def calls_keep_def)

end
