(* ===== verification/Ark_Async_Echo.thy ===== *)
theory Ark_Async_Echo
  imports Ark_Coro_Echo
begin

text \<open>
  \<open>examples/async_echo_server.cpp\<close>: the echo server with callbacks. The objects of classes
  \<open>echo_service\<close> and \<open>echo_server\<close> are shared: \<open>ae_shared\<close> has the number of \<open>shared_ptr\<close>s to each, one in
  every callback that was bound to it. The members of the object at \<open>h\<close> are the socket or acceptor
  at \<open>file_at h\<close>, the address at \<open>addr_at h\<close> and the array at \<open>array_at h\<close>; the temporary
  buffer object of a statement is at \<open>temp_at h\<close>.
\<close>

section \<open>The program\<close>

datatype shared_class = Echo_service | Echo_server

record async_echo_store = io_store +
  ae_shared :: "addr \<rightharpoonup> shared_class \<times> nat"
  ae_stdout :: "byte list"
  ae_stderr :: "byte list"

text \<open>The results of the three \<open>std::bind\<close>s, with the object they are bound to.\<close>

datatype echo_callback = Handle_read addr | Handle_write addr | Handle_connection addr

type_synonym 'w async_echo_state = "(echo_callback, (unit async_echo_store_ext), 'w) async_state"

record 'w async_echo =
  ae_subspan :: subspan_t
  ae_clinux :: "'w clinux"
  ae_liburing :: "'w liburing"
  ae_inet :: inet_lib
  ae_message :: "error_code \<Rightarrow> string"
  ae_new :: "async_echo_store \<Rightarrow> addr"

definition shared_from_this :: "addr \<Rightarrow> async_echo_store \<Rightarrow> failure + async_echo_store" where
  "shared_from_this h s =
     (case ae_shared s h of
        None \<Rightarrow> Inl Dangling_reference
      | Some (cls, n) \<Rightarrow> Inr (s\<lparr>ae_shared := (ae_shared s)(h \<mapsto> (cls, Suc n))\<rparr>))"

definition peer_name :: "'w async_echo \<Rightarrow> address \<Rightarrow> failure + string" where
  "peer_name E a =
     (case address_to_string (ae_inet E) a of
        Inl e \<Rightarrow> Inl e
      | Inr (Inl ec) \<Rightarrow> Inr (''['' @ ae_message E ec @ '']'')
      | Inr (Inr str) \<Rightarrow> Inr str)"

text \<open>
  A \<open>shared_ptr\<close> goes: the last one destroys the object, whose destructor prints a line if it
  is a service; its members go in reverse order.
\<close>

definition shared_release ::
  "'w async_echo \<Rightarrow> addr \<Rightarrow> 'w async_echo_state \<Rightarrow> failure + 'w async_echo_state"
where
  "shared_release E h st =
     (case st of (c, s, w) \<Rightarrow>
      case (ae_shared s h, st_addresses s (addr_at h), st_fds s (file_at h)) of
        (Some (cls, n), Some a, Some d) \<Rightarrow>
          (if 1 < n then Inr (c, s\<lparr>ae_shared := (ae_shared s)(h \<mapsto> (cls, n - 1))\<rparr>, w)
           else case (case cls of Echo_server \<Rightarrow> Inr [] | Echo_service \<Rightarrow>
                    (case peer_name E a of Inl e \<Rightarrow> Inl e
                     | Inr name \<Rightarrow> Inr (as_text (''closed connection to '' @ name @ ''\<newline>'')))) of
             Inl e \<Rightarrow> Inl e
           | Inr line \<Rightarrow>
               Inr (c, s\<lparr>ae_shared := (ae_shared s)(h := None), ae_stdout := ae_stdout s @ line,
                         st_addresses := (st_addresses s)(addr_at h := None), st_fds := (st_fds s)(file_at h := None)\<rparr>,
                    fd_destroy (ae_clinux E) d w))
      | _ \<Rightarrow> Inl Dangling_reference)"

text \<open>
  A statement that starts a transfer with a temporary buffer: the buffer object is made, the
  callback gets its \<open>shared_ptr\<close>, the operation starts, and at the end the temporary is gone.
\<close>

definition with_temporary ::
  "addr \<Rightarrow> buffer_sequence \<Rightarrow> ('w async_echo_state \<Rightarrow> failure + 'w async_echo_state) \<Rightarrow> 'w async_echo_state
   \<Rightarrow> failure + 'w async_echo_state"
where
  "with_temporary self b start st =
     (case st of (c, s, w) \<Rightarrow>
      case shared_from_this self (s\<lparr>st_buffers := (st_buffers s)(temp_at self \<mapsto> b)\<rparr>) of
        Inl e \<Rightarrow> Inl e
      | Inr s' \<Rightarrow>
          (case start (c, s', w) of
             Inl e \<Rightarrow> Inl e
           | Inr (c', s'', w') \<Rightarrow> Inr (c', s''\<lparr>st_buffers := (st_buffers s'')(temp_at self := None)\<rparr>, w')))"

definition do_echo ::
  "'w async_echo \<Rightarrow> (echo_callback, unit async_echo_store_ext, 'w) final_callback \<Rightarrow> addr \<Rightarrow> 'w async_echo_state
   \<Rightarrow> failure + 'w async_echo_state"
where
  "do_echo E fin self =
     with_temporary self (Single (buffer_of_data (buf_1024 (array_at self))))
       (async_read (ae_subspan E) (ae_clinux E) (ae_liburing E) fin (Fd_ref (file_at self)) (temp_at self) (transfer_at_least_t 1)
          (Handle_read self))"

definition handle_error :: "'w async_echo \<Rightarrow> error_code \<Rightarrow> 'w async_echo_state \<Rightarrow> 'w async_echo_state" where
  "handle_error E ec st =
     (case st of (c, s, w) \<Rightarrow> (c, s\<lparr>ae_stderr := ae_stderr s @ as_text (ae_message E ec @ ''\<newline>'')\<rparr>, w))"

definition handle_write ::
  "'w async_echo \<Rightarrow> (echo_callback, unit async_echo_store_ext, 'w) final_callback \<Rightarrow> addr \<Rightarrow> size_t result
   \<Rightarrow> 'w async_echo_state \<Rightarrow> failure + 'w async_echo_state"
where
  "handle_write E fin self ret st =
     (case ret of Inl ec \<Rightarrow> Inr (handle_error E ec st) | Inr n \<Rightarrow> do_echo E fin self st)"

definition handle_read ::
  "'w async_echo \<Rightarrow> (echo_callback, unit async_echo_store_ext, 'w) final_callback \<Rightarrow> addr \<Rightarrow> size_t result
   \<Rightarrow> 'w async_echo_state \<Rightarrow> failure + 'w async_echo_state"
where
  "handle_read E fin self ret st =
     (case ret of
        Inl ec \<Rightarrow> Inr (handle_error E ec st)
      | Inr sz \<Rightarrow>
          (if sz = 0 then Inr st
           else with_temporary self (Single (buffer_of_data_n (buf_1024 (array_at self)) sz))
             (async_write_all (ae_subspan E) (ae_clinux E) (ae_liburing E) fin (Fd_ref (file_at self)) (temp_at self)
                (Handle_write self)) st))"

text \<open>\<open>echo_server::run\<close>; \<open>heap\<close> is where the operation puts its locals.\<close>

definition server_run ::
  "'w async_echo \<Rightarrow> (echo_callback, unit async_echo_store_ext, 'w) final_callback \<Rightarrow> addr \<Rightarrow> addr
   \<Rightarrow> 'w async_echo_state \<Rightarrow> failure + 'w async_echo_state"
where
  "server_run E fin heap self st =
     (case st of (c, s, w) \<Rightarrow>
      case shared_from_this self s of
        Inl e \<Rightarrow> Inl e
      | Inr s' \<Rightarrow>
          async_accept_address (ae_clinux E) (ae_liburing E) fin heap (file_at self) (addr_at self) (Handle_connection self) (c, s', w))"

text \<open>\<open>make_shared<echo_service>(...)\<close>, with the one \<open>shared_ptr\<close> \<open>svc\<close>.\<close>

definition service_create ::
  "'w async_echo \<Rightarrow> fd \<Rightarrow> address \<Rightarrow> async_echo_store \<Rightarrow> failure + addr \<times> async_echo_store"
where
  "service_create E d a s =
     (case peer_name E a of
        Inl e \<Rightarrow> Inl e
      | Inr name \<Rightarrow>
          (let svc = ae_new E s in
           Inr (svc, s\<lparr>ae_shared := (ae_shared s)(svc \<mapsto> (Echo_service, 1)), st_fds := (st_fds s)(file_at svc \<mapsto> d),
                       st_addresses := (st_addresses s)(addr_at svc \<mapsto> a),
                       ae_stdout := ae_stdout s @ as_text (''connected with peer '' @ name @ ''\<newline>'')\<rparr>)))"

definition handle_connection ::
  "'w async_echo \<Rightarrow> (echo_callback, unit async_echo_store_ext, 'w) final_callback \<Rightarrow> addr \<Rightarrow> fd result
   \<Rightarrow> 'w async_echo_state \<Rightarrow> failure + 'w async_echo_state"
where
  "handle_connection E fin self ret st =
     (case st of (c, s, w) \<Rightarrow>
      case ret of
        Inl ec \<Rightarrow> (case context_exit_with (ae_clinux E) (Inl ec) c w of Inl e \<Rightarrow> Inl e | Inr (c', w') \<Rightarrow> Inr (c', s, w'))
      | Inr d \<Rightarrow>
          (case st_addresses s (addr_at self) of
             None \<Rightarrow> Inl Dangling_reference
           | Some a \<Rightarrow>
               (case service_create E d a s of
                  Inl e \<Rightarrow> Inl e
                | Inr (svc, s1) \<Rightarrow>
                    (case do_echo E fin svc (c, s1, w) of
                       Inl e \<Rightarrow> Inl e
                     | Inr (c2, s2, w2) \<Rightarrow>
                         (case server_run E fin (ae_new E s2) self (c2, s2, w2) of
                            Inl e \<Rightarrow> Inl e
                          | Inr st3 \<Rightarrow> shared_release E svc st3)))))"

text \<open>
  A bound callback is called and then destroyed, with its \<open>shared_ptr\<close>. An operation that completes
  at once calls it from within the call that started it, at most \<open>n\<close> deep.
\<close>

definition echo_callback_body ::
  "'w async_echo \<Rightarrow> (echo_callback, unit async_echo_store_ext, 'w) final_callback
   \<Rightarrow> (echo_callback, unit async_echo_store_ext, 'w) final_callback"
where
  "echo_callback_body E fin cb r st =
     (case (cb, r) of
        (Handle_read h, Size_result ret) \<Rightarrow> (case handle_read E fin h ret st of Inl e \<Rightarrow> Inl e | Inr st' \<Rightarrow> shared_release E h st')
      | (Handle_write h, Size_result ret) \<Rightarrow> (case handle_write E fin h ret st of Inl e \<Rightarrow> Inl e | Inr st' \<Rightarrow> shared_release E h st')
      | (Handle_connection h, Socket_result ret) \<Rightarrow>
          (case handle_connection E fin h ret st of Inl e \<Rightarrow> Inl e | Inr st' \<Rightarrow> shared_release E h st')
      | _ \<Rightarrow> Inl No_value)"

primrec echo_callback_run ::
  "'w async_echo \<Rightarrow> nat \<Rightarrow> (echo_callback, unit async_echo_store_ext, 'w) final_callback"
where
  "echo_callback_run E 0 = (\<lambda>cb r st. Inl Out_of_fuel)"
| "echo_callback_run E (Suc n) = echo_callback_body E (echo_callback_run E n)"

definition async_echo_closure ::
  "'w async_echo \<Rightarrow> nat \<Rightarrow> echo_callback closure \<Rightarrow> int result \<Rightarrow> 'w async_echo_state \<Rightarrow> failure + 'w async_echo_state"
where
  "async_echo_closure E n = run_closure (ae_subspan E) (ae_clinux E) (ae_liburing E) (echo_callback_run E n)"

text \<open>\<open>run\<close>: the server object is made from the listening acceptor; then the loop.\<close>

definition async_echo_run ::
  "('w, 'z) net_clinux_scheme \<Rightarrow> 'w async_echo \<Rightarrow> byte list \<Rightarrow> nat \<Rightarrow> int \<Rightarrow> async_echo_store \<Rightarrow> 'w
   \<Rightarrow> (failure + unit result \<times> async_echo_store \<times> 'w) option"
where
  "async_echo_run k E raw n evfd s w =
     (case context_init (ae_clinux E) (ae_liburing E) (context_create evfd) w of
        Inl e \<Rightarrow> Some (Inl e)
      | Inr (Inl ec, c, w1) \<Rightarrow> Some (Inr (Inl ec, s, context_destroy (ae_liburing E) c w1))
      | Inr (Inr u, c, w1) \<Rightarrow>
          (case coro_echo_listen k (ae_inet E) raw 0 w1 of
             Inl e \<Rightarrow> Some (Inl e)
           | Inr (Inl ec, w2) \<Rightarrow> Some (Inr (Inl ec, s, context_destroy (ae_liburing E) c w2))
           | Inr (Inr d, w2) \<Rightarrow>
               (let srv = ae_new E s;
                    s1 = s\<lparr>ae_shared := (ae_shared s)(srv \<mapsto> (Echo_server, 1)), st_fds := (st_fds s)(file_at srv \<mapsto> d),
                           st_addresses := (st_addresses s)(addr_at srv \<mapsto> address_create raw)\<rparr>
                in case server_run E (echo_callback_run E n) (ae_new E s1) srv (c, s1, w2) of
                  Inl e \<Rightarrow> Some (Inl e)
                | Inr st \<Rightarrow>
                    Option.bind (context_run (ae_clinux E) (ae_liburing E) (async_echo_closure E n) st)
                      (\<lambda>r. case r of
                         Inl e \<Rightarrow> Some (Inl e)
                       | Inr (ret, c', s', w') \<Rightarrow>
                           (case shared_release E srv (c', s', w') of
                              Inl e \<Rightarrow> Some (Inl e)
                            | Inr (c'', s'', w'') \<Rightarrow> Some (Inr (ret, s'', context_destroy (ae_liburing E) c'' w'')))))))"

section \<open>The temporary buffers\<close>

text \<open>
  A service that can start a transfer: it is alive, and its socket is open and bound to a context.
\<close>

definition service_ready :: "addr \<Rightarrow> async_echo_store \<Rightarrow> bool" where
  "service_ready h s \<longleftrightarrow>
     ae_shared s h \<noteq> None \<and> (\<exists>d b ctx. st_fds s (file_at h) = Some d \<and> base_ptr d = Some b \<and> get_context d = Inr ctx)"

lemma with_temporary_io:
  assumes "service_ready self s" "gsl_subspan ss" "submission_ok k lu ev view" "context_ready ev c"
    and "cond (buffer_size b) 0 \<noteq> 0"
  obtains ctx iov s' w' where
    "with_temporary self b (async_io_start ss k lu fin kind (Fd_ref (file_at self)) (temp_at self) cond cb) (c, s, w) =
       Inr (registered c (User_cb (Io_go_on kind (io_op ctx cb (Fd_ref (file_at self)) (temp_at self) cond 0 iov))), s', w')"
    "st_buffers s' (temp_at self) = None"
proof -
  obtain cls n d bs ctx where svc: "ae_shared s self = Some (cls, n)" "st_fds s (file_at self) = Some d" "base_ptr d = Some bs" "get_context d = Inr ctx"
    using assms(1) by (auto simp: service_ready_def)
  let ?s = "s\<lparr>st_buffers := (st_buffers s)(temp_at self \<mapsto> b), ae_shared := (ae_shared s)(self \<mapsto> (cls, Suc n))\<rparr>"
  have st: "fd_at ?s (Fd_ref (file_at self)) = Inr (Nonseekable d)" "io_get (Nonseekable d) = Inr (fildes bs)"
    "io_offset (Nonseekable d) = Inr 0" "buffers_at ?s (temp_at self) = Inr b"
    using svc by (simp_all add: fd_get_def buffers_at_def)
  obtain iov w1 where "async_io_run ss k lu fin kind (io_op ctx cb (Fd_ref (file_at self)) (temp_at self) cond 0 []) (c, ?s, w) =
      Inr (registered c (User_cb (Io_go_on kind (io_op ctx cb (Fd_ref (file_at self)) (temp_at self) cond 0 iov))), ?s, w1)"
    by (rule async_io_run_submits [where cond = cond and d = 0 and kind = kind and w = w and ctx = ctx and cb = cb and ?iov0.0 = "[]",
          OF assms(2) st assms(5,3,4)]) (rule that)
  then have "with_temporary self b (async_io_start ss k lu fin kind (Fd_ref (file_at self)) (temp_at self) cond cb) (c, s, w) =
      Inr (registered c (User_cb (Io_go_on kind (io_op ctx cb (Fd_ref (file_at self)) (temp_at self) cond 0 iov))),
        ?s\<lparr>st_buffers := (st_buffers s)(temp_at self := None)\<rparr>, w1)"
    using svc by (simp add: with_temporary_def shared_from_this_def async_io_start_def io_op_create)
  then show ?thesis by (rule that) simp
qed

text \<open>
  C37. The transfers of the asynchronous echo server refer to buffer objects that are gone: \<open>do_echo\<close>, and
  \<open>handle_read\<close> when it got data, pass a temporary to an operation that keeps a reference to
  it. The submission succeeds, but when the completion of the call reports data, for the read as
  for the write, the continuation uses the destroyed buffer sequence.
\<close>

theorem async_echo_dangles:
  assumes "service_ready self s" and "gsl_subspan (ae_subspan E)" and "submission_ok (ae_clinux E) (ae_liburing E) ev view"
    and "context_ready ev c" and "sz \<noteq> 0" and "unat sz \<le> 1024"
  shows "\<exists>rd wr s1 w1 s2 w2.
    do_echo E fin self (c, s, w) = Inr (registered c (User_cb rd), s1, w1) \<and> st_buffers s1 (temp_at self) = None
    \<and> handle_read E fin self (Inr sz) (c, s, w) = Inr (registered c (User_cb wr), s2, w2) \<and> st_buffers s2 (temp_at self) = None
    \<and> (\<forall>m n c' s' w'. 0 < n \<and> n < 2 ^ 31 \<and> st_buffers s' (temp_at self) = None \<longrightarrow>
         async_echo_closure E m rd (Inr n) (c', s', w') = Inl Dangling_reference
         \<and> async_echo_closure E m wr (Inr n) (c', s', w') = Inl Dangling_reference)"
proof -
  let ?fr = "Fd_ref (file_at self)"
  let ?B = "Single (buffer_of_data (buf_1024 (array_at self)))" and ?W = "Single (buffer_of_data_n (buf_1024 (array_at self)) sz)"
  have "unat (buffer_size ?B) = 1024" by (rule buf_1024_addrs(2))
  then have "buffer_size ?B \<noteq> 0" by (metis unat_0 zero_neq_numeral)
  then have rd_start: "transfer_at_least_t 1 (buffer_size ?B) 0 \<noteq> 0" by (simp add: transfer_at_least_t_def word_gt_0)
  have "buffer_size ?W = sz" using buf_1024_addrs(4) [OF assms(6), of "array_at self"] by (simp add: word_unat_eq_iff)
  then have wr_start: "transfer_all_t (buffer_size ?W) 0 \<noteq> 0" using assms(5) by (simp add: transfer_all_t_def word_gt_0)
  have eqs: "do_echo E fin self (c, s, w) = with_temporary self ?B (async_io_start (ae_subspan E) (ae_clinux E) (ae_liburing E) fin Read_op
        ?fr (temp_at self) (transfer_at_least_t 1) (Handle_read self)) (c, s, w)"
    "handle_read E fin self (Inr sz) (c, s, w) = with_temporary self ?W (async_io_start (ae_subspan E) (ae_clinux E) (ae_liburing E) fin Write_op
        ?fr (temp_at self) transfer_all_t (Handle_write self)) (c, s, w)"
    using assms(5) by (simp_all add: do_echo_def handle_read_def async_read_def [abs_def] async_write_all_def [abs_def] async_write_def [abs_def])
  obtain ctx iov s1 w1 where rd: "do_echo E fin self (c, s, w) =
      Inr (registered c (User_cb (Io_go_on Read_op (io_op ctx (Handle_read self) ?fr (temp_at self) (transfer_at_least_t 1) 0 iov))), s1, w1)"
    "st_buffers s1 (temp_at self) = None"
    by (rule with_temporary_io [where cond = "transfer_at_least_t 1" and b = ?B and fin = fin and kind = Read_op and w = w and cb = "Handle_read self",
          OF assms(1-4) rd_start, folded eqs(1)]) (rule that)
  obtain ctx' iov' s2 w2 where wr: "handle_read E fin self (Inr sz) (c, s, w) =
      Inr (registered c (User_cb (Io_go_on Write_op (io_op ctx' (Handle_write self) ?fr (temp_at self) transfer_all_t 0 iov'))), s2, w2)"
    "st_buffers s2 (temp_at self) = None"
    by (rule with_temporary_io [where cond = transfer_all_t and b = ?W and fin = fin and kind = Write_op and w = w and cb = "Handle_write self",
          OF assms(1-4) wr_start, folded eqs(2)]) (rule that)
  have "async_echo_closure E m (Io_go_on kind (io_op ctx cb ?fr (temp_at self) cond 0 iov)) (Inr n) (c', s', w') = Inl Dangling_reference"
    if "0 < n \<and> n < 2 ^ 31 \<and> st_buffers s' (temp_at self) = None" for m kind ctx cb cond iov n c' s' w'
  proof -
    have "(word_of_int n :: size_t) \<noteq> 0" using that by (simp add: word_of_int_eq_0_iff zdvd_not_zless)
    then show ?thesis
      using that by (simp add: async_echo_closure_def run_closure_def async_io_go_on_def async_io_run_def io_op_def op_create_def buffers_at_def)
  qed
  then show ?thesis using rd wr by blast
qed

definition async_echo_demo :: "demo_world async_echo" where
  "async_echo_demo = \<lparr>ae_subspan = plain_subspan, ae_clinux = demo_ring_clinux, ae_liburing = idle_liburing,
     ae_inet = \<lparr>pton = (\<lambda>f s. (0, [])), ntop = (\<lambda>f bs n. Inl 28)\<rparr>, ae_message = (\<lambda>ec. ''error''), ae_new = (\<lambda>s. 131072)\<rparr>"

definition async_echo_demo_store :: async_echo_store where
  "async_echo_demo_store = \<lparr>st_fds = [file_at 65536 \<mapsto> wrap_fd (Some 0) 5], st_seekables = (\<lambda>a. None), st_buffers = (\<lambda>a. None),
     st_addresses = [addr_at 65536 \<mapsto> address_create (replicate 128 0)], ae_shared = [65536 \<mapsto> (Echo_service, 1)],
     ae_stdout = [], ae_stderr = []\<rparr>"

theorem async_echo_dangles_witness:
  "\<exists>rd wr s1 w1 s2 w2.
    do_echo async_echo_demo (echo_callback_run async_echo_demo 1) 65536 (ready_context, async_echo_demo_store, demo_start) =
      Inr (registered ready_context (User_cb rd), s1, w1) \<and> st_buffers s1 (temp_at 65536) = None
    \<and> handle_read async_echo_demo (echo_callback_run async_echo_demo 1) 65536 (Inr 5) (ready_context, async_echo_demo_store, demo_start) =
      Inr (registered ready_context (User_cb wr), s2, w2) \<and> st_buffers s2 (temp_at 65536) = None
    \<and> (\<forall>m n c' s' w'. 0 < n \<and> n < 2 ^ 31 \<and> st_buffers s' (temp_at 65536) = None \<longrightarrow>
         async_echo_closure async_echo_demo m rd (Inr n) (c', s', w') = Inl Dangling_reference
         \<and> async_echo_closure async_echo_demo m wr (Inr n) (c', s', w') = Inl Dangling_reference)"
  by (rule async_echo_dangles [where ev = 3 and view = "\<lambda>w. w"])
    (simp_all add: async_echo_demo_def async_echo_demo_store_def service_ready_def gsl_subspan_plain demo_ring_ok demo_context_ready
      wrap_fd_def fd_move_def fd_create_def set_async_context_def get_context_def)

end
