(* ===== verification/Ark_Main.thy ===== *)
theory Ark_Main
  imports Ark_Coro_Cat_Run Ark_Async_Echo
begin

text \<open>
  The \<open>main\<close> functions of the five example programs, the same text in each: the error of \<open>run\<close> is printed and the
  process aborted, otherwise it exits with 0. \<open>message\<close> gives the texts of error codes. The output
  of a program is what it has written to \<open>std::cout\<close>; what of it the stream still holds when the process aborts is
  up to the C++ library.
\<close>

datatype process_end = Exited int | Abort_signal

definition error_line :: "(error_code \<Rightarrow> string) \<Rightarrow> error_code \<Rightarrow> byte list" where
  "error_line message ec = as_text (''error : '' @ message ec @ ''\<newline>'')"

text \<open>What \<open>main\<close> writes to \<open>std::cerr\<close>, and how the process ends.\<close>

definition main_end :: "(error_code \<Rightarrow> string) \<Rightarrow> unit result \<Rightarrow> byte list \<times> process_end" where
  "main_end message ret = (case ret of Inl ec \<Rightarrow> (error_line message ec, Abort_signal) | Inr u \<Rightarrow> ([], Exited 0))"

definition end_of_run ::
  "(error_code \<Rightarrow> string) \<Rightarrow> ('a \<Rightarrow> unit result) \<Rightarrow> (failure + 'a) option \<Rightarrow> (failure + (byte list \<times> process_end) \<times> 'a) option"
where
  "end_of_run message ret r = map_option (map_sum id (\<lambda>x. (main_end message (ret x), x))) r"

section \<open>The programs\<close>

text \<open>\<open>argv\<close> is the name of the program and its arguments.\<close>

definition sync_cat_main ::
  "subspan_t \<Rightarrow> ('w, 'z) clinux_scheme \<Rightarrow> ('w \<Rightarrow> mem) \<Rightarrow> (error_code \<Rightarrow> string) \<Rightarrow> addr \<Rightarrow> string list \<Rightarrow> 'w
   \<Rightarrow> (failure + (byte list \<times> process_end) \<times> unit result \<times> 'w \<times> byte list) option"
where
  "sync_cat_main ss k memory message buf argv w = end_of_run message fst (sync_cat ss k memory buf (tl argv) w [])"

definition coro_cat_main ::
  "(cat_body, unit result, 'w) co_program \<Rightarrow> (error_code \<Rightarrow> string) \<Rightarrow> nat \<Rightarrow> int \<Rightarrow> string list \<Rightarrow> (cat_body, unit result) co_store \<Rightarrow> 'w
   \<Rightarrow> (failure + (byte list \<times> process_end) \<times> unit result \<times> (cat_body, unit result) co_store \<times> 'w) option"
where
  "coro_cat_main P message n evfd argv s w = end_of_run message fst (coro_cat_run P n evfd (tl argv) s w)"

definition sync_echo_main ::
  "subspan_t \<Rightarrow> ('w, 'z) net_clinux_scheme \<Rightarrow> inet_lib \<Rightarrow> (error_code \<Rightarrow> string) \<Rightarrow> addr \<Rightarrow> byte list \<Rightarrow> 'w
   \<Rightarrow> (failure + (byte list \<times> process_end) \<times> error_code \<times> 'w \<times> string list) option"
where
  "sync_echo_main ss k lib message buf raw w = end_of_run message (\<lambda>(ec, w, out). Inl ec) (echo_run ss k lib buf raw w)"

definition coro_echo_main ::
  "('w, 'z) net_clinux_scheme \<Rightarrow> (echo_body, unit result, 'w) co_program \<Rightarrow> inet_lib \<Rightarrow> (error_code \<Rightarrow> string) \<Rightarrow> byte list \<Rightarrow> addr \<Rightarrow> nat \<Rightarrow> int
   \<Rightarrow> (echo_body, unit result) co_store \<Rightarrow> 'w
   \<Rightarrow> (failure + (byte list \<times> process_end) \<times> unit result \<times> (echo_body, unit result) co_store \<times> 'w) option"
where
  "coro_echo_main k P lib message raw ac n evfd s w = end_of_run message fst (coro_echo_run k P lib raw ac n evfd s w)"

definition async_echo_main ::
  "('w, 'z) net_clinux_scheme \<Rightarrow> 'w async_echo \<Rightarrow> byte list \<Rightarrow> nat \<Rightarrow> int \<Rightarrow> async_echo_store \<Rightarrow> 'w
   \<Rightarrow> (failure + (byte list \<times> process_end) \<times> unit result \<times> async_echo_store \<times> 'w) option"
where
  "async_echo_main k E raw n evfd s w = end_of_run (ae_message E) fst (async_echo_run k E raw n evfd s w)"

section \<open>The two cats\<close>

text \<open>
  How a cat ends, given the result \<open>r\<close> of its \<open>run\<close>: all is printed and the status is 0, or a part is printed, the text of
  that very error is on the standard error, and the process aborts.
\<close>

definition cat_ends ::
  "(error_code \<Rightarrow> string) \<Rightarrow> (error_code \<Rightarrow> bool) \<Rightarrow> byte list \<Rightarrow> unit result \<Rightarrow> byte list \<Rightarrow> byte list \<times> process_end \<Rightarrow> bool"
where
  "cat_ends message err contents r out e \<longleftrightarrow>
     (case r of
        Inr u \<Rightarrow> e = ([], Exited 0) \<and> out = contents
      | Inl ec \<Rightarrow> e = (as_text (''error : '' @ message ec @ ''\<newline>''), Abort_signal) \<and> err ec \<and> prefix out contents)"

lemma cat_ends_main:
  assumes "contents = out @ left" "case r of Inl ec \<Rightarrow> err ec | Inr u \<Rightarrow> left = []"
  shows "cat_ends message err contents r out (main_end message r)"
  using assms by (auto simp: cat_ends_def main_end_def error_line_def split: sum.splits)

text \<open>
  C12. The two cats agree. On the same files, sync_cat and coro_cat both come to an end, one with blocking calls, the
  other with coroutines on an event loop over io_uring. Each process ends as its \<open>run\<close> does: when \<open>run\<close> succeeds it has
  printed the contents of the files named in the arguments, in order, and exits with 0; when \<open>run\<close> returns an error, an errno or
  one of the ring, it has printed a prefix of that, writes \<open>error : \<close> and the message of that error to the standard
  error and aborts. So if both exit with 0 their outputs are equal.
\<close>

theorem cats_agree:
  fixes w :: 'w
  assumes "readv_law k memory stream" and "preadv2_law k memory file" and "reads_keep k dir"
    and "readv_law (ring_calls sk perform k) memory stream" and "preadv2_law (ring_calls sk perform k) memory file"
    and "cqe_res_range perform" and "gsl_subspan ss"
    and "submission_ok k lu ev view"
    and "\<And>v w. view v = view w \<Longrightarrow> io_view memory stream file v = io_view memory stream file w"
    and "\<And>v w. view v = view w \<Longrightarrow> dir v = dir w"
    and "\<And>n iov off v. dir (snd (perform (io_sqe Read_op n iov off) v)) = dir v"
    and "open_law k file dir" and "opens_files k sk" and "calls_keep k ring" and "new_law new room" and "objects s + 3 < room"
    and "P = cat_program ss k lu new memory ctx" and "7 \<le> n"
    and "submit_law lu ring view B" and "wait_law lu perform ring view" and "completion_law lu ring view" and "waker_law k ev perform view"
    and "start_law k lu ev ring view w" and "2 * B + 6 < 2 ^ 64" and "co_stdout s = []"
  shows "\<exists>e1 r1 w1 out e2 r2 s2 w2.
    sync_cat_main ss k memory message buf argv w = Some (Inr (e1, r1, w1, out))
    \<and> coro_cat_main P message n evfd argv s w = Some (Inr (e2, r2, s2, w2))
    \<and> sync_cat ss k memory buf (tl argv) w [] = Some (Inr (r1, w1, out))
    \<and> coro_cat_run P n evfd (tl argv) s w = Some (Inr (r2, s2, w2))
    \<and> cat_ends message (\<lambda>ec. \<exists>v. ec = errno_ec k v) (concat (map (\<lambda>path. dir w (c_str path)) (tl argv))) r1 out e1
    \<and> cat_ends message (\<lambda>ec. ec_category ec = System_category \<or> (\<exists>v. ec = errno_ec k v))
        (concat (map (\<lambda>path. dir w (c_str path)) (tl argv))) r2 (co_stdout s2) e2
    \<and> (snd e1 = Exited 0 \<and> snd e2 = Exited 0 \<longrightarrow> out = co_stdout s2)"
proof -
  let ?contents = "concat (map (\<lambda>path. dir w (c_str path)) (tl argv))"
  obtain r1 w1 out left where sync: "sync_cat ss k memory buf (tl argv) w [] = Some (Inr (r1, w1, out))" "?contents = out @ left"
      "case r1 of Inl ec \<Rightarrow> \<exists>v. ec = errno_ec k v | Inr u \<Rightarrow> left = []"
    using sync_cat_total [OF assms(1,2,7,12,3), of buf "tl argv" w "[]"] by auto
  obtain r2 s2 w2 left2 where coro: "coro_cat_run P n evfd (tl argv) s w = Some (Inr (r2, s2, w2))" "?contents = co_stdout s2 @ left2"
      "case r2 of Inl ec \<Rightarrow> ec_category ec = System_category \<or> (\<exists>v. ec = errno_ec k v) | Inr u \<Rightarrow> left2 = []"
    using coro_cat_run_returns [OF assms(4-24), of evfd "tl argv"] assms(25) by auto
  have ends: "cat_ends message (\<lambda>ec. \<exists>v. ec = errno_ec k v) ?contents r1 out (main_end message r1)"
      "cat_ends message (\<lambda>ec. ec_category ec = System_category \<or> (\<exists>v. ec = errno_ec k v)) ?contents r2 (co_stdout s2) (main_end message r2)"
    using cat_ends_main [OF sync(2,3)] cat_ends_main [OF coro(2,3)] by simp_all
  from this have "snd (main_end message r1) = Exited 0 \<and> snd (main_end message r2) = Exited 0 \<longrightarrow> out = co_stdout s2"
    by (auto simp: cat_ends_def split: sum.splits)
  with ends show ?thesis
    using sync(1) coro(1) by (simp add: sync_cat_main_def coro_cat_main_def end_of_run_def)
qed

theorem cats_agree_witness:
  "\<exists>e1 r1 w1 out e2 r2 s2 w2.
    sync_cat_main plain_subspan rw_clinux (\<lambda>w. dw_mem (rw_files w)) (\<lambda>ec. ''failed'') 4096 [''cat'', ''a'', ''b''] rw_start = Some (Inr (e1, r1, w1, out))
    \<and> coro_cat_main (cat_program plain_subspan rw_clinux rw_liburing demo_new (\<lambda>w. dw_mem (rw_files w)) 0) (\<lambda>ec. ''failed'') 7 0 [''cat'', ''a'', ''b'']
        (empty_store :: (cat_body, unit result) co_store) rw_start = Some (Inr (e2, r2, s2, w2))
    \<and> sync_cat plain_subspan rw_clinux (\<lambda>w. dw_mem (rw_files w)) 4096 (tl [''cat'', ''a'', ''b'']) rw_start [] = Some (Inr (r1, w1, out))
    \<and> coro_cat_run (cat_program plain_subspan rw_clinux rw_liburing demo_new (\<lambda>w. dw_mem (rw_files w)) 0) 7 0 (tl [''cat'', ''a'', ''b''])
        (empty_store :: (cat_body, unit result) co_store) rw_start = Some (Inr (r2, s2, w2))
    \<and> cat_ends (\<lambda>ec. ''failed'') (\<lambda>ec. \<exists>v. ec = errno_ec rw_clinux v)
        (concat (map (\<lambda>path. dw_file (rw_files rw_start) 6) (tl [''cat'', ''a'', ''b'']))) r1 out e1
    \<and> cat_ends (\<lambda>ec. ''failed'') (\<lambda>ec. ec_category ec = System_category \<or> (\<exists>v. ec = errno_ec rw_clinux v))
        (concat (map (\<lambda>path. dw_file (rw_files rw_start) 6) (tl [''cat'', ''a'', ''b'']))) r2 (co_stdout s2) e2
    \<and> (snd e1 = Exited 0 \<and> snd e2 = Exited 0 \<longrightarrow> out = co_stdout s2)"
proof (rule cats_agree [where dir = "\<lambda>w path. dw_file (rw_files w) 6" and sk = demo_sk and room = 8 and new = demo_new and ctx = 0,
      OF rw_blocking_laws _ rw_laws rw_cqe_res_range gsl_subspan_plain rw_submission_ok _ _ _ _ _ rw_calls_keep demo_new_law _ refl _
        rw_submit_law rw_wait_law rw_completion_law rw_waker_law rw_start_law])
  show "reads_keep rw_clinux (\<lambda>w path. dw_file (rw_files w) 6)"
    by (simp add: reads_keep_def rw_clinux_def rw_lift_def demo_readv_def demo_preadv2_def demo_scatter_def Let_def)
  show "open_law rw_clinux (\<lambda>n w. dw_file (rw_files w) n) (\<lambda>w path. dw_file (rw_files w) 6)"
    by (simp add: open_law_def rw_clinux_def)
  show "opens_files rw_clinux demo_sk" by (simp add: opens_files_def rw_clinux_def demo_sk_def)
  show "objects (empty_store :: (cat_body, unit result) co_store) + 3 < 8" by (simp add: objects_def empty_store_def)
  show "(\<lambda>path. dw_file (rw_files (snd (rw_perform (io_sqe Read_op n iov off) v))) 6) = (\<lambda>path. dw_file (rw_files v) 6)" for n iov off v
    by (simp add: rw_perform_io io_sqe_def demo_preadv2_def demo_readv_def demo_scatter_def Let_def case_prod_beta)
  show "co_stdout (empty_store :: (cat_body, unit result) co_store) = []" by (simp add: empty_store_def)
qed (simp_all add: io_view_def)

section \<open>The servers\<close>

text \<open>The blocking server serves for ever: if the process ends at all, it aborts with an error.\<close>

lemma sync_echo_never_exits:
  assumes "sync_echo_main ss k lib message buf raw w = Some (Inr (e, ec, w', out))"
  shows "e = (error_line message ec, Abort_signal)"
  using assms by (auto simp: sync_echo_main_def end_of_run_def main_end_def map_sum_eq_Inr)

end
