(* ===== verification/Ark_Ownership.thy ===== *)
theory Ark_Ownership
  imports Ark_Tcp
begin

text \<open>
  Who owns a descriptor. A program holds io objects of every class in variables (addresses); it creates
  them with the functions of \<open>general/\<close> and \<open>net/tcp/\<close>, moves them by construction and by
  assignment, seeks and feeds them, and destroys them. In every state it can reach, the descriptors that are
  open are those it found open and those its objects own, each owned by one object. The explicit
  \<open>close()\<close> is left out: it breaks this (\<open>closed_object_closes_another\<close>).
\<close>

section \<open>Objects of either class\<close>

definition io_owned :: "io_fd \<Rightarrow> int option" where
  "io_owned f = (case f of Nonseekable d \<Rightarrow> fd_owned d | Seekable s \<Rightarrow> seekable_owned s)"

lemma io_owned_simps [simp]:
  "io_owned (Nonseekable d) = fd_owned d" "io_owned (Seekable s) = seekable_owned s"
  "fd_owned (wrap_fd ctx n) = Some n" "seekable_owned (wrap_seekable ctx n) = Some n"
  by (simp_all add: io_owned_def fd_owned_def seekable_owned_def wrap_fd_def fd_move_def fd_create_def set_async_context_def
      wrap_seekable_def seekable_move_def seekable_fd_create_def)

type_synonym objects = "addr \<rightharpoonup> io_fd"

definition owner :: "objects \<Rightarrow> addr \<rightharpoonup> int" where
  "owner h a = Option.bind (h a) io_owned"

lemma owner_upd [simp]:
  "owner (h(a \<mapsto> f)) = (owner h)(a := io_owned f)" "owner (h(a := None)) = (owner h)(a := None)" "owner Map.empty = Map.empty"
  by (auto simp: owner_def fun_eq_iff)

section \<open>What a program does with them\<close>

text \<open>The calls that make objects, when they succeed.\<close>

inductive created :: "('w, 'z) net_clinux_scheme \<Rightarrow> 'w \<Rightarrow> io_fd list \<Rightarrow> 'w \<Rightarrow> bool" for k w where
  event: "event_fd_create k ctx count flags w = (Inr f, w') \<Longrightarrow> created k w [Nonseekable f] w'"
| mem: "mem_fd_create k ctx name flags w = (Inr f, w') \<Longrightarrow> created k w [Seekable f] w'"
| opened: "normal_file_open_mode k ctx path flags mode w = (Inr f, w') \<Longrightarrow> created k w [Seekable f] w'"
| mkostemp: "normal_file_mkostemp k ctx templ flags w = (Inr f, templ', w') \<Longrightarrow> created k w [Seekable f] w'"
| pipe: "pipe_fd_create k ctx w = (Inr (f_in, f_out), w') \<Longrightarrow> created k w [Nonseekable f_in, Nonseekable f_out] w'"
| socket: "socket_create k ctx v6 w = (Inr f, w') \<Longrightarrow> created k w [Nonseekable f] w'"
| acceptor: "acceptor_create k ctx v6 w = (Inr f, w') \<Longrightarrow> created k w [Nonseekable f] w'"
| accept: "sync_accept k srv w = Inr (Inr f, w') \<Longrightarrow> created k w [Nonseekable f] w'"
| accept_address: "sync_accept_address k srv ep w = Inr (Inr f, ep', w') \<Longrightarrow> created k w [Nonseekable f] w'"

text \<open>
  One step: the objects and the world before and after. \<open>other\<close> is everything that neither opens nor
  closes a descriptor, a failed creation included.
\<close>

inductive object_step ::
  "('w, 'z) net_clinux_scheme \<Rightarrow> ('w \<Rightarrow> int set) \<Rightarrow> objects \<times> 'w \<Rightarrow> objects \<times> 'w \<Rightarrow> bool" for k fds
where
  create: "\<lbrakk>created k w [f] w'; h a = None\<rbrakk> \<Longrightarrow> object_step k fds (h, w) (h(a \<mapsto> f), w')"
| create2: "\<lbrakk>created k w [f, g] w'; h a = None; h b = None; a \<noteq> b\<rbrakk> \<Longrightarrow> object_step k fds (h, w) (h(a \<mapsto> f, b \<mapsto> g), w')"
| move: "\<lbrakk>h a = Some (Nonseekable f); h b = None; fd_move f = (g, f')\<rbrakk>
    \<Longrightarrow> object_step k fds (h, w) (h(b \<mapsto> Nonseekable g, a \<mapsto> Nonseekable f'), w)"
| move_seekable: "\<lbrakk>h a = Some (Seekable f); h b = None; seekable_move f = (g, f')\<rbrakk>
    \<Longrightarrow> object_step k fds (h, w) (h(b \<mapsto> Seekable g, a \<mapsto> Seekable f'), w)"
| assign: "\<lbrakk>h a = Some (Nonseekable f); h b = Some (Nonseekable g); a \<noteq> b; fd_assign k g f w = (g', f', w')\<rbrakk>
    \<Longrightarrow> object_step k fds (h, w) (h(b \<mapsto> Nonseekable g', a \<mapsto> Nonseekable f'), w')"
| assign_seekable: "\<lbrakk>h a = Some (Seekable f); h b = Some (Seekable g); a \<noteq> b; seekable_assign k g f w = (g', f', w')\<rbrakk>
    \<Longrightarrow> object_step k fds (h, w) (h(b \<mapsto> Seekable g', a \<mapsto> Seekable f'), w')"
| destroy: "h a = Some (Nonseekable f) \<Longrightarrow> object_step k fds (h, w) (h(a := None), fd_destroy k f w)"
| destroy_seekable: "h a = Some (Seekable f) \<Longrightarrow> object_step k fds (h, w) (h(a := None), seekable_destroy k f w)"
| seek: "\<lbrakk>h a = Some (Seekable f); seekable_seek f off = Inr f'\<rbrakk> \<Longrightarrow> object_step k fds (h, w) (h(a \<mapsto> Seekable f'), w)"
| feed: "\<lbrakk>h a = Some (Seekable f); seekable_feed f n = Inr f'\<rbrakk> \<Longrightarrow> object_step k fds (h, w) (h(a \<mapsto> Seekable f'), w)"
| other: "fds w' = fds w \<Longrightarrow> object_step k fds (h, w) (h, w')"

section \<open>What the kernel promises\<close>

text \<open>
  A call that returns a descriptor returns one that was not open; close(2) releases it, whatever it returns.
\<close>

definition opens :: "('w \<Rightarrow> int set) \<Rightarrow> int \<Rightarrow> 'w \<Rightarrow> 'w \<Rightarrow> bool" where
  "opens fds n w w' \<longleftrightarrow> (if n = - 1 then fds w' = fds w else n \<notin> fds w \<and> fds w' = insert n (fds w))"

definition descriptor_law :: "('w, 'z) net_clinux_scheme \<Rightarrow> ('w \<Rightarrow> int set) \<Rightarrow> bool" where
  "descriptor_law k fds \<longleftrightarrow>
     (\<forall>n w. fds (snd (k_close k n w)) = fds w - {n})
     \<and> (\<forall>count flags w n w'. k_eventfd k count flags w = (n, w') \<longrightarrow> opens fds n w w')
     \<and> (\<forall>name flags w n w'. k_memfd_create k name flags w = (n, w') \<longrightarrow> opens fds n w w')
     \<and> (\<forall>path flags mode w n w'. k_open k path flags mode w = (n, w') \<longrightarrow> opens fds n w w')
     \<and> (\<forall>templ flags w n templ' w'. k_mkostemp k templ flags w = (n, templ', w') \<longrightarrow> opens fds n w w')
     \<and> (\<forall>flags w r n m w'. k_pipe2 k flags w = (r, n, m, w') \<longrightarrow>
          (if r = - 1 then fds w' = fds w else n \<notin> fds w \<and> m \<notin> fds w \<and> n \<noteq> m \<and> fds w' = insert n (insert m (fds w))))
     \<and> (\<forall>dom ty pr w n w'. k_socket k dom ty pr w = (n, w') \<longrightarrow> opens fds n w w')
     \<and> (\<forall>srv ad flags w n ad' w'. k_accept4 k srv ad flags w = (n, ad', w') \<longrightarrow> opens fds n w w')"

lemma descriptor_lawD:
  assumes "descriptor_law k fds"
  shows "fds (snd (k_close k n w)) = fds w - {n}"
    and "k_eventfd k count flags w = (n, w') \<Longrightarrow> opens fds n w w'"
    and "k_memfd_create k name flags w = (n, w') \<Longrightarrow> opens fds n w w'"
    and "k_open k name flags mode w = (n, w') \<Longrightarrow> opens fds n w w'"
    and "k_mkostemp k name flags w = (n, name', w') \<Longrightarrow> opens fds n w w'"
    and "k_pipe2 k flags w = (r, n, m, w') \<Longrightarrow> r \<noteq> - 1 \<Longrightarrow> n \<notin> fds w \<and> m \<notin> fds w \<and> n \<noteq> m \<and> fds w' = insert n (insert m (fds w))"
    and "k_socket k family ty pr w = (n, w') \<Longrightarrow> opens fds n w w'"
    and "k_accept4 k srv ad flags w = (n, ad', w') \<Longrightarrow> opens fds n w w'"
  using assms unfolding descriptor_law_def by metis+

definition new_owners :: "('w \<Rightarrow> int set) \<Rightarrow> io_fd list \<Rightarrow> 'w \<Rightarrow> 'w \<Rightarrow> bool" where
  "new_owners fds fs w w' \<longleftrightarrow> (\<exists>ns. map io_owned fs = map Some ns \<and> distinct ns \<and> set ns \<inter> fds w = {} \<and> fds w' = set ns \<union> fds w)"

lemma new_owner: "opens fds n w w' \<Longrightarrow> n \<noteq> - 1 \<Longrightarrow> io_owned f = Some n \<Longrightarrow> new_owners fds [f] w w'"
  unfolding new_owners_def by (intro exI [of _ "[n]"]) (simp add: opens_def)

lemma created_opens:
  assumes "descriptor_law k fds" "created k w fs w'"
  shows "new_owners fds fs w w'"
  using assms(2)
proof cases
  case (event ctx count flags f)
  then obtain n where c: "k_eventfd k count flags w = (n, w')" "n \<noteq> - 1" "f = wrap_fd ctx n"
    by (auto simp: event_fd_create_def split: prod.splits if_splits)
  show ?thesis unfolding event(1) c(3) by (rule new_owner [OF descriptor_lawD(2) [OF assms(1) c(1)] c(2)]) simp
next
  case (mem ctx name flags f)
  then obtain n where c: "k_memfd_create k (c_str name) flags w = (n, w')" "n \<noteq> - 1" "f = wrap_seekable ctx n"
    by (auto simp: mem_fd_create_def split: prod.splits if_splits)
  show ?thesis unfolding mem(1) c(3) by (rule new_owner [OF descriptor_lawD(3) [OF assms(1) c(1)] c(2)]) simp
next
  case (opened ctx path flags mode f)
  then obtain n where c: "k_open k (c_str path) flags mode w = (n, w')" "n \<noteq> - 1" "f = wrap_seekable ctx n"
    by (auto simp: normal_file_open_mode_def split: prod.splits if_splits)
  show ?thesis unfolding opened(1) c(3) by (rule new_owner [OF descriptor_lawD(4) [OF assms(1) c(1)] c(2)]) simp
next
  case (mkostemp ctx templ flags f templ')
  then obtain n t where c: "k_mkostemp k (c_str templ) flags w = (n, t, w')" "n \<noteq> - 1" "f = wrap_seekable ctx n"
    by (auto simp: normal_file_mkostemp_def Let_def split: prod.splits if_splits)
  show ?thesis unfolding mkostemp(1) c(3) by (rule new_owner [OF descriptor_lawD(5) [OF assms(1) c(1)] c(2)]) simp
next
  case (pipe ctx f_in f_out)
  then obtain r n m where "k_pipe2 k 0 w = (r, n, m, w')" "r \<noteq> - 1" "f_in = wrap_fd ctx n" "f_out = wrap_fd ctx m"
    by (auto simp: pipe_fd_create_def split: prod.splits if_splits)
  then show ?thesis using descriptor_lawD(6) [OF assms(1)] pipe(1) unfolding new_owners_def by (intro exI [of _ "[n, m]"]) auto
next
  case (socket ctx v6 f)
  then obtain n where c: "k_socket k (domain_of v6) 1 0 w = (n, w')" "n \<noteq> - 1" "f = wrap_fd ctx n"
    by (auto simp: socket_create_def split: prod.splits if_splits)
  show ?thesis unfolding socket(1) c(3) by (rule new_owner [OF descriptor_lawD(7) [OF assms(1) c(1)] c(2)]) simp
next
  case (acceptor ctx v6 f)
  then obtain n where c: "k_socket k (domain_of v6) 1 0 w = (n, w')" "n \<noteq> - 1" "f = wrap_fd ctx n"
    by (auto simp: acceptor_create_def split: prod.splits if_splits)
  show ?thesis unfolding acceptor(1) c(3) by (rule new_owner [OF descriptor_lawD(7) [OF assms(1) c(1)] c(2)]) simp
next
  case (accept srv f)
  then obtain m n st where c: "k_accept4 k m None 0 w = (n, st, w')" "n \<noteq> - 1" "f = wrap_fd None n"
    by (auto simp: sync_accept_def wrap_accepted_socket_def split: prod.splits if_splits sum.splits)
  show ?thesis unfolding accept(1) c(3) by (rule new_owner [OF descriptor_lawD(8) [OF assms(1) c(1)] c(2)]) simp
next
  case (accept_address srv ep f ep')
  then obtain m n st where c: "k_accept4 k m (Some (sa_len ep)) 0 w = (n, st, w')" "n \<noteq> - 1" "f = wrap_fd None n"
    by (auto simp: sync_accept_address_def wrap_accepted_socket_def Let_def split: prod.splits if_splits sum.splits)
  show ?thesis unfolding accept_address(1) c(3) by (rule new_owner [OF descriptor_lawD(8) [OF assms(1) c(1)] c(2)]) simp
qed

section \<open>The invariant\<close>

text \<open>
  Abstractly, a map from variables to descriptors. \<open>F\<close> are the descriptors that were open at the start, \<open>D\<close> those
  open now.
\<close>

definition owners_ok :: "int set \<Rightarrow> (addr \<rightharpoonup> int) \<Rightarrow> int set \<Rightarrow> bool" where
  "owners_ok F m D \<longleftrightarrow> inj_on m (dom m) \<and> ran m \<inter> F = {} \<and> D = F \<union> ran m"

lemma owners_new:
  assumes "owners_ok F m D" "n \<notin> D" "m a = None"
  shows "owners_ok F (m(a \<mapsto> n)) (insert n D)"
proof -
  have "ran (m(a \<mapsto> n)) = insert n (ran m)" using assms(3) by (rule ran_map_upd)
  moreover have "inj_on (m(a \<mapsto> n)) (dom (m(a \<mapsto> n)))"
    using assms unfolding owners_ok_def by (auto simp: inj_on_def ran_def)
  ultimately show ?thesis using assms by (auto simp: owners_ok_def)
qed

lemma owners_drop:
  assumes "owners_ok F m D"
  shows "owners_ok F (m(a := None)) (case m a of None \<Rightarrow> D | Some n \<Rightarrow> D - {n})"
proof (cases "m a")
  case None
  then have "m(a := None) = m" by auto
  with None assms show ?thesis by simp
next
  case (Some n)
  have "x = a" if "m x = Some n" for x using assms Some that unfolding owners_ok_def by (metis domI inj_onD)
  then have other: "m x = Some y \<and> x \<noteq> a \<longleftrightarrow> m x = Some y \<and> y \<noteq> n" for x y using Some by fastforce
  have "ran (m(a := None)) = {y. \<exists>x. m x = Some y \<and> x \<noteq> a}" by (auto simp: ran_def)
  then have "ran (m(a := None)) = ran m - {n}" unfolding other by (auto simp: ran_def)
  moreover have "n \<notin> F" using assms Some by (auto simp: owners_ok_def ran_def)
  moreover have "inj_on (m(a := None)) (dom (m(a := None)))" using assms unfolding owners_ok_def by (auto simp: inj_on_def)
  ultimately show ?thesis using assms Some by (auto simp: owners_ok_def)
qed

lemma owners_move:
  assumes "owners_ok F m D" "m b = None" "a \<noteq> b"
  shows "owners_ok F (m(b := m a, a := None)) D"
proof (cases "m a")
  case None
  then have "m(b := m a, a := None) = m" using assms(2) by auto
  with assms show ?thesis by simp
next
  case (Some n)
  have "owners_ok F (m(a := None)) (D - {n})" using owners_drop [OF assms(1), of a] Some by simp
  then have "owners_ok F ((m(a := None))(b \<mapsto> n)) (insert n (D - {n}))" by (rule owners_new) (use assms(2) in simp_all)
  moreover have "(m(a := None))(b \<mapsto> n) = m(b := m a, a := None)" using Some assms(3) by (auto simp: fun_eq_iff)
  moreover have "insert n (D - {n}) = D" using assms(1) Some by (auto simp: owners_ok_def ranI)
  ultimately show ?thesis by simp
qed

definition objects_ok :: "('w \<Rightarrow> int set) \<Rightarrow> int set \<Rightarrow> objects \<times> 'w \<Rightarrow> bool" where
  "objects_ok fds F st \<longleftrightarrow> (case st of (h, w) \<Rightarrow> owners_ok F (owner h) (fds w))"

text \<open>A move assignment gives back what the target owned and then moves.\<close>

lemma owners_assign:
  assumes "owners_ok F (owner h) (fds w)" "descriptor_law k fds" "a \<noteq> b" "owner h b = r" "owner h a = io_owned g'" "io_owned f' = None"
    and "w' = give_back (\<lambda>n w. snd (k_close k n w)) r w"
  shows "owners_ok F (owner (h(b \<mapsto> g', a \<mapsto> f'))) (fds w')"
proof -
  have "owners_ok F ((owner h)(b := None)) (fds w')"
    using owners_drop [OF assms(1), of b] assms(4,7) by (simp add: descriptor_lawD(1) [OF assms(2)] split: option.splits)
  from owners_move [OF this _ assms(3)] assms(3,5,6) show ?thesis by simp
qed

lemma object_step_ok:
  assumes "object_step k fds st st'" "descriptor_law k fds" "objects_ok fds F st"
  shows "objects_ok fds F st'"
  using assms(1,3)
proof cases
  case (create w f w' h a)
  obtain n where "io_owned f = Some n" "n \<notin> fds w" "fds w' = insert n (fds w)"
    using created_opens [OF assms(2) create(3)] by (auto simp: new_owners_def)
  moreover have "owner h a = None" using create(4) by (simp add: owner_def)
  ultimately show ?thesis using assms(3) create(1,2) by (simp add: objects_ok_def owners_new)
next
  case (create2 w f g w' h a b)
  obtain n m where nm: "io_owned f = Some n" "io_owned g = Some m" "n \<notin> fds w" "m \<notin> fds w" "n \<noteq> m" "fds w' = insert n (insert m (fds w))"
    using created_opens [OF assms(2) create2(3)] by (auto simp: new_owners_def Cons_eq_map_conv)
  have none: "owner h a = None" "owner h b = None" using create2(4,5) by (simp_all add: owner_def)
  have "owners_ok F ((owner h)(a \<mapsto> n)) (insert n (fds w))" using assms(3) create2(1) nm(3) none(1) by (simp add: objects_ok_def owners_new)
  then have "owners_ok F ((owner h)(a \<mapsto> n, b \<mapsto> m)) (insert m (insert n (fds w)))"
    by (rule owners_new) (use nm(4,5) none(2) create2(6) in simp_all)
  then show ?thesis using create2(2) nm(1,2,6) by (simp add: objects_ok_def insert_commute)
next
  case (move h a f b g f' w)
  then have "a \<noteq> b" "owner h b = None" "fd_owned g = owner h a" "fd_owned f' = None"
    using fd_owner.move_owned [OF move(5)] by (auto simp: owner_def)
  then show ?thesis using assms(3) move(1,2) owners_move [of F "owner h" "fds w" b a] by (simp add: objects_ok_def)
next
  case (move_seekable h a f b g f' w)
  then have "a \<noteq> b" "owner h b = None" "seekable_owned g = owner h a" "seekable_owned f' = None"
    using seekable_owner.move_owned [OF move_seekable(5)] by (auto simp: owner_def)
  then show ?thesis using assms(3) move_seekable(1,2) owners_move [of F "owner h" "fds w" b a] by (simp add: objects_ok_def)
next
  case (assign h a f b g w g' f' w')
  then show ?thesis
    using assms(3) fd_owner.assign_owned [OF assign(6)]
    unfolding assign(1,2) objects_ok_def prod.case by (intro owners_assign [OF _ assms(2)]) (simp_all add: owner_def)
next
  case (assign_seekable h a f b g w g' f' w')
  then show ?thesis
    using assms(3) seekable_owner.assign_owned [OF assign_seekable(6)]
    unfolding assign_seekable(1,2) objects_ok_def prod.case by (intro owners_assign [OF _ assms(2)]) (simp_all add: owner_def)
next
  case (destroy h a f w)
  then show ?thesis
    using assms(3) owners_drop [of F "owner h" "fds w" a]
    by (simp add: objects_ok_def fd_owner.destroy_owned owner_def [of h a] descriptor_lawD(1) [OF assms(2)] give_back_def split: option.splits)
next
  case (destroy_seekable h a f w)
  then show ?thesis
    using assms(3) owners_drop [of F "owner h" "fds w" a]
    by (simp add: objects_ok_def seekable_owner.destroy_owned owner_def [of h a] descriptor_lawD(1) [OF assms(2)] give_back_def split: option.splits)
next
  case (seek h a f off f' w)
  then have "io_owned (Seekable f') = owner h a" by (auto simp: seekable_seek_def seekable_owned_def owner_def split: option.splits)
  then show ?thesis using assms(3) seek(1,2) by (simp add: objects_ok_def)
next
  case (feed h a f n f' w)
  then have "io_owned (Seekable f') = owner h a" by (auto simp: seekable_feed_def seekable_owned_def owner_def split: option.splits if_splits)
  then show ?thesis using assms(3) feed(1,2) by (simp add: objects_ok_def)
next
  case (other w' w h)
  then show ?thesis using assms(3) by (simp add: objects_ok_def)
qed

text \<open>
  C11. Descriptors are owned once. Whatever a program does with io objects, short of closing them explicitly:
  a descriptor that an object owns is open, was not open before the program started, and has no
  other owner, so that the object closes what it opened and nothing else; every other open descriptor was
  open before, and none of those has been closed. When the last object is gone no descriptor has leaked.
\<close>

theorem descriptors_owned_once:
  assumes "descriptor_law k fds" and "(object_step k fds)\<^sup>*\<^sup>* (Map.empty, w0) (h, w)"
  shows "(\<forall>a f n. h a = Some f \<and> io_owned f = Some n \<longrightarrow>
        n \<in> fds w \<and> n \<notin> fds w0 \<and> (\<forall>b g. h b = Some g \<and> io_owned g = Some n \<longrightarrow> b = a))
    \<and> (\<forall>n \<in> fds w. n \<in> fds w0 \<or> (\<exists>a f. h a = Some f \<and> io_owned f = Some n))
    \<and> fds w0 \<subseteq> fds w \<and> (h = Map.empty \<longrightarrow> fds w = fds w0)"
proof -
  have "objects_ok fds (fds w0) st" if "(object_step k fds)\<^sup>*\<^sup>* (Map.empty, w0) st" for st
    using that
  proof (induction rule: rtranclp_induct)
    case base
    show ?case by (simp add: objects_ok_def owners_ok_def)
  next
    case (step st st')
    then show ?case using object_step_ok assms(1) by blast
  qed
  with assms(2) have ok: "owners_ok (fds w0) (owner h) (fds w)" by (auto simp: objects_ok_def)
  have owns: "owner h a = Some n \<longleftrightarrow> (\<exists>f. h a = Some f \<and> io_owned f = Some n)" for a n
    by (auto simp: owner_def bind_eq_Some_conv)
  have unique: "b = a" if "owner h a = Some n" "owner h b = Some n" for a b n
    using ok that unfolding owners_ok_def by (metis domI inj_onD)
  have all: "n \<in> fds w \<longleftrightarrow> n \<in> fds w0 \<or> (\<exists>a. owner h a = Some n)" for n using ok by (auto simp: owners_ok_def ran_def)
  have new: "n \<notin> fds w0" if "owner h a = Some n" for a n using ok that by (auto simp: owners_ok_def ran_def)
  have "n \<in> fds w \<and> n \<notin> fds w0 \<and> (\<forall>b g. h b = Some g \<and> io_owned g = Some n \<longrightarrow> b = a)" if "h a = Some f \<and> io_owned f = Some n" for a f n
    using unique new all owns that by blast
  moreover have "\<forall>n \<in> fds w. n \<in> fds w0 \<or> (\<exists>a f. h a = Some f \<and> io_owned f = Some n)" using all owns by blast
  moreover have "fds w0 \<subseteq> fds w" using all by blast
  moreover have "fds w = fds w0" if "h = Map.empty" using all that by (simp add: set_eq_iff)
  ultimately show ?thesis by blast
qed

text \<open>A table of open descriptors, in which eventfd(2) takes the first number after the largest.\<close>

definition unused :: "int list \<Rightarrow> int" where
  "unused w = foldr max w 0 + 1"

lemma unused_greater: "n \<in> set w \<Longrightarrow> n < unused w"
  by (induction w) (auto simp: unused_def)

lemma unused_new: "unused w \<notin> set w" "unused w \<noteq> - 1"
proof -
  show "unused w \<notin> set w" using unused_greater [of "unused w" w] by auto
  have "0 \<le> foldr max w 0" by (induction w) auto
  then show "unused w \<noteq> - 1" by (simp add: unused_def)
qed

definition table_clinux :: "int list net_clinux" where
  "table_clinux = clinux.extend
     (failing_clinux\<lparr>k_close := (\<lambda>n w. (0, removeAll n w)), k_eventfd := (\<lambda>count flags w. (unused w, unused w # w))\<rparr>)
     \<lparr>k_socket = (\<lambda>f t p w. (- 1, w)), k_bind = (\<lambda>n a len w. (- 1, w)), k_listen = (\<lambda>n b w. (- 1, w)),
      k_connect = (\<lambda>n a len w. (- 1, w)), k_accept4 = (\<lambda>n len flags w. (- 1, [], w))\<rparr>"

lemma table_clinux_sel [simp]:
  "k_close table_clinux n w = (0, removeAll n w)" "k_eventfd table_clinux count flags w = (unused w, unused w # w)"
  by (simp_all add: table_clinux_def clinux.defs)

lemma table_law: "descriptor_law table_clinux set"
  unfolding descriptor_law_def opens_def using unused_new by (auto simp: table_clinux_def clinux.defs failing_clinux_def)

theorem descriptors_owned_once_witness:
  "\<exists>h w. (object_step table_clinux set)\<^sup>*\<^sup>* (Map.empty, [0, 1, 2]) (h, w) \<and> h 8 = Some (Nonseekable (wrap_fd None 3))
    \<and> 3 \<in> set w \<and> (\<forall>b g. h b = Some g \<and> io_owned g = Some 3 \<longrightarrow> b = 8)"
proof -
  let ?f = "wrap_fd None 3" and ?w = "[3, 0, 1, 2] :: int list" and ?step = "object_step table_clinux set"
  obtain f' where f': "fd_move ?f = (?f, f')" by (simp add: fd_move_def)
  have "created table_clinux [0, 1, 2] [Nonseekable ?f] ?w"
    by (rule created.event [where ctx = None and count = 0 and flags = 0]) (simp add: event_fd_create_def unused_def)
  then have first: "?step (Map.empty, [0, 1, 2]) ([7 \<mapsto> Nonseekable ?f], ?w)" by (rule object_step.create) simp
  have second: "?step ([7 \<mapsto> Nonseekable ?f], ?w) ([7 \<mapsto> Nonseekable ?f, 8 \<mapsto> Nonseekable ?f, 7 \<mapsto> Nonseekable f'], ?w)"
    by (rule object_step.move [OF _ _ f']) simp_all
  have run: "?step\<^sup>*\<^sup>* (Map.empty, [0, 1, 2]) ([7 \<mapsto> Nonseekable ?f, 8 \<mapsto> Nonseekable ?f, 7 \<mapsto> Nonseekable f'], ?w)"
    using first second by (meson r_into_rtranclp rtranclp.rtrancl_into_rtrancl)
  let ?h = "[(7 :: addr) \<mapsto> Nonseekable ?f, 8 \<mapsto> Nonseekable ?f, 7 \<mapsto> Nonseekable f']"
  have here: "?h 8 = Some (Nonseekable ?f) \<and> io_owned (Nonseekable ?f) = Some 3" by simp
  have "3 \<in> set ?w \<and> 3 \<notin> set [0, 1, 2 :: int] \<and> (\<forall>b g. ?h b = Some g \<and> io_owned g = Some 3 \<longrightarrow> b = 8)"
    by (rule descriptors_owned_once [OF table_law run, THEN conjunct1, rule_format, OF here])
  with run conjunct1 [OF here] show ?thesis by (intro exI [of _ ?h] exI [of _ ?w] conjI) (assumption | erule conjE)+
qed

section \<open>All or nothing\<close>

text \<open>
  What a creation function promises, given the descriptor and the world its system call returned: if the kernel
  refuses, its errno and no descriptor more than before; otherwise an object that owns the new
  descriptor, and whose destruction releases it again.
\<close>

definition creation ::
  "('w, 'z) clinux_scheme \<Rightarrow> ('w \<Rightarrow> int set) \<Rightarrow> (int \<Rightarrow> 'o \<Rightarrow> bool) \<Rightarrow> ('o \<Rightarrow> 'w \<Rightarrow> 'w) \<Rightarrow> 'w \<Rightarrow> int \<times> 'w \<Rightarrow> 'o result \<times> 'w \<Rightarrow> bool"
where
  "creation k fds owns destroy w call out \<longleftrightarrow>
     (case (call, out) of ((n, w1), (r, w')) \<Rightarrow> w' = w1 \<and>
        (case r of
           Inl ec \<Rightarrow> n = - 1 \<and> ec = errno_ec k w' \<and> fds w' = fds w
         | Inr f \<Rightarrow> n \<noteq> - 1 \<and> owns n f \<and> n \<notin> fds w \<and> fds w' = insert n (fds w) \<and> fds (destroy f w') = fds w))"

lemma creation_wrap:
  assumes "descriptor_law k fds" and "opens fds n w w1" and "n \<noteq> - 1"
  shows "creation k fds (owns_fd k ctx) (fd_destroy k) w (n, w1) (Inr (wrap_fd ctx n), w1)"
    and "creation k fds (owns_seekable k ctx) (seekable_destroy k) w (n, w1) (Inr (wrap_seekable ctx n), w1)"
  using assms(2,3) by (auto simp: creation_def opens_def wrap_fd_sel wrap_seekable_sel descriptor_lawD(1) [OF assms(1)])

lemma creation_refused: "opens fds (- 1) w w1 \<Longrightarrow> creation k fds owns destroy w (- 1, w1) (Inl (errno_ec k w1), w1)"
  by (simp add: creation_def opens_def)

lemma created_general:
  assumes "descriptor_law k fds"
  shows "creation k fds (owns_fd k ctx) (fd_destroy k) w (k_eventfd k count flags w) (event_fd_create k ctx count flags w)"
    and "creation k fds (owns_seekable k ctx) (seekable_destroy k) w (k_memfd_create k (c_str name) flags w) (mem_fd_create k ctx name flags w)"
    and "creation k fds (owns_seekable k ctx) (seekable_destroy k) w (k_open k (c_str name) flags mode w) (normal_file_open_mode k ctx name flags mode w)"
    and "case (k_mkostemp k (c_str name) flags w, normal_file_mkostemp k ctx name flags w) of ((n, letters, w1), (r, name', w')) \<Rightarrow>
      creation k fds (owns_seekable k ctx) (seekable_destroy k) w (n, w1) (r, w')"
  by (auto intro!: creation_wrap [OF assms] creation_refused dest: descriptor_lawD(2-5) [OF assms]
      simp: event_fd_create_def mem_fd_create_def normal_file_open_mode_def normal_file_mkostemp_def Let_def split: prod.splits if_splits)

lemma created_pipe:
  assumes "descriptor_law k fds" and "k_pipe2 k 0 w = (n, rd, wr, w1)" and "pipe_fd_create k ctx w = (r, w')"
  shows "w' = w1 \<and>
    (case r of
       Inl ec \<Rightarrow> n = - 1 \<and> ec = errno_ec k w' \<and> fds w' = fds w
     | Inr (f_in, f_out) \<Rightarrow> n \<noteq> - 1 \<and> owns_fd k ctx rd f_in \<and> owns_fd k ctx wr f_out \<and> rd \<noteq> wr
         \<and> {rd, wr} \<inter> fds w = {} \<and> fds w' = {rd, wr} \<union> fds w \<and> fds (fd_destroy k f_out (fd_destroy k f_in w')) = fds w)"
proof -
  have "n = - 1 \<Longrightarrow> fds w1 = fds w" using assms(1,2) unfolding descriptor_law_def by metis
  with assms(2,3) descriptor_lawD(6) [OF assms(1,2)] show ?thesis
    by (auto simp: pipe_fd_create_def wrap_fd_sel descriptor_lawD(1) [OF assms(1)] split: if_splits)
qed

lemma created_socket:
  assumes "descriptor_law k fds"
  shows "creation k fds (owns_fd k ctx) (fd_destroy k) w (k_socket k (if v6 then 10 else 2) 1 0 w) (socket_create k ctx v6 w)"
    and "creation k fds (owns_fd k ctx) (fd_destroy k) w (k_socket k (if v6 then 10 else 2) 1 0 w) (acceptor_create k ctx v6 w)"
proof -
  obtain n w1 where call: "k_socket k (if v6 then 10 else 2) 1 0 w = (n, w1)" by fastforce
  note descriptor_lawD(7) [OF assms call]
  then show "creation k fds (owns_fd k ctx) (fd_destroy k) w (k_socket k (if v6 then 10 else 2) 1 0 w) (socket_create k ctx v6 w)"
    "creation k fds (owns_fd k ctx) (fd_destroy k) w (k_socket k (if v6 then 10 else 2) 1 0 w) (acceptor_create k ctx v6 w)"
    unfolding socket_create_def acceptor_create_def domain_of_def call by (auto intro!: creation_wrap [OF assms] creation_refused)
qed

lemma created_accept:
  assumes "descriptor_law k fds" and "fd_get srv = Inr a"
  shows "case k_accept4 k a None 0 w of (n, stored, w1) \<Rightarrow>
      \<exists>out. sync_accept k srv w = Inr out \<and> creation k fds (owns_fd k None) (fd_destroy k) w (n, w1) out"
    and "case k_accept4 k a (Some 128) 0 w of (n, stored, w1) \<Rightarrow>
      \<exists>r ep' w'. sync_accept_address k srv ep w = Inr (r, ep', w')
        \<and> creation k fds (owns_fd k None) (fd_destroy k) w (n, w1) (r, w') \<and> sa ep' = put_bytes 0 stored (sa ep)"
  using assms(2)
  by (auto intro!: creation_wrap [OF assms(1)] creation_refused dest: descriptor_lawD(8) [OF assms(1)]
      simp: sync_accept_def sync_accept_address_def wrap_accepted_socket_def sa_len_def Let_def split: prod.splits if_splits)

text \<open>
  C28. Creation of io objects is all or nothing, for every function that makes one: event_fd, mem_fd, normal_file by
  open with any mode, with the default mode 0755 and by mkostemp, pipes, sockets, acceptors, and blocking accepts
  with and without an address. If the kernel refuses, the result is its errno and no descriptor stays open; otherwise
  the object owns exactly the descriptor the kernel returned, which was not open before, and is the only one that is
  open now: it gives its number, is bound to the context asked for (an accepted socket to none, even if its acceptor
  is bound to one), starts at offset 0 if it is seekable, and its destruction leaves the descriptors open that were open before. A pipe owns
  both ends, the read end first.
\<close>

theorem creations_all_or_nothing:
  assumes "descriptor_law k fds"
  shows "creation k fds (owns_fd k ctx) (fd_destroy k) w (k_eventfd k count flags w) (event_fd_create k ctx count flags w)
    \<and> creation k fds (owns_seekable k ctx) (seekable_destroy k) w (k_memfd_create k (c_str name) flags w) (mem_fd_create k ctx name flags w)
    \<and> creation k fds (owns_seekable k ctx) (seekable_destroy k) w (k_open k (c_str name) flags mode w) (normal_file_open_mode k ctx name flags mode w)
    \<and> creation k fds (owns_seekable k ctx) (seekable_destroy k) w (k_open k (c_str name) flags 493 w) (normal_file_open k ctx name flags w)
    \<and> (case (k_mkostemp k (c_str name) flags w, normal_file_mkostemp k ctx name flags w) of ((n, letters, w1), (r, name', w')) \<Rightarrow>
         creation k fds (owns_seekable k ctx) (seekable_destroy k) w (n, w1) (r, w'))
    \<and> (case (k_pipe2 k 0 w, pipe_fd_create k ctx w) of ((n, rd, wr, w1), (r, w')) \<Rightarrow> w' = w1 \<and>
         (case r of
            Inl ec \<Rightarrow> n = - 1 \<and> ec = errno_ec k w' \<and> fds w' = fds w
          | Inr (f_in, f_out) \<Rightarrow> n \<noteq> - 1 \<and> owns_fd k ctx rd f_in \<and> owns_fd k ctx wr f_out \<and> rd \<noteq> wr
              \<and> {rd, wr} \<inter> fds w = {} \<and> fds w' = {rd, wr} \<union> fds w \<and> fds (fd_destroy k f_out (fd_destroy k f_in w')) = fds w))
    \<and> creation k fds (owns_fd k ctx) (fd_destroy k) w (k_socket k (if v6 then 10 else 2) 1 0 w) (socket_create k ctx v6 w)
    \<and> creation k fds (owns_fd k ctx) (fd_destroy k) w (k_socket k (if v6 then 10 else 2) 1 0 w) (acceptor_create k ctx v6 w)
    \<and> (case sync_accept k srv w of
         Inl e \<Rightarrow> fd_get srv = Inl e
       | Inr out \<Rightarrow> (\<exists>a. fd_get srv = Inr a \<and> (case k_accept4 k a None 0 w of (n, stored, w1) \<Rightarrow>
           creation k fds (owns_fd k None) (fd_destroy k) w (n, w1) out)))
    \<and> (case sync_accept_address k srv ep w of
         Inl e \<Rightarrow> fd_get srv = Inl e
       | Inr (r, ep', w') \<Rightarrow> (\<exists>a. fd_get srv = Inr a \<and> (case k_accept4 k a (Some 128) 0 w of (n, stored, w1) \<Rightarrow>
           creation k fds (owns_fd k None) (fd_destroy k) w (n, w1) (r, w') \<and> sa ep' = put_bytes 0 stored (sa ep))))"
proof (intro conjI)
  show "case (k_pipe2 k 0 w, pipe_fd_create k ctx w) of ((n, rd, wr, w1), (r, w')) \<Rightarrow> w' = w1 \<and>
      (case r of
         Inl ec \<Rightarrow> n = - 1 \<and> ec = errno_ec k w' \<and> fds w' = fds w
       | Inr (f_in, f_out) \<Rightarrow> n \<noteq> - 1 \<and> owns_fd k ctx rd f_in \<and> owns_fd k ctx wr f_out \<and> rd \<noteq> wr
           \<and> {rd, wr} \<inter> fds w = {} \<and> fds w' = {rd, wr} \<union> fds w \<and> fds (fd_destroy k f_out (fd_destroy k f_in w')) = fds w)"
    by (clarsimp simp only: prod.case split: prod.split) (rule created_pipe [OF assms])
  show "case sync_accept k srv w of
      Inl e \<Rightarrow> fd_get srv = Inl e
    | Inr out \<Rightarrow> (\<exists>a. fd_get srv = Inr a \<and> (case k_accept4 k a None 0 w of (n, stored, w1) \<Rightarrow>
        creation k fds (owns_fd k None) (fd_destroy k) w (n, w1) out))"
    using created_accept(1) [OF assms, of srv _ w] by (cases "fd_get srv") (force simp: sync_accept_def)+
  show "case sync_accept_address k srv ep w of
      Inl e \<Rightarrow> fd_get srv = Inl e
    | Inr (r, ep', w') \<Rightarrow> (\<exists>a. fd_get srv = Inr a \<and> (case k_accept4 k a (Some 128) 0 w of (n, stored, w1) \<Rightarrow>
        creation k fds (owns_fd k None) (fd_destroy k) w (n, w1) (r, w') \<and> sa ep' = put_bytes 0 stored (sa ep)))"
    using created_accept(2) [OF assms, of srv _ ep w] by (cases "fd_get srv") (force simp: sync_accept_address_def)+
  show "creation k fds (owns_seekable k ctx) (seekable_destroy k) w (k_open k (c_str name) flags 493 w) (normal_file_open k ctx name flags w)"
    using created_general(3) [OF assms, of ctx w name flags 493] by (simp add: normal_file_open_def)
qed (rule created_general [OF assms] created_socket [OF assms])+

theorem creations_all_or_nothing_witness:
  "creation table_clinux set (owns_fd table_clinux (Some 7)) (fd_destroy table_clinux) [0, 1, 2] (3, [3, 0, 1, 2])
     (event_fd_create table_clinux (Some 7) 0 0 [0, 1, 2])
   \<and> creation table_clinux set (owns_fd table_clinux None) (fd_destroy table_clinux) [0, 1, 2] (- 1, [0, 1, 2])
     (socket_create table_clinux None True [0, 1, 2])"
proof -
  have "k_eventfd table_clinux 0 0 [0, 1, 2] = (3, [3, 0, 1, 2])" "k_socket table_clinux 10 1 0 [0, 1, 2] = (- 1, [0, 1, 2])"
    by (simp_all add: unused_def table_clinux_def clinux.defs)
  then show ?thesis
    using creations_all_or_nothing [OF table_law, of "Some 7" "[0, 1, 2]" 0 0]
      creations_all_or_nothing [OF table_law, of None "[0, 1, 2]" 0 0 _ _ True]
    by (simp only: if_True)
qed

section \<open>Explicit close\<close>

text \<open>\<open>close()\<close> of an object of either class.\<close>

definition io_close :: "('w, 'z) clinux_scheme \<Rightarrow> io_fd \<Rightarrow> 'w \<Rightarrow> unit result \<times> io_fd \<times> 'w" where
  "io_close k f w =
     (case f of
        Nonseekable d \<Rightarrow> (case fd_close k d w of (r, d', w') \<Rightarrow> (r, Nonseekable d', w'))
      | Seekable s \<Rightarrow> (case seekable_close k s w of (r, s', w') \<Rightarrow> (r, Seekable s', w')))"

lemma io_close_keeps:
  assumes "io_owned f = Some n" and "io_close k f w = (r, f', w1)"
  shows "f' = f" and "w1 = snd (k_close k n w)" and "r = Inr () \<longleftrightarrow> fst (k_close k n w) = 0"
  using assms
  by (auto simp: io_close_def fd_close_def seekable_close_def base_close_def fd_owned_def seekable_owned_def
      split: io_fd.splits option.splits prod.splits if_splits)

lemma io_destroy_closes: "io_owned f = Some n \<Longrightarrow> io_destroy k f w = snd (k_close k n w)"
  by (cases f) (simp_all add: io_destroy_def fd_owner.destroy_owned seekable_owner.destroy_owned)

text \<open>
  C39. An object that was closed explicitly can close the descriptor of another one. \<open>close()\<close> succeeds when the kernel
  does and releases the descriptor, but the object still owns its number, for both classes. When the kernel gives the number out again, so
  that a newer object owns it, the destruction of the first one closes it: the newer object owns a
  descriptor that is not open.
\<close>

theorem closed_object_closes_another:
  assumes "descriptor_law k fds" and "io_owned f = Some n" and "io_close k f w = (r, f', w1)"
    and "created k w1 [g] w2" and "io_owned g = Some n"
  shows "(r = Inr () \<longleftrightarrow> fst (k_close k n w) = 0) \<and> n \<notin> fds w1 \<and> io_owned f' = Some n
    \<and> n \<in> fds w2 \<and> n \<notin> fds (io_destroy k f' w2)"
proof -
  note closed = io_close_keeps [OF assms(2,3)]
  have "n \<in> fds w2" using created_opens [OF assms(1,4)] assms(5) by (auto simp: new_owners_def)
  with closed assms(2) show ?thesis
    by (simp add: descriptor_lawD(1) [OF assms(1)] io_destroy_closes [OF assms(2)])
qed

theorem closed_object_closes_another_witness:
  "\<exists>r f' g w2. io_close table_clinux (Nonseekable (wrap_fd None 3)) [3, 0, 1, 2] = (r, f', [0, 1, 2])
     \<and> created table_clinux [0, 1, 2] [g] w2 \<and> io_owned g = Some 3 \<and> 3 \<in> set w2 \<and> 3 \<notin> set (io_destroy table_clinux f' w2)"
proof -
  obtain r f' where close: "io_close table_clinux (Nonseekable (wrap_fd None 3)) [3, 0, 1, 2] = (r, f', [0, 1, 2])"
    by (simp add: io_close_def fd_close_def wrap_fd_def fd_move_def fd_create_def set_async_context_def base_close_def)
  have new: "created table_clinux [0, 1, 2] [Nonseekable (wrap_fd None 3)] [3, 0, 1, 2]"
    by (rule created.event [where ctx = None and count = 0 and flags = 0]) (simp add: event_fd_create_def unused_def)
  have "3 \<in> set [3, 0, 1, 2 :: int] \<and> 3 \<notin> set (io_destroy table_clinux f' [3, 0, 1, 2])"
    using closed_object_closes_another [OF table_law _ close new] by simp
  with close new show ?thesis by (metis io_owned_simps(1,3))
qed

end
