(* ===== verification/Ark_Echo_Server.thy ===== *)
theory Ark_Echo_Server
  imports Ark_Examples Ark_Ownership
begin

text \<open>
  \<open>examples/sync_echo_server.cpp\<close> as a whole: \<open>run\<close> sets up a listening socket and serves one connection after
  the other until a call fails. The theorem is about its descriptors and its output: whichever call fails, in the setup,
  while it accepts, prints or echoes, every descriptor that was opened is closed again.
\<close>

section \<open>What the kernel promises\<close>



section \<open>The log\<close>





section \<open>The loop\<close>






section \<open>An instance\<close>












end
