(* ===== verification/Ark_Promise.thy ===== *)
theory Ark_Promise
  imports Ark_Coroutine "HOL-Library.Multiset"
begin

text \<open>
  The lifetime of what a task returns, and the contract of awaitable operations. \<open>manual_lifetime\<close> lets its user construct and destroy by hand;
  the locale \<open>storage\<close> is what the promise of a task relies on, for values as for references.
  \<open>task_promise\<close> must not leak a value or destroy it twice, whichever operations come in whichever order.
\<close>

section \<open>Storage\<close>

text \<open>
  \<open>alive\<close>: there is an object. \<open>content\<close>: the value it has, unless it was moved out. \<open>destroyed\<close> counts
  the values whose destructor ran.
\<close>

locale storage =
  fixes construct :: "'v \<Rightarrow> 's \<Rightarrow> 's"
    and destruct :: "'s \<Rightarrow> 'v list \<Rightarrow> failure + 's \<times> 'v list"
    and get :: "'s \<Rightarrow> failure + 'v \<times> 's"
    and alive :: "'s \<Rightarrow> bool"
    and owned_value :: "'s \<Rightarrow> 'v multiset"
  assumes construct_alive: "\<not> alive s \<Longrightarrow> alive (construct v s)"
    and construct_owns: "\<not> alive s \<Longrightarrow> owned_value (construct v s) \<subseteq># {#v#}"
    and construct_get: "\<not> alive s \<Longrightarrow> \<exists>s'. get (construct v s) = Inr (v, s') \<and> alive s'"
    and get_owns: "alive s \<Longrightarrow> get s = Inr (v, s') \<Longrightarrow> alive s' \<and> owned_value s' = owned_value s - {#v#}"
    and destruct_alive: "alive s \<Longrightarrow> \<exists>s' l'. destruct s l = Inr (s', l') \<and> \<not> alive s' \<and> mset l' = mset l + owned_value s"
    and dead_owns: "\<not> alive s \<Longrightarrow> owned_value s = {#}"
begin

text \<open>Taken or not, the value of a construction is gone exactly once.\<close>

lemma construct_destruct:
  assumes "\<not> alive s"
  shows "\<exists>s' l'. destruct (construct v s) l = Inr (s', l') \<and> \<not> alive s' \<and> mset l' = mset l + owned_value (construct v s)"
  using destruct_alive [OF construct_alive [OF assms]] .

lemma construct_get_destruct:
  assumes "\<not> alive s"
  shows "\<exists>s1 s2 l'. get (construct v s) = Inr (v, s1) \<and> destruct s1 l = Inr (s2, l') \<and> \<not> alive s2 \<and> mset l' = mset l"
proof -
  obtain s1 where s1: "get (construct v s) = Inr (v, s1)" "alive s1" using construct_get [OF assms] by blast
  have "owned_value s1 = {#}"
    using get_owns [OF construct_alive [OF assms] s1(1)] construct_owns [OF assms, of v]
    by (metis Diff_eq_empty_iff_mset)
  then show ?thesis using s1 destruct_alive [OF s1(2), of l] by auto
qed

end

fun lifetime_alive :: "'v lifetime \<Rightarrow> bool" where
  "lifetime_alive No_object = False"
| "lifetime_alive _ = True"

fun lifetime_owns :: "'v lifetime \<Rightarrow> 'v multiset" where
  "lifetime_owns (Object v) = {#v#}"
| "lifetime_owns _ = {#}"

interpretation value_storage: storage lifetime_construct "lifetime_destruct (#)" lifetime_get lifetime_alive lifetime_owns
proof
  fix s :: "'v lifetime" and v :: 'v and l
  show "\<not> lifetime_alive s \<Longrightarrow> lifetime_alive (lifetime_construct v s)"
    and "\<not> lifetime_alive s \<Longrightarrow> lifetime_owns (lifetime_construct v s) \<subseteq># {#v#}"
    and "\<not> lifetime_alive s \<Longrightarrow> \<exists>s'. lifetime_get (lifetime_construct v s) = Inr (v, s') \<and> lifetime_alive s'"
    and "\<not> lifetime_alive s \<Longrightarrow> lifetime_owns s = {#}"
    by (cases s; simp add: lifetime_construct_def lifetime_get_def)+
  show "lifetime_alive s \<Longrightarrow> \<exists>s' l'. lifetime_destruct (#) s l = Inr (s', l') \<and> \<not> lifetime_alive s' \<and> mset l' = mset l + lifetime_owns s"
    by (cases s) (simp_all add: lifetime_destruct_def)
  fix s' assume "lifetime_alive s" "lifetime_get s = Inr (v, s')"
  then show "lifetime_alive s' \<and> lifetime_owns s' = lifetime_owns s - {#v#}"
    by (cases s) (auto simp: lifetime_get_def)
qed

text \<open>A reference owns nothing, and can be read any number of times.\<close>

interpretation reference_storage: storage lifetime_ref_construct "\<lambda>p l. Inr (lifetime_ref_destruct p, l)"
  "\<lambda>p. map_sum id (\<lambda>a. (a, p)) (lifetime_ref_get p)" "\<lambda>p. p \<noteq> None" "\<lambda>p. {#}"
  by unfold_locales (auto simp: lifetime_ref_construct_def lifetime_ref_destruct_def lifetime_ref_get_def split: option.splits)

section \<open>Awaitable operations\<close>

text \<open>
  \<open>awaitable_op<void>\<close> has a flag in place of the result. Its callback sets the flag and resumes the
  coroutine; \<open>resume\<close> is \<open>ch.resume()\<close>.
\<close>

record void_awaitable =
  va_ready :: bool

definition void_awaitable_create :: void_awaitable where
  "void_awaitable_create = \<lparr>va_ready = False\<rparr>"

definition void_await_ready :: "void_awaitable \<Rightarrow> bool" where
  "void_await_ready aw \<longleftrightarrow> va_ready aw"

definition void_await_callback :: "(void_awaitable \<times> 'st \<Rightarrow> 'r) \<Rightarrow> void_awaitable \<Rightarrow> 'st \<Rightarrow> 'r" where
  "void_await_callback resume aw st = resume (aw\<lparr>va_ready := True\<rparr>, st)"

definition void_await_resume :: "void_awaitable \<Rightarrow> failure + unit" where
  "void_await_resume aw = Inr ()"

text \<open>
  What \<open>co_await\<close> relies on: a new awaitable suspends, and after its callback stored a result it does
  not, and gives that result.
\<close>

locale awaitable =
  fixes fresh :: 'a and ready :: "'a \<Rightarrow> bool" and stored :: "'r \<Rightarrow> 'a \<Rightarrow> 'a" and resumed :: "'a \<Rightarrow> failure + 'r"
  assumes fresh_suspends: "\<not> ready fresh"
    and stored_ready: "ready (stored r a)"
    and stored_resumed: "resumed (stored r a) = Inr r"
begin

lemma stored_last: "resumed (stored r (stored r' a)) = Inr r \<and> stored r a \<noteq> fresh"
  using stored_resumed stored_ready fresh_suspends by metis

end

interpretation value_awaitable: awaitable "awaitable_create aw" op_await_ready "\<lambda>r. aw_ret_update (\<lambda>_. Some r)" op_await_resume
  by unfold_locales (simp_all add: awaitable_create_def op_await_ready_def op_await_resume_def)

interpretation void_awaitable: awaitable void_awaitable_create void_await_ready "\<lambda>r aw. void_await_callback fst aw ()" void_await_resume
  by unfold_locales (simp_all add: void_awaitable_create_def void_await_ready_def void_await_callback_def void_await_resume_def)

section \<open>Promises\<close>

text \<open>
  A promise in use: \<open>promise_run rs ts p log\<close>, when the values \<open>rs\<close> were returned to it and \<open>ts\<close> taken from it,
  and the destructor ran for those of \<open>log\<close>, the last ones first.
\<close>

inductive promise_run :: "'v list \<Rightarrow> 'v list \<Rightarrow> 'v task_promise \<Rightarrow> 'v list \<Rightarrow> bool" where
  created: "promise_run [] [] promise_create []"
| awaited: "promise_run rs ts p log \<Longrightarrow> promise_run rs ts (p\<lparr>pr_continuation := h\<rparr>) log"
| returned: "promise_run rs ts p log \<Longrightarrow> promise_return_value (#) v p log = Inr (p', log') \<Longrightarrow> promise_run (v # rs) ts p' log'"
| taken: "promise_run rs ts p log \<Longrightarrow> promise_get p = Inr (v, p') \<Longrightarrow> promise_run rs (v # ts) p' log"

definition promise_inv :: "'v task_promise \<Rightarrow> bool" where
  "promise_inv p \<longleftrightarrow> (pr_state p = State_value \<longleftrightarrow> lifetime_alive (pr_value p))"

lemma promise_clear_ok:
  assumes "promise_inv p"
  obtains p' log' where "promise_clear (#) p log = Inr (p', log')" "pr_state p' = State_empty" "\<not> lifetime_alive (pr_value p')"
    "mset log' = mset log + lifetime_owns (pr_value p)"
proof (cases "pr_state p")
  case State_empty
  then have "\<not> lifetime_alive (pr_value p)" using assms by (simp add: promise_inv_def)
  with State_empty show ?thesis by (intro that [of "p\<lparr>pr_state := State_empty\<rparr>" log])
      (simp_all add: promise_clear_def value_storage.dead_owns)
next
  case State_value
  then have "lifetime_alive (pr_value p)" using assms by (simp add: promise_inv_def)
  from value_storage.destruct_alive [OF this, of log] obtain l log' where
    "lifetime_destruct (#) (pr_value p) log = Inr (l, log')" "\<not> lifetime_alive l" "mset log' = mset log + lifetime_owns (pr_value p)" by blast
  with State_value show ?thesis by (intro that [of "p\<lparr>pr_state := State_empty, pr_value := l\<rparr>" log']) (simp_all add: promise_clear_def)
qed

lemma promise_return_ok:
  assumes "promise_inv p"
  obtains p' log' where "promise_return_value (#) v p log = Inr (p', log')" "promise_inv p'" "lifetime_owns (pr_value p') = {#v#}"
    "mset log' = mset log + lifetime_owns (pr_value p)"
proof -
  obtain p1 log' where clear: "promise_clear (#) p log = Inr (p1, log')" "mset log' = mset log + lifetime_owns (pr_value p)"
    using promise_clear_ok [OF assms] by metis
  show ?thesis
    by (rule that [of "p1\<lparr>pr_value := Object v, pr_state := State_value\<rparr>" log'])
      (use clear in \<open>simp_all add: promise_return_value_def lifetime_construct_def promise_inv_def\<close>)
qed

lemma promise_run_accounts:
  assumes "promise_run rs ts p log"
  shows "promise_inv p \<and> mset rs = mset ts + mset log + lifetime_owns (pr_value p)"
  using assms
proof induction
  case created
  show ?case by (simp add: promise_create_def promise_inv_def)
next
  case (returned rs ts p log v p' log')
  obtain p1 log1 where "promise_return_value (#) v p log = Inr (p1, log1)" "promise_inv p1" "lifetime_owns (pr_value p1) = {#v#}"
    "mset log1 = mset log + lifetime_owns (pr_value p)"
    by (rule promise_return_ok [of p v log]) (use returned.IH in simp_all)
  with returned.IH returned.hyps(2) show ?case by simp
next
  case (taken rs ts p log v p')
  then obtain l where l: "lifetime_get (pr_value p) = Inr (v, l)" "p' = p\<lparr>pr_value := l\<rparr>"
    by (auto simp: promise_get_def split: sum.splits)
  then have "pr_value p = Object v" "l = Moved_from" by (auto simp: lifetime_get_def split: lifetime.splits)
  with taken.IH l(2) show ?case by (simp add: promise_inv_def)
qed (simp add: promise_inv_def)

text \<open>
  C16. The promise of a task neither leaks nor destroys twice: in every state reached by returning
  values and taking them, another value can be returned, the destructor succeeds, and after it each
  value that was returned has either been taken or its destructor has run, once. A taken value is
  never destroyed by the promise, and a promise without a value has nothing to give.
\<close>

theorem promise_values_accounted:
  assumes "promise_run rs ts p log"
  shows "(\<exists>p' log'. promise_return_value (#) v p log = Inr (p', log'))
    \<and> (\<exists>log'. promise_destroy (#) p log = Inr log' \<and> mset rs = mset ts + mset log')
    \<and> (pr_state p = State_empty \<longrightarrow> promise_get p = Inl Dangling_reference)"
proof (intro conjI impI)
  have inv: "promise_inv p" "mset rs = mset ts + mset log + lifetime_owns (pr_value p)"
    using promise_run_accounts [OF assms] by auto
  show "\<exists>p' log'. promise_return_value (#) v p log = Inr (p', log')" using promise_return_ok [OF inv(1)] by metis
  obtain p' log' where "promise_clear (#) p log = Inr (p', log')" "mset log' = mset log + lifetime_owns (pr_value p)"
    using promise_clear_ok [OF inv(1)] by metis
  then show "\<exists>log'. promise_destroy (#) p log = Inr log' \<and> mset rs = mset ts + mset log'"
    using inv(2) by (simp add: promise_destroy_def)
  assume "pr_state p = State_empty"
  then show "promise_get p = Inl Dangling_reference"
    using inv(1) by (cases "pr_value p") (simp_all add: promise_inv_def promise_get_def lifetime_get_def)
qed

theorem promise_values_accounted_witness:
  "\<exists>p. promise_run [2, 1] [2 :: nat] p [1] \<and> promise_destroy (#) p [1] = Inr [1]"
proof -
  define p where "p = \<lparr>pr_continuation = None, pr_state = State_value, pr_value = (Moved_from :: nat lifetime)\<rparr>"
  note steps = promise_return_value_def promise_clear_def promise_create_def lifetime_construct_def lifetime_destruct_def promise_get_def
    lifetime_get_def p_def
  have "promise_run [1] [] (p\<lparr>pr_value := Object 1\<rparr>) []"
    by (rule promise_run.returned [OF promise_run.created]) (simp add: steps)
  then have "promise_run [2, 1] [] (p\<lparr>pr_value := Object 2\<rparr>) [1]"
    by (rule promise_run.returned) (simp add: steps)
  then have run: "promise_run [2, 1] [2] p [1]"
    by (rule promise_run.taken) (simp add: steps)
  from promise_values_accounted [OF run] obtain log' where "promise_destroy (#) p [1] = Inr log'" "mset [2, 1] = mset [2] + mset log'"
    by blast
  moreover from this(2) have "mset log' = {#1#}" by (simp add: add_mset_commute)
  then have "log' = [1]" by (metis mset_single_iff)
  ultimately show ?thesis using run by blast
qed

end
