(* ===== verification/Ark_Address_Type.thy ===== *)
theory Ark_Address_Type
  imports Ark_Address
begin

text \<open>
  The types of \<open>net/address.hpp\<close>. The classes \<open>inet_address\<close> and \<open>inet6_address\<close> add no data to
  \<open>address\<close>: what tells them apart is the family in the stored bytes, which the constructors set and
  the setters have to preserve. An \<open>accept\<close> with an address stores through \<open>address &\<close>, to which objects of the derived
  classes bind too, and it stores the family of the peer. \<open>has_class\<close> gives the objects of each class that a program
  can have, with a flag that tells whether the family of the class is still certain: it is not
  once a system call has filled an object of a derived class.
\<close>

datatype address_class = Address | Inet_address | Inet6_address

fun class_family :: "address_class \<Rightarrow> sa_family_t \<Rightarrow> bool" where
  "class_family Address fam = True"
| "class_family Inet_address fam = (fam = AF_INET)"
| "class_family Inet6_address fam = (fam = AF_INET6)"

text \<open>
  An object is made by a constructor, filled by an accept through a reference to the base class,
  changed by a setter, or converted.
\<close>

inductive has_class :: "inet_lib \<Rightarrow> address_class \<Rightarrow> bool \<Rightarrow> address \<Rightarrow> bool" for lib where
  created: "length raw = 128 \<Longrightarrow> has_class lib Address True (address_create raw)"
| created4: "length raw = 128 \<Longrightarrow> has_class lib Inet_address True (family_create AF_INET raw)"
| created6: "length raw = 128 \<Longrightarrow> has_class lib Inet6_address True (family_create AF_INET6 raw)"
| filled: "has_class lib cls kept a \<Longrightarrow> length stored \<le> 128 \<Longrightarrow>
    has_class lib cls (cls = Address) (a\<lparr>sa := put_bytes 0 stored (sa a)\<rparr>)"
| host4: "has_class lib Inet_address kept a \<Longrightarrow> has_class lib Inet_address kept (snd (inet_set_host lib h a))"
| host6: "has_class lib Inet6_address kept a \<Longrightarrow> has_class lib Inet6_address kept (snd (inet6_set_host lib h a))"
| port4: "has_class lib Inet_address kept a \<Longrightarrow> has_class lib Inet_address kept (inet_set_port p a)"
| port6: "has_class lib Inet6_address kept a \<Longrightarrow> has_class lib Inet6_address kept (inet6_set_port p a)"
| upcast: "has_class lib cls kept a \<Longrightarrow> has_class lib Address True (to_address a)"
| downcast4: "has_class lib cls kept a \<Longrightarrow> inet_from_address a = Inr (Inr a') \<Longrightarrow> has_class lib Inet_address True a'"
| downcast6: "has_class lib cls kept a \<Longrightarrow> inet6_from_address a = Inr (Inr a') \<Longrightarrow> has_class lib Inet6_address True a'"

section \<open>Preservation\<close>

lemma family_create_sound:
  assumes "length raw = 128"
  shows "well_formed (address_create raw)" and "well_formed (family_create fam raw)" and "sa_family (family_create fam raw) = fam"
  using assms by (simp_all add: family_create_def address_create_def set_family_def well_formed_def sa_family_def get_put_same)

lemma set_port_sound: "well_formed a \<Longrightarrow> well_formed (inet_set_port p a) \<and> sa_family (inet_set_port p a) = sa_family a"
  using inet_set_port_fields(1) [of a p] inet_set_port_fields(3) [of a 0 2 p] by (simp add: sa_family_def)

lemma set_host_sound:
  assumes "inet_law lib" "well_formed a"
  shows "well_formed (snd (inet_set_host lib h a)) \<and> sa_family (snd (inet_set_host lib h a)) = sa_family a"
    and "well_formed (snd (inet6_set_host lib h a)) \<and> sa_family (snd (inet6_set_host lib h a)) = sa_family a"
  using inet_set_host_correct [OF assms, of h] inet6_set_host_correct [OF assms, of h] assms(2)
  by (metis prod.collapse)+

lemma has_class_sound:
  assumes "has_class lib cls kept a" "inet_law lib"
  shows "well_formed a \<and> (kept \<longrightarrow> class_family cls (sa_family a))"
  using assms(1)
proof induction
  case (port6 kept a p)
  then show ?case using set_port_sound [of a p] by (simp add: inet6_set_port_def inet_set_port_def)
next
  case (downcast4 cls kept a a')
  then show ?case by (auto simp: inet_from_address_def family_of_address_def split: if_splits)
next
  case (downcast6 cls kept a a')
  then show ?case by (auto simp: inet6_from_address_def family_of_address_def split: if_splits)
qed (use family_create_sound set_port_sound set_host_sound [OF assms(2)] in \<open>auto simp: to_address_def well_formed_def\<close>)

text \<open>
  C38. The classes of addresses. Every object of the three classes that constructors, setters, conversions and
  accepts can produce is a \<open>sockaddr_storage\<close> of 128 bytes, and unless an accept has stored the address of a peer in
  an object of a derived class its family is that of its class. Whatever the bytes are: host and port can be read
  and printed in both formats, with IPv6 hosts in brackets; the conversion to a derived class gives the same object if the
  family fits and \<open>EAFNOSUPPORT\<close> otherwise; and printing an \<open>address\<close> gives the text of its family, or
  \<open>EAFNOSUPPORT\<close>. Neither ever reaches an \<open>Expects\<close> that does not hold. An accept into an \<open>inet_address\<close> does break
  the class: it can make it an IPv6 address.
\<close>

theorem address_types_sound:
  assumes "has_class lib cls kept a" and "inet_law lib"
  shows "well_formed a \<and> (kept \<longrightarrow> class_family cls (sa_family a))
    \<and> (\<exists>h. inet_host lib a = Inr h \<and> inet_to_string lib a = Inr (h @ '':'' @ decimal (unat (inet_port a))))
    \<and> (\<exists>h. inet6_host lib a = Inr h \<and> inet6_to_string lib a = Inr (''['' @ h @ '']:'' @ decimal (unat (inet6_port a))))
    \<and> inet_from_address (to_address a) = Inr (if sa_family a = AF_INET then Inr a else Inl (as_ec EAFNOSUPPORT))
    \<and> inet6_from_address (to_address a) = Inr (if sa_family a = AF_INET6 then Inr a else Inl (as_ec EAFNOSUPPORT))
    \<and> address_to_string lib a =
        Inr (if sa_family a = AF_INET then inet_to_string lib a
             else if sa_family a = AF_INET6 then inet6_to_string lib a else Inl (as_ec EAFNOSUPPORT))
    \<and> (\<exists>b. has_class lib Inet_address False b \<and> sa_family b = AF_INET6)"
proof -
  have sound: "well_formed a" "kept \<longrightarrow> class_family cls (sa_family a)" using has_class_sound [OF assms] by simp_all
  note conversions = inet_from_address_def inet6_from_address_def family_of_address_def to_address_def
  have "has_class lib Inet_address True (family_create AF_INET (replicate 128 0))" by (rule has_class.created4) simp
  from has_class.filled [OF this, of "bytes_of_16 AF_INET6"]
  have "has_class lib Inet_address False (set_family AF_INET6 (family_create AF_INET (replicate 128 0)))"
    by (simp add: set_family_def)
  moreover have "sa_family (set_family AF_INET6 (family_create AF_INET (replicate 128 0))) = AF_INET6" by code_simp
  ultimately have "\<exists>b. has_class lib Inet_address False b \<and> sa_family b = AF_INET6" by blast
  with sound inet_host_total [OF assms(2) sound(1)] inet6_host_total [OF assms(2) sound(1)] show ?thesis
    by (auto simp: conversions address_to_string_def inet_to_string_def inet6_to_string_def)
qed

theorem address_types_sound_witness:
  "\<exists>a. has_class plain_inet_lib Inet_address True a \<and> well_formed a \<and> sa_family a = AF_INET
    \<and> inet_from_address (to_address a) = Inr (Inr a) \<and> address_to_string plain_inet_lib a = Inr (inet_to_string plain_inet_lib a)"
proof -
  define a where "a = inet_set_port 80 (snd (inet_set_host plain_inet_lib ''10.0.0.1'' (family_create AF_INET (replicate 128 7))))"
  have cls: "has_class plain_inet_lib Inet_address True a"
    unfolding a_def by (intro has_class.port4 has_class.host4 has_class.created4) simp
  note sound = address_types_sound [OF cls plain_inet_law]
  then have "sa_family a = AF_INET" by simp
  with sound have "well_formed a \<and> sa_family a = AF_INET \<and> inet_from_address (to_address a) = Inr (Inr a)
      \<and> address_to_string plain_inet_lib a = Inr (inet_to_string plain_inet_lib a)" by simp
  with cls show ?thesis by blast
qed

end
