(* ===== verification/Ark_Address_Test.thy ===== *)
theory Ark_Address_Test
  imports Ark_Address_Type
begin

text \<open>
  \<open>tests/test_net_address.cpp\<close>. A test gives the error that ended it early, or whether all its
  expectations hold; \<open>raw\<close> are the indeterminate bytes of a new address.
\<close>

definition test_ipv4 :: "inet_lib \<Rightarrow> byte list \<Rightarrow> bool result" where
  "test_ipv4 lib raw =
     (case inet_set_host lib ''127.0.0.1'' (family_create AF_INET raw) of
        (Inl ec, addr) \<Rightarrow> Inl ec
      | (Inr u, addr) \<Rightarrow>
          (let addr = inet_set_port 8080 addr in
           case inet_host lib addr of
             Inl ec \<Rightarrow> Inl ec
           | Inr got_host \<Rightarrow>
               (case inet_to_string lib addr of
                  Inl ec \<Rightarrow> Inl ec
                | Inr str \<Rightarrow> Inr (got_host = ''127.0.0.1'' \<and> inet_port addr = 8080 \<and> str = ''127.0.0.1:8080''))))"

definition test_ipv6 :: "inet_lib \<Rightarrow> byte list \<Rightarrow> bool result" where
  "test_ipv6 lib raw =
     (case inet6_set_host lib ''::1'' (family_create AF_INET6 raw) of
        (Inl ec, addr) \<Rightarrow> Inl ec
      | (Inr u, addr) \<Rightarrow>
          (let addr = inet6_set_port 8080 addr in
           case inet6_host lib addr of
             Inl ec \<Rightarrow> Inl ec
           | Inr got_host \<Rightarrow>
               (case inet6_to_string lib addr of
                  Inl ec \<Rightarrow> Inl ec
                | Inr str \<Rightarrow> Inr (got_host = ''::1'' \<and> inet6_port addr = 8080 \<and> str = ''[::1]:8080''))))"

definition test_upcast_downcast :: "inet_lib \<Rightarrow> byte list \<Rightarrow> failure + bool result" where
  "test_upcast_downcast lib raw =
     (case inet_set_host lib ''127.0.0.1'' (family_create AF_INET raw) of
        (Inl ec, addr) \<Rightarrow> Inr (Inl ec)
      | (Inr u, addr) \<Rightarrow>
          (let addr = inet_set_port 8080 addr in
           case inet_from_address (to_address addr) of
             Inl e \<Rightarrow> Inl e
           | Inr (Inl ec) \<Rightarrow> Inr (Inl ec)
           | Inr (Inr addr2) \<Rightarrow>
               (case inet_to_string lib addr of
                  Inl ec \<Rightarrow> Inr (Inl ec)
                | Inr str1 \<Rightarrow>
                    (case inet_to_string lib addr2 of
                       Inl ec \<Rightarrow> Inr (Inl ec)
                     | Inr str2 \<Rightarrow> Inr (Inr (str1 = str2))))))"

text \<open>inet_pton(3) accepts the text, and inet_ntop(3) prints the address the same way.\<close>

definition canonical :: "inet_lib \<Rightarrow> sa_family_t \<Rightarrow> nat \<Rightarrow> nat \<Rightarrow> string \<Rightarrow> bool" where
  "canonical lib fam len buf_sz str \<longleftrightarrow>
     0 < fst (pton lib fam str) \<and> length (snd (pton lib fam str)) = len \<and> ntop lib fam (snd (pton lib fam str)) buf_sz = Inr str"

lemma decimal_8080: "decimal 8080 = ''8080''"
  by (simp add: decimal.simps digit_char_def)

lemma set_host_port:
  assumes "canonical lib AF_INET 4 16 str" "well_formed a" "c_str str = str"
  obtains a' where "inet_set_host lib str a = (Inr (), a')" "inet_host lib (inet_set_port p a') = Inr str"
    "inet_port (inet_set_port p a') = p" "sa_family (inet_set_port p a') = sa_family a"
proof -
  let ?bs = "snd (pton lib AF_INET str)"
  let ?a = "a\<lparr>sa := put_bytes 4 ?bs (sa a)\<rparr>"
  have "length ?bs = 4" using assms(1) by (simp add: canonical_def)
  note fields = put_host_fields [OF assms(2) this, of 4]
  have wf: "well_formed ?a" using fields(1) by simp
  note port = inet_set_port_fields [OF wf, where p = p]
  show ?thesis
    by (rule that [of ?a])
      (use assms(1,3) fields(2-4) port in \<open>simp_all add: canonical_def inet_set_host_def inet_host_def inet_port_def sa_family_def case_prod_beta not_le\<close>)
qed

lemma set_host_port6:
  assumes "canonical lib AF_INET6 16 64 str" "well_formed a" "c_str str = str"
  obtains a' where "inet6_set_host lib str a = (Inr (), a')" "inet6_host lib (inet6_set_port p a') = Inr str"
    "inet6_port (inet6_set_port p a') = p"
proof -
  let ?bs = "snd (pton lib AF_INET6 str)"
  let ?a = "a\<lparr>sa := put_bytes 8 ?bs (sa a)\<rparr>"
  have "length ?bs = 16" using assms(1) by (simp add: canonical_def)
  note fields = put_host_fields [OF assms(2) this, of 8]
  have wf: "well_formed ?a" using fields(1) by simp
  note port = inet_set_port_fields [OF wf, where p = p]
  have same: "inet6_set_port p ?a = inet_set_port p ?a" by (simp add: inet6_set_port_def inet_set_port_def)
  show ?thesis
    by (rule that [of ?a])
      (use assms(1,3) fields(2-4) port in \<open>simp_all add: same canonical_def inet6_set_host_def inet6_host_def inet6_port_def case_prod_beta not_le\<close>)
qed

text \<open>
  The tests of the addresses pass, if the C library accepts the two literals of the tests and prints
  them in the same form: what was set is what is got, the texts are the expected ones, and an
  address survives the way to the base class and back.
\<close>

lemma test_net_address_passes:
  assumes "canonical lib AF_INET 4 16 ''127.0.0.1''" and "canonical lib AF_INET6 16 64 ''::1''" and "length raw = 128"
  shows "test_ipv4 lib raw = Inr True \<and> test_ipv6 lib raw = Inr True \<and> test_upcast_downcast lib raw = Inr (Inr True)"
proof -
  obtain a4 where a4: "inet_set_host lib ''127.0.0.1'' (family_create AF_INET raw) = (Inr (), a4)"
    "inet_host lib (inet_set_port 8080 a4) = Inr ''127.0.0.1''" "inet_port (inet_set_port 8080 a4) = 8080"
    "sa_family (inet_set_port 8080 a4) = AF_INET"
    by (rule set_host_port [OF assms(1) family_create_sound(2) [OF assms(3)], of AF_INET 8080])
      (simp_all add: c_str_def family_create_sound(3) [OF assms(3)])
  obtain a6 where a6: "inet6_set_host lib ''::1'' (family_create AF_INET6 raw) = (Inr (), a6)"
    "inet6_host lib (inet6_set_port 8080 a6) = Inr ''::1''" "inet6_port (inet6_set_port 8080 a6) = 8080"
    by (rule set_host_port6 [OF assms(2) family_create_sound(2) [OF assms(3)], of AF_INET6 8080]) (simp_all add: c_str_def)
  show ?thesis
    using a4 a6 decimal_8080
    by (simp add: test_ipv4_def test_ipv6_def test_upcast_downcast_def inet_to_string_def inet6_to_string_def to_address_def
        inet_from_address_def family_of_address_def)
qed

lemma test_net_address_passes_example:
  "\<exists>lib. canonical lib AF_INET 4 16 ''127.0.0.1'' \<and> canonical lib AF_INET6 16 64 ''::1''
    \<and> test_ipv4 lib (replicate 128 0) = Inr True \<and> test_ipv6 lib (replicate 128 0) = Inr True
    \<and> test_upcast_downcast lib (replicate 128 0) = Inr (Inr True)"
proof -
  define lib where "lib = \<lparr>pton = (\<lambda>fam s. if fam = AF_INET then (1, [127, 0, 0, 1]) else (1, replicate 15 0 @ [1])),
    ntop = (\<lambda>fam bs z. Inr (if fam = AF_INET then ''127.0.0.1'' else ''::1''))\<rparr>"
  have lib: "canonical lib AF_INET 4 16 ''127.0.0.1''" "canonical lib AF_INET6 16 64 ''::1''"
    by (simp_all add: canonical_def lib_def)
  with test_net_address_passes [OF lib, of "replicate 128 0"] show ?thesis by (intro exI [of _ lib]) simp
qed

end
