(* ===== verification/Ark_General_Test.thy ===== *)
theory Ark_General_Test
  imports Ark_Examples
begin

text \<open>
  The tests of \<open>event_fd\<close> and \<open>pipe_fd\<close> in \<open>tests/test_general.cpp\<close> (that of \<open>mem_fd\<close> is in
  \<open>Ark_Examples\<close>): a message is written with the blocking interface and read back. A test gives
  the error that ended it early, or whether its expectation holds; the descriptors are closed
  on every way out.
\<close>

section \<open>The tests\<close>

definition uint64_1 :: "addr \<Rightarrow> container" where
  "uint64_1 a = \<lparr>c_begin = a, c_count = 1, c_elem_size = 8\<rparr>"

definition test_event_fd ::
  "subspan_t \<Rightarrow> ('w, 'z) clinux_scheme \<Rightarrow> addr \<Rightarrow> addr \<Rightarrow> 'w \<Rightarrow> (failure + bool result \<times> 'w) option"
where
  "test_event_fd ss k data rd_buf w =
     (case event_fd_create k None 0 0 w of
        (Inl ec, w1) \<Rightarrow> Some (Inr (Inl ec, w1))
      | (Inr fd, w1) \<Rightarrow>
          Option.bind (sync_write_all ss k (Nonseekable fd) (Single (buffer_of_data (uint64_1 data))) w1)
            (\<lambda>r. case r of
               Inl e \<Rightarrow> Some (Inl e)
             | Inr (Inl ec, f, w2) \<Rightarrow> Some (Inr (Inl ec, io_destroy k f w2))
             | Inr (Inr n, f, w2) \<Rightarrow>
                 Option.bind (sync_read_all ss k f (Single (buffer_of_data (uint64_1 rd_buf))) w2)
                   (\<lambda>r'. case r' of
                      Inl e \<Rightarrow> Some (Inl e)
                    | Inr (Inl ec, f', w3) \<Rightarrow> Some (Inr (Inl ec, io_destroy k f' w3))
                    | Inr (Inr n, f', w3) \<Rightarrow> Some (Inr (Inr True, io_destroy k f' w3)))))"

text \<open>The members of the pair \<open>ends\<close> are destroyed in reverse order.\<close>

definition test_pipe_fd ::
  "subspan_t \<Rightarrow> ('w, 'z) clinux_scheme \<Rightarrow> ('w \<Rightarrow> mem) \<Rightarrow> addr \<Rightarrow> addr \<Rightarrow> 'w \<Rightarrow> (failure + bool result \<times> 'w) option"
where
  "test_pipe_fd ss k memory data rd_buf w =
     (case pipe_fd_create k None w of
        (Inl ec, w1) \<Rightarrow> Some (Inr (Inl ec, w1))
      | (Inr (f_in, f_out), w1) \<Rightarrow>
          Option.bind (sync_write_all ss k (Nonseekable f_out) (Single (buffer_of_data (chars_5 data))) w1)
            (\<lambda>r. case r of
               Inl e \<Rightarrow> Some (Inl e)
             | Inr (Inl ec, f, w2) \<Rightarrow> Some (Inr (Inl ec, fd_destroy k f_in (io_destroy k f w2)))
             | Inr (Inr n, f, w2) \<Rightarrow>
                 Option.bind (sync_read_all ss k (Nonseekable f_in) (Single (buffer_of_data (chars_5 rd_buf))) w2)
                   (\<lambda>r'. case r' of
                      Inl e \<Rightarrow> Some (Inl e)
                    | Inr (Inl ec, f', w3) \<Rightarrow> Some (Inr (Inl ec, io_destroy k f' (io_destroy k f w3)))
                    | Inr (Inr n, f', w3) \<Rightarrow>
                        Some (Inr (Inr (map (memory w3) (addr_range rd_buf 5) = map (memory w3) (addr_range data 5)),
                                   io_destroy k f' (io_destroy k f w3))))))"

section \<open>Messages on streams\<close>

text \<open>
  A message of \<open>n\<close> bytes: written it is appended to what the descriptor accepted, and read it is what
  the descriptor delivers, unless there is less.
\<close>

lemma write_message:
  assumes "writev_law k memory sink" "pwritev2_law k memory file" "write_progress k" "gsl_subspan ss"
    and "base_ptr d = Some b" "length (seq_addrs m) < 2 ^ 64"
  obtains (error) f' w' where "sync_write_all ss k (Nonseekable d) m w = Some (Inr (Inl (errno_ec k w'), f', w'))"
  | (all) w' where "sync_write_all ss k (Nonseekable d) m w = Some (Inr (Inr (buffer_size m), Nonseekable d, w'))"
      "memory w' = memory w" "sink (fildes b) w' = sink (fildes b) w @ map (memory w) (seq_addrs m)"
proof -
  have "io_live (Nonseekable d)" using assms(5) by simp
  from sync_write_total [OF assms(1-4) transfer_all.completion_condition_axioms assms(6) this, of w]
  obtain out f' w' where wr: "sync_write_all ss k (Nonseekable d) m w = Some (Inr (out, f', w'))" "memory w' = memory w"
    "case out of Inl e \<Rightarrow> e = errno_ec k w'
     | Inr n \<Rightarrow> buffer_size m \<le> n \<and> n \<le> buffer_size m
         \<and> written sink file (Nonseekable d) w (map (memory w) (take (unat n) (seq_addrs m))) f' w'"
    unfolding sync_write_all_def by blast
  show thesis
  proof (cases out)
    case (Inl ec)
    then show thesis using wr error by simp
  next
    case (Inr n)
    then have "n = buffer_size m" using wr(3) by auto
    then show thesis using wr Inr assms(5) all unat_buffer_size [OF assms(6)] by (auto simp: written_def)
  qed
qed

lemma read_message:
  assumes "readv_law k memory stream" "preadv2_law k memory file" "gsl_subspan ss"
    and "base_ptr d = Some b" "length (seq_addrs m) < 2 ^ 64"
  obtains (error) f' w' where "sync_read_all ss k (Nonseekable d) m w = Some (Inr (Inl (errno_ec k w'), f', w'))"
  | (all) n f' w' where "sync_read_all ss k (Nonseekable d) m w = Some (Inr (Inr n, f', w'))"
      "length (seq_addrs m) \<le> length (stream (fildes b) w) \<Longrightarrow> n = buffer_size m
        \<and> memory w' = store (memory w) (seq_addrs m) (take (length (seq_addrs m)) (stream (fildes b) w))"
proof -
  have "io_live (Nonseekable d)" using assms(4) by simp
  have pend: "pending stream file (Nonseekable d) w = stream (fildes b) w" using assms(4) by (simp add: pending_def)
  from sync_read_total [OF assms(1-3) transfer_all.completion_condition_axioms assms(5) \<open>io_live _\<close>, of w]
  obtain out f' w' j where rd: "sync_read_all ss k (Nonseekable d) m w = Some (Inr (out, f', w'))" "j \<le> length (seq_addrs m)"
    "case out of Inl e \<Rightarrow> e = errno_ec k w'
     | Inr n \<Rightarrow> j = unat n \<and> j \<le> length (stream (fildes b) w) \<and> (length (seq_addrs m) \<le> j \<or> j = length (stream (fildes b) w))
         \<and> pending stream file f' w' = drop j (stream (fildes b) w)
         \<and> memory w' = store (memory w) (take j (seq_addrs m)) (take j (stream (fildes b) w))"
    unfolding sync_read_all_def pend unat_buffer_size [OF assms(5)] by blast
  show thesis
  proof (cases out)
    case (Inl ec)
    then show thesis using rd error by simp
  next
    case (Inr n)
    have "n = buffer_size m \<and> memory w' = store (memory w) (seq_addrs m) (take (length (seq_addrs m)) (stream (fildes b) w))"
      if "length (seq_addrs m) \<le> length (stream (fildes b) w)"
    proof -
      have "j = length (seq_addrs m)" using rd(2,3) Inr that by auto
      then show ?thesis using rd(3) Inr unat_buffer_size [OF assms(5)] by (auto simp: word_unat_eq_iff)
    qed
    then show thesis using rd(1) Inr all by blast
  qed
qed

text \<open>
  pipe(7): a new pipe is empty, and what its write end accepts its read end will deliver.
\<close>

definition pipe_law ::
  "('w, 'z) clinux_scheme \<Rightarrow> (int \<Rightarrow> 'w \<Rightarrow> byte list) \<Rightarrow> (int \<Rightarrow> 'w \<Rightarrow> byte list) \<Rightarrow> bool"
where
  "pipe_law k stream sink \<longleftrightarrow>
     (\<forall>w r rd wr w'. k_pipe2 k 0 w = (r, rd, wr, w') \<and> r \<noteq> - 1 \<longrightarrow>
        stream rd w' = [] \<and> sink wr w' = []
        \<and> (\<forall>n iov v. \<exists>bs. sink wr (snd (k_writev k n iov v)) = sink wr v @ bs \<and> stream rd (snd (k_writev k n iov v)) = stream rd v @ bs)
        \<and> (\<forall>n iov off v. sink wr (snd (k_pwritev2 k n iov off 0 v)) = sink wr v \<and> stream rd (snd (k_pwritev2 k n iov off 0 v)) = stream rd v))"

lemma pipe_delivers:
  assumes "pipe_law k stream sink" "k_pipe2 k 0 w = (r, rd, wr, w1)" "r \<noteq> - 1"
    and "sync_write_all ss k f m w1 = Some (Inr (out, f', w2))"
  shows "stream rd w2 = sink wr w2"
proof -
  have law: "stream rd w1 = sink wr w1"
    "(stream rd (snd (k_writev k n iov v)) = sink wr (snd (k_writev k n iov v))) = (stream rd v = sink wr v)"
    "(stream rd (snd (k_pwritev2 k n iov off 0 v)) = sink wr (snd (k_pwritev2 k n iov off 0 v))) = (stream rd v = sink wr v)"
    for n iov off v
    using assms(1-3) unfolding pipe_law_def by (metis append_same_eq)+
  from sync_write_keeps [of "\<lambda>w. stream rd w = sink wr w", OF law(2,3) assms(4) [unfolded sync_write_all_def]] law(1)
  show ?thesis by simp
qed

lemma uint64_1_addrs: "length (seq_addrs (Single (buffer_of_data (uint64_1 a)))) = 8"
  by (simp add: buf_addrs_of_data uint64_1_def)

lemma base_wrap: "base_ptr (wrap_fd ctx n) = Some \<lparr>fildes = n\<rparr>"
  by (simp add: wrap_fd_def fd_move_def fd_create_def set_async_context_def)

text \<open>
  C26. The tests of pipes and event descriptors always return, and unless a system call fails
  they pass: what was written to one end of the pipe is what the array holds that was read from
  the other end.
\<close>

theorem test_general_passes:
  assumes "readv_law k memory stream" and "preadv2_law k memory file"
    and "writev_law k memory sink" and "pwritev2_law k memory file" and "write_progress k"
    and "gsl_subspan ss" and "pipe_law k stream sink" and "set (addr_range rd_buf 5) \<inter> set (addr_range data 5) = {}"
  shows "(\<exists>r w'. test_pipe_fd ss k memory data rd_buf w = Some (Inr (r, w')) \<and> (case r of Inl ec \<Rightarrow> \<exists>v. ec = errno_ec k v | Inr equal \<Rightarrow> equal))
    \<and> (\<exists>r w'. test_event_fd ss k data rd_buf w = Some (Inr (r, w')) \<and> (case r of Inl ec \<Rightarrow> \<exists>v. ec = errno_ec k v | Inr ok \<Rightarrow> ok))"
proof
  obtain n w1 where n: "k_eventfd k 0 0 w = (n, w1)" by fastforce
  have len8: "length (seq_addrs (Single (buffer_of_data (uint64_1 a)))) < 2 ^ 64" for a by (simp only: uint64_1_addrs) simp
  show "\<exists>r w'. test_event_fd ss k data rd_buf w = Some (Inr (r, w')) \<and> (case r of Inl ec \<Rightarrow> \<exists>v. ec = errno_ec k v | Inr ok \<Rightarrow> ok)"
  proof (cases "n = - 1")
    case False
    note run = test_event_fd_def event_fd_create_def n False
    show ?thesis
    proof (cases rule: write_message [OF assms(3-6) base_wrap [of None n] len8 [of data], where w = w1, case_names error all])
      case (error f' w')
      then show ?thesis by (auto simp: run)
    next
      case wr: (all w2)
      show ?thesis by (cases rule: read_message [OF assms(1,2,6) base_wrap [of None n] len8 [of rd_buf], where w = w2, case_names error all]) (use wr(1) in \<open>auto simp: run\<close>)
    qed
  qed (auto simp: test_event_fd_def event_fd_create_def n)
  obtain r rd wr w1 where p: "k_pipe2 k 0 w = (r, rd, wr, w1)" by (cases "k_pipe2 k 0 w") auto
  have len5: "length (seq_addrs (Single (buffer_of_data (chars_5 a)))) < 2 ^ 64" for a by (simp only: chars_5_addrs) simp
  show "\<exists>r w'. test_pipe_fd ss k memory data rd_buf w = Some (Inr (r, w')) \<and> (case r of Inl ec \<Rightarrow> \<exists>v. ec = errno_ec k v | Inr equal \<Rightarrow> equal)"
  proof (cases "r = - 1")
    case False
    note run = test_pipe_fd_def pipe_fd_create_def p False
    show ?thesis
    proof (cases rule: write_message [OF assms(3-6) base_wrap [of None wr] len5 [of data], where w = w1, case_names error all])
      case (error f' w')
      then show ?thesis by (auto simp: run)
    next
      case wr: (all w2)
      let ?bs = "map (memory w1) (addr_range data 5)"
      have "sink wr w1 = []" using assms(7) p False unfolding pipe_law_def by blast
      then have held: "stream rd w2 = ?bs"
        using pipe_delivers [OF assms(7) p False wr(1)] wr(3) [unfolded chars_5_addrs] by simp
      show ?thesis
      proof (cases rule: read_message [OF assms(1,2,6) base_wrap [of None rd] len5 [of rd_buf], where w = w2, case_names error all])
        case (error f' w')
        then show ?thesis using wr(1) by (auto simp: run)
      next
        case (all n f' w3)
        have "memory w3 = store (memory w1) (addr_range rd_buf 5) ?bs"
          using all(2) [unfolded chars_5_addrs] held wr(2) by simp
        then have "map (memory w3) (addr_range rd_buf 5) = ?bs" "map (memory w3) (addr_range data 5) = ?bs"
          using assms(8) by (simp_all add: load_store map_store_other distinct_addr_range)
        then show ?thesis using wr(1) all(1) by (auto simp: run)
      qed
    qed
  qed (auto simp: test_pipe_fd_def pipe_fd_create_def p)
qed

text \<open>A kernel whose only pipe has the ends 8 and 9.\<close>

definition pipe_clinux :: "demo_world clinux" where
  "pipe_clinux = demo_clinux\<lparr>k_pipe2 := (\<lambda>flags w. (0, 8, 9, w\<lparr>dw_in := (dw_in w)(8 := []), dw_out := (dw_out w)(9 := [])\<rparr>)),
     k_eventfd := (\<lambda>count flags w. (4, w)),
     k_writev := (\<lambda>n iov w. case demo_writev n iov w of (r, w') \<Rightarrow>
        (r, if n = 9 then w'\<lparr>dw_in := (dw_in w')(8 := dw_in w' 8 @ demo_gather w iov)\<rparr> else w'))\<rparr>"

theorem test_general_passes_witness:
  "(\<exists>r w'. test_pipe_fd plain_subspan pipe_clinux dw_mem 100 200 demo_start = Some (Inr (r, w'))
      \<and> (case r of Inl ec \<Rightarrow> \<exists>v. ec = errno_ec pipe_clinux v | Inr equal \<Rightarrow> equal))
    \<and> (\<exists>r w'. test_event_fd plain_subspan pipe_clinux 100 200 demo_start = Some (Inr (r, w'))
      \<and> (case r of Inl ec \<Rightarrow> \<exists>v. ec = errno_ec pipe_clinux v | Inr ok \<Rightarrow> ok))"
proof (rule test_general_passes)
  note laws = readv_law_def preadv2_law_def writev_law_def pwritev2_law_def write_progress_def
  show "readv_law pipe_clinux dw_mem (\<lambda>n w. dw_in w n)" using demo_readv_law by (simp add: laws pipe_clinux_def)
  show "preadv2_law pipe_clinux dw_mem (\<lambda>n w. dw_file w n)" using demo_preadv2_law by (simp add: laws pipe_clinux_def)
  show "writev_law pipe_clinux dw_mem (\<lambda>n w. dw_out w n)"
    using demo_writev_law by (auto simp: laws pipe_clinux_def split: prod.splits)
  show "pwritev2_law pipe_clinux dw_mem (\<lambda>n w. dw_file w n)" using demo_pwritev2_law by (simp add: laws pipe_clinux_def)
  show "write_progress pipe_clinux"
    using demo_write_progress by (auto simp: laws pipe_clinux_def split: prod.splits) (metis fst_conv)
  show "pipe_law pipe_clinux (\<lambda>n w. dw_in w n) (\<lambda>n w. dw_out w n)"
    by (auto simp: pipe_law_def pipe_clinux_def demo_writev_def demo_pwritev2_def Let_def split: prod.splits)
  show "gsl_subspan plain_subspan" by (rule gsl_subspan_plain)
  show "set (addr_range 200 5) \<inter> set (addr_range 100 5) = {}" by code_simp
qed

end
