(* ===== verification/Ark_Equivalence.thy ===== *)
theory Ark_Equivalence
  imports Ark_Ring_Demo
begin

text \<open>
  The two interfaces of a transfer are equivalent: the asynchronous operation of \<open>io/async.hpp\<close> is
  the blocking loop of \<open>io/sync.hpp\<close>, cut at its system calls. Nothing is assumed of what the
  calls do; the ring performs them, and \<open>ring_calls\<close> is the kernel whose blocking calls do the
  same.
\<close>

section \<open>One call\<close>

text \<open>
  What a submitted call does depends on a part of the world only. If it fails, the number that its completion
  reports is the one that the blocking call leaves in \<open>errno\<close>.
\<close>

definition perform_local :: "(sqe_op \<Rightarrow> 'w \<Rightarrow> int \<times> 'w) \<Rightarrow> ('w \<Rightarrow> 'v) \<Rightarrow> bool" where
  "perform_local perform view \<longleftrightarrow>
     (\<forall>sqe v w. view v = view w \<longrightarrow> fst (perform sqe v) = fst (perform sqe w) \<and> view (snd (perform sqe v)) = view (snd (perform sqe w)))"

definition errno_law :: "('w, 'z) clinux_scheme \<Rightarrow> (sqe_op \<Rightarrow> 'w \<Rightarrow> int \<times> 'w) \<Rightarrow> bool" where
  "errno_law k perform \<longleftrightarrow>
     (\<forall>kind n iov off v. fst (perform (io_sqe kind n iov off) v) < 0 \<longrightarrow>
        k_errno k (snd (perform (io_sqe kind n iov off) v)) = - fst (perform (io_sqe kind n iov off) v))"

text \<open>The error that a completion with the result \<open>res\<close> gives.\<close>

abbreviation (input) ring_ec :: "int \<Rightarrow> error_code" where
  "ring_ec res \<equiv> \<lparr>ec_value = - res, ec_category = System_category\<rparr>"

text \<open>The blocking call of the kernel \<open>ring_calls\<close> on an object that fits its descriptor.\<close>

lemma ring_call_performed:
  assumes "kind_fits sk f"
  shows "sync_read_call (ring_calls sk perform k) f iov w = Inr (r, w') \<Longrightarrow>
      \<exists>n off. io_get f = Inr n \<and> io_offset f = Inr off \<and> as_syscall (perform (io_sqe Read_op n iov off) w) = (r, w')"
    and "sync_write_call (ring_calls sk perform k) f iov w = Inr (r, w') \<Longrightarrow>
      \<exists>n off. io_get f = Inr n \<and> io_offset f = Inr off \<and> as_syscall (perform (io_sqe Write_op n iov off) w) = (r, w')"
  using assms
  by (cases f; auto simp: sync_read_call_def sync_write_call_def ring_calls_def kind_fits_def fd_get_def seekable_get_def
      seekable_offset_def split: option.splits sum.splits)+

text \<open>What the loop does with the completion of one call.\<close>

lemma async_go_on_turn:
  fixes cb :: 'f and Q :: "'f \<Rightarrow> completion \<Rightarrow> ('f, 'x, 'w) async_state \<Rightarrow> bool"
  assumes st: "context_ready ev c2" "fd_at s2 fr = Inr f" "buffers_at s2 br = Inr b" "view w2 = view w'"
    and r: "r = (if res < 0 then - 1 else res)" "res < 2 ^ 31"
    and failed: "res < 0 \<Longrightarrow> Q cb (Size_result (Inl (ring_ec res))) (c2, s2, w2)"
    and ended: "r = 0 \<Longrightarrow> kind = Read_op \<Longrightarrow> Q cb (Size_result (Inr d)) (c2, s2, w2)"
    and goes_on: "r \<noteq> - 1 \<Longrightarrow> r \<noteq> 0 \<or> kind = Write_op \<Longrightarrow> \<exists>f'. io_feed f r = Inr f' \<and>
      (\<forall>c2 s2 w2. context_ready ev c2 \<and> fd_at s2 fr = Inr f' \<and> buffers_at s2 br = Inr b \<and> view w2 = view w' \<longrightarrow>
         completes_with k lu ev perform (io_call kind) view (run_closure ss k lu) (feeds fr) (keeps fr br) Q
           (\<lambda>fin. async_io_run ss k lu fin kind (io_op ctx cb fr br cond (d + word_of_int r) iov)) (c2, s2, w2))"
  shows "completes_with k lu ev perform (io_call kind) view (run_closure ss k lu) (feeds fr) (keeps fr br) Q
    (\<lambda>fin. run_closure ss k lu fin (Io_go_on kind (io_op ctx cb fr br cond d iov)) (result_of_res res)) (c2, s2, w2)"
proof -
  consider (error) "res < 0" | (eof) "res = 0" "kind = Read_op" | (data) "0 < res \<or> res = 0 \<and> kind = Write_op" by (cases kind) force+
  then show ?thesis
  proof cases
    case error
    show ?thesis
      unfolding run_closure_io using async_io_go_on_error [OF error] failed [OF error] by (intro completes_with.finished [OF _ feeds_refl])
  next
    case eof
    then show ?thesis
      unfolding run_closure_io using async_io_go_on_eof ended r(1) by (intro completes_with.finished [OF _ feeds_refl]) simp_all
  next
    case data
    then have res: "r = res" "0 \<le> res" "0 < nat res \<or> kind = Write_op" using r(1) by auto
    from data obtain f' where f': "io_feed f res = Inr f'" and turn: "\<And>c2 s2 w2.
        context_ready ev c2 \<and> fd_at s2 fr = Inr f' \<and> buffers_at s2 br = Inr b \<and> view w2 = view w' \<Longrightarrow>
        completes_with k lu ev perform (io_call kind) view (run_closure ss k lu) (feeds fr) (keeps fr br) Q
          (\<lambda>fin. async_io_run ss k lu fin kind (io_op ctx cb fr br cond (d + word_of_int res) iov)) (c2, s2, w2)"
      using goes_on res(1) by (cases "res = 0") auto
    obtain s3 where s3: "feed_at s2 fr res = Inr s3" "fd_at s3 fr = Inr f'" "buffers_at s3 = buffers_at s2"
      using feed_at_io_feed [OF st(2) f'] by metis
    have "completes_with k lu ev perform (io_call kind) view (run_closure ss k lu) (feeds fr) (keeps fr br) Q
        (\<lambda>fin. async_io_run ss k lu fin kind (io_op ctx cb fr br cond (d + word_of_int res) iov)) (c2, s3, w2)"
      using turn st s3 by simp
    moreover have "run_closure ss k lu fin (Io_go_on kind (io_op ctx cb fr br cond d iov)) (result_of_res res) (c2, s2, w2) =
        async_io_run ss k lu fin kind (io_op ctx cb fr br cond (d + word_of_int res) iov) (c2, s3, w2)" for fin
      using async_io_go_on_data [of "nat res" kind s2 fr s3] res r(2) s3(1) by (simp add: run_closure_io)
    ultimately show ?thesis by (rule completes_with_cong) (rule feeds_feed [OF s3(1)])
  qed
qed

text \<open>
  One turn of an operation at done size \<open>d\<close>, when the blocking call would give \<open>r\<close> in \<open>w'\<close>: it
  completes as \<open>Q\<close> says if the call fails or ends the input, and otherwise if the next turn does.
\<close>

lemma async_turn:
  fixes cb :: 'f and Q :: "'f \<Rightarrow> completion \<Rightarrow> ('f, 'x, 'w) async_state \<Rightarrow> bool"
  assumes env: "submission_ok k lu ev view" "perform_local perform view" "cqe_res_range perform"
    and st: "context_ready ev c" "fd_at s fr = Inr f" "buffers_at s br = Inr b" "view v = view w"
    and iov: "cond (buffer_size b) d \<noteq> 0" "to_iovecs ss b d (cond (buffer_size b) d) = Inr (reserved, iov)"
    and call: "io_get f = Inr n" "io_offset f = Inr off" "as_syscall (perform (io_sqe kind n iov off) w) = (r, w')"
    and failed: "\<And>c2 s2 w2. \<lbrakk>fst (perform (io_sqe kind n iov off) w) < 0; fd_at s2 fr = Inr f; view w2 = view w'\<rbrakk>
      \<Longrightarrow> Q cb (Size_result (Inl (ring_ec (fst (perform (io_sqe kind n iov off) w))))) (c2, s2, w2)"
    and ended: "\<And>c2 s2 w2. r = 0 \<Longrightarrow> kind = Read_op \<Longrightarrow> fd_at s2 fr = Inr f \<Longrightarrow> view w2 = view w'
      \<Longrightarrow> Q cb (Size_result (Inr d)) (c2, s2, w2)"
    and goes_on: "r \<noteq> - 1 \<Longrightarrow> r \<noteq> 0 \<or> kind = Write_op \<Longrightarrow> \<exists>f'. io_feed f r = Inr f' \<and>
      (\<forall>c2 s2 w2. context_ready ev c2 \<and> fd_at s2 fr = Inr f' \<and> buffers_at s2 br = Inr b \<and> view w2 = view w' \<longrightarrow>
         completes_with k lu ev perform (io_call kind) view (run_closure ss k lu) (feeds fr) (keeps fr br) Q
           (\<lambda>fin. async_io_run ss k lu fin kind (io_op ctx cb fr br cond (d + word_of_int r) iov)) (c2, s2, w2))"
  shows "completes_with k lu ev perform (io_call kind) view (run_closure ss k lu) (feeds fr) (keeps fr br) Q
    (\<lambda>fin. async_io_run ss k lu fin kind (io_op ctx cb fr br cond d iov0)) (c, s, v)"
proof -
  let ?op = "io_op ctx cb fr br cond d iov" and ?call = "run_closure ss k lu"
  obtain v1 where sub: "submits k lu (io_sqe kind n iov off) c v v1" "view v1 = view v"
    "\<And>fin. async_io_run ss k lu fin kind (io_op ctx cb fr br cond d iov0) (c, s, v) = Inr (registered c (User_cb (Io_go_on kind ?op)), s, v1)"
    by (rule async_io_run_submits_iov [where cond = cond and d = d and kind = kind and w = v and ctx = ctx and cb = cb and ?iov0.0 = iov0,
          OF iov(2) st(2) call(1,2) st(3) iov(1) env(1) st(1)]) (rule that)
  show ?thesis
  proof (rule completes_with.suspended, rule sub(3), rule feeds_refl, rule io_call_sqe, rule sub(1))
    fix c2 :: "'f closure uring_context" and s2 :: "'x io_store_scheme" and v2 v3 w2 res
    assume c2: "context_ready ev c2" and "keeps fr br s s2" and "view v2 = view v1" "perform (io_sqe kind n iov off) v2 = (res, v3)"
      and "view w2 = view v3"
    then have res: "res = fst (perform (io_sqe kind n iov off) w) \<and> view v3 = view (snd (perform (io_sqe kind n iov off) w))"
      using env(2) sub(2) st(4) unfolding perform_local_def by (metis fst_conv snd_conv)
    then have r: "r = (if res < 0 then - 1 else res)" "view w2 = view w'" "res < 2 ^ 31"
      using call(3) \<open>view w2 = view v3\<close> env(3) by (auto simp: as_syscall_def cqe_res_range_def)
    have s2: "fd_at s2 fr = Inr f" "buffers_at s2 br = Inr b" using \<open>keeps fr br s s2\<close> st(2,3) by (simp_all add: keeps_def)
    show "completes_with k lu ev perform (io_call kind) view ?call (feeds fr) (keeps fr br) Q
        (\<lambda>fin. ?call fin (Io_go_on kind ?op) (result_of_res res)) (c2, s2, w2)"
      by (rule async_go_on_turn [where view = view and w' = w', OF c2 s2 r(2,1,3)]) (use failed ended goes_on s2(1) r(2) res in simp_all)
  qed
qed

section \<open>The loops\<close>

text \<open>
  The callback gets what the blocking call returns, in a state in which the object and the
  part \<open>view\<close> of the world are as the blocking call leaves them. An error is the same number in another category: the
  error of a completion has the system category and that of a blocking call the generic one.
\<close>

fun same_result :: "size_t result \<Rightarrow> size_t result \<Rightarrow> bool" where
  "same_result (Inr n) (Inr m) = (m = n)"
| "same_result (Inl ec) (Inl ec') =
     (ec_value ec' = ec_value ec \<and> ec_category ec = Generic_category \<and> ec_category ec' = System_category)"
| "same_result _ _ = False"

definition completes_like ::
  "fd_ref \<Rightarrow> ('w \<Rightarrow> 'v) \<Rightarrow> 'f \<Rightarrow> size_t result \<times> io_fd \<times> 'w \<Rightarrow> 'f \<Rightarrow> completion \<Rightarrow> ('f, 'x, 'w) async_state \<Rightarrow> bool"
where
  "completes_like fr view cb = (\<lambda>(out, f', w') cb' r (c, s, w).
     cb' = cb \<and> fd_at s fr = Inr f' \<and> view w = view w' \<and> (\<exists>out'. r = Size_result out' \<and> same_result out out'))"

text \<open>
  From the states in which the object, the buffers and the part of the world are those of the
  blocking loop at done size \<open>d\<close>, which ends with \<open>r\<close>, the operation completes like it.
\<close>

definition simulates ::
  "('w, 'z) clinux_scheme \<Rightarrow> 'w liburing \<Rightarrow> int \<Rightarrow> (sqe_op \<Rightarrow> 'w \<Rightarrow> int \<times> 'w) \<Rightarrow> ('w \<Rightarrow> 'v) \<Rightarrow> (int \<Rightarrow> bool)
   \<Rightarrow> (fd_ref \<times> addr \<times> nat \<times> 'f) \<Rightarrow> io_operation \<Rightarrow> 'x itself
   \<Rightarrow> subspan_t \<Rightarrow> ('w, 'z) clinux_scheme \<Rightarrow> completion_fun \<Rightarrow> buffer_sequence \<Rightarrow> io_fd \<Rightarrow> 'w \<Rightarrow> size_t \<Rightarrow> 'w io_outcome \<Rightarrow> bool"
where
  "simulates k lu ev perform view sk op kind T ss k' cond b f w d r \<longleftrightarrow>
     (case op of (fr, br, ctx, cb) \<Rightarrow>
      \<forall>o' c (s :: 'x io_store_scheme) v iov0. k' = ring_calls sk perform k \<and> r = Inr o' \<and> context_ready ev c
        \<and> fd_at s fr = Inr f \<and> buffers_at s br = Inr b \<and> view v = view w \<and> kind_fits sk f \<longrightarrow>
        completes_with k lu ev perform (io_call kind) view (run_closure ss k lu) (feeds fr) (keeps fr br) (completes_like fr view cb o')
          (\<lambda>fin. async_io_run ss k lu fin kind (io_op ctx cb fr br cond d iov0)) (c, s, v))"

lemma simulatesD:
  fixes s :: "'x io_store_scheme" and T :: "'x itself"
  assumes "simulates k lu ev perform view sk (fr, br, ctx, cb) kind T ss (ring_calls sk perform k) cond b f w d (Inr o')"
    and "context_ready ev c" "fd_at s fr = Inr f" "buffers_at s br = Inr b" "view v = view w" "kind_fits sk f"
  shows "completes_with k lu ev perform (io_call kind) view (run_closure ss k lu) (feeds fr) (keeps fr br) (completes_like fr view cb o')
    (\<lambda>fin. async_io_run ss k lu fin kind (io_op ctx cb fr br cond d iov0)) (c, s, v)"
  using assms unfolding simulates_def prod.case by blast

lemma simulates_done:
  assumes "cond (buffer_size b) d = 0" "r = Inr (Inr d, f, w)"
  shows "simulates k lu ev perform view sk (fr, br, ctx, cb) kind T ss k' cond b f w d r"
  unfolding simulates_def using assms
  by (auto intro!: completes_with.finished [OF _ feeds_refl] simp: async_io_run_done [where cond = cond and d = d] completes_like_def)

lemma simulates_turn:
  fixes cb :: 'f and T :: "'x itself"
  assumes env: "submission_ok k lu ev view" "perform_local perform view" "cqe_res_range perform" "errno_law k perform"
    and iov: "cond (buffer_size b) d \<noteq> 0" "to_iovecs ss b d (cond (buffer_size b) d) = Inr (reserved, iov)"
    and call: "k' = ring_calls sk perform k \<Longrightarrow> kind_fits sk f \<Longrightarrow>
      \<exists>n off. io_get f = Inr n \<and> io_offset f = Inr off \<and> as_syscall (perform (io_sqe kind n iov off) w) = (x, w')"
    and failed: "x = - 1 \<Longrightarrow> r = Inr (Inl (errno_ec k' w'), f, w')"
    and ended: "x = 0 \<Longrightarrow> kind = Read_op \<Longrightarrow> r = Inr (Inr d, f, w')"
    and goes_on: "\<And>o'. x \<noteq> - 1 \<Longrightarrow> x \<noteq> 0 \<or> kind = Write_op \<Longrightarrow> r = Inr o' \<Longrightarrow> \<exists>f'. io_feed f x = Inr f'
      \<and> simulates k lu ev perform view sk (fr, br, ctx, cb) kind T ss k' cond b f' w' (d + word_of_int x) r"
  shows "simulates k lu ev perform view sk (fr, br, ctx, cb) kind T ss k' cond b f w d r"
  unfolding simulates_def prod.case
proof (intro allI impI, elim conjE)
  fix o' v iov0 and c :: "'f closure uring_context" and s :: "'x io_store_scheme"
  assume k': "k' = ring_calls sk perform k" and r: "r = Inr o'" and st: "context_ready ev c" "fd_at s fr = Inr f"
    "buffers_at s br = Inr b" "view v = view w" and fits: "kind_fits sk f"
  obtain n off where performed: "io_get f = Inr n" "io_offset f = Inr off" "as_syscall (perform (io_sqe kind n iov off) w) = (x, w')"
    using call [OF k' fits] by blast
  show "completes_with k lu ev perform (io_call kind) view (run_closure ss k lu) (feeds fr) (keeps fr br) (completes_like fr view cb o')
    (\<lambda>fin. async_io_run ss k lu fin kind (io_op ctx cb fr br cond d iov0)) (c, s, v)"
  proof (rule async_turn [where cond = cond and d = d, OF env(1-3) st iov performed])
    fix c2 :: "'f closure uring_context" and s2 :: "'x io_store_scheme" and w2
    let ?res = "fst (perform (io_sqe kind n iov off) w)"
    assume error: "?res < 0" "fd_at s2 fr = Inr f" "view w2 = view w'"
    have "x = - 1" "w' = snd (perform (io_sqe kind n iov off) w)" using performed(3) error(1) by (simp_all add: as_syscall_def)
    moreover from this have "k_errno k' w' = - ?res" using env(4) error(1) k' unfolding errno_law_def by (simp add: ring_calls_def)
    ultimately show "completes_like fr view cb o' cb (Size_result (Inl (ring_ec ?res))) (c2, s2, w2)"
      using failed r error(2,3) by (auto simp: completes_like_def errno_ec_def as_ec_def)
  next
    assume x: "x \<noteq> - 1" "x \<noteq> 0 \<or> kind = Write_op"
    from goes_on [OF x r] obtain f' where f': "io_feed f x = Inr f'"
      "simulates k lu ev perform view sk (fr, br, ctx, cb) kind T ss k' cond b f' w' (d + word_of_int x) r" by blast
    have "kind_fits sk f'" using kind_fits_feed [OF f'(1)] fits by blast
    then show "\<exists>f'. io_feed f x = Inr f' \<and>
      (\<forall>c2 (s2 :: 'x io_store_scheme) w2. context_ready ev c2 \<and> fd_at s2 fr = Inr f' \<and> buffers_at s2 br = Inr b \<and> view w2 = view w' \<longrightarrow>
        completes_with k lu ev perform (io_call kind) view (run_closure ss k lu) (feeds fr) (keeps fr br) (completes_like fr view cb o')
          (\<lambda>fin. async_io_run ss k lu fin kind (io_op ctx cb fr br cond (d + word_of_int x) iov)) (c2, s2, w2))"
      using f' k' r by (intro exI [of _ f'] conjI allI impI) (auto intro: simulatesD)
  qed (use r ended in \<open>auto simp: completes_like_def\<close>)
qed

lemma async_read_simulates:
  assumes env: "submission_ok k lu ev view" "perform_local perform view" "cqe_res_range perform" "errno_law k perform"
    and loop: "sync_read_loop ss k' cond b f w d = Some r"
  shows "simulates k lu ev perform view sk (fr, br, ctx, cb) Read_op T ss k' cond b f w d r"
  using loop
proof (rule sync_read_loop.raw_induct [rotated])
  fix loop ss k' cond b f w d r
  assume ih: "\<And>ss k' cond b f w d r. loop ss k' cond b f w d = Some r
      \<Longrightarrow> simulates k lu ev perform view sk (fr, br, ctx, cb) Read_op T ss k' cond b f w d r"
    and eq: "(let to_transfer_max = cond (buffer_size b) d in
      if to_transfer_max = 0 then Some (Inr (Inr d, f, w))
      else case to_iovecs ss b d to_transfer_max of
        Inl e \<Rightarrow> Some (Inl e)
      | Inr (reserved, iov) \<Rightarrow>
          (case sync_read_call k' f iov w of
             Inl e \<Rightarrow> Some (Inl e)
           | Inr (syscall_ret, w') \<Rightarrow>
               (if syscall_ret = - 1 then Some (Inr (Inl (errno_ec k' w'), f, w'))
                else if syscall_ret = 0 then Some (Inr (Inr d, f, w'))
                else case io_feed f syscall_ret of
                  Inl e \<Rightarrow> Some (Inl e)
                | Inr f' \<Rightarrow> loop ss k' cond b f' w' (d + word_of_int syscall_ret)))) = Some r"
  consider "cond (buffer_size b) d = 0" | e where "r = Inl e"
    | reserved iov x w' where "cond (buffer_size b) d \<noteq> 0" "to_iovecs ss b d (cond (buffer_size b) d) = Inr (reserved, iov)"
      "sync_read_call k' f iov w = Inr (x, w')"
    using eq by (auto simp: Let_def split: sum.splits if_splits)
  then show "simulates k lu ev perform view sk (fr, br, ctx, cb) Read_op T ss k' cond b f w d r"
  proof cases
    case 1
    then show ?thesis using eq by (intro simulates_done) simp_all
  next
    case 2
    then show ?thesis by (simp add: simulates_def)
  next
    case 3
    show ?thesis
    proof (rule simulates_turn [where cond = cond and d = d, OF env 3(1,2)])
      show "\<exists>n off. io_get f = Inr n \<and> io_offset f = Inr off \<and> as_syscall (perform (io_sqe Read_op n iov off) w) = (x, w')"
        if "k' = ring_calls sk perform k" "kind_fits sk f"
        using ring_call_performed(1) [OF that(2) 3(3) [unfolded that(1)]] .
    qed (use eq 3 ih in \<open>auto split: sum.splits\<close>)
  qed
qed

lemma async_write_simulates:
  assumes env: "submission_ok k lu ev view" "perform_local perform view" "cqe_res_range perform" "errno_law k perform"
    and loop: "sync_write_loop ss k' cond b f w d = Some r"
  shows "simulates k lu ev perform view sk (fr, br, ctx, cb) Write_op T ss k' cond b f w d r"
  using loop
proof (rule sync_write_loop.raw_induct [rotated])
  fix loop ss k' cond b f w d r
  assume ih: "\<And>ss k' cond b f w d r. loop ss k' cond b f w d = Some r
      \<Longrightarrow> simulates k lu ev perform view sk (fr, br, ctx, cb) Write_op T ss k' cond b f w d r"
    and eq: "(let to_transfer_max = cond (buffer_size b) d in
      if to_transfer_max = 0 then Some (Inr (Inr d, f, w))
      else case to_iovecs ss b d to_transfer_max of
        Inl e \<Rightarrow> Some (Inl e)
      | Inr (reserved, iov) \<Rightarrow>
          (case sync_write_call k' f iov w of
             Inl e \<Rightarrow> Some (Inl e)
           | Inr (syscall_ret, w') \<Rightarrow>
               (if syscall_ret = - 1 then Some (Inr (Inl (errno_ec k' w'), f, w'))
                else case io_feed f syscall_ret of
                  Inl e \<Rightarrow> Some (Inl e)
                | Inr f' \<Rightarrow> loop ss k' cond b f' w' (d + word_of_int syscall_ret)))) = Some r"
  consider "cond (buffer_size b) d = 0" | e where "r = Inl e"
    | reserved iov x w' where "cond (buffer_size b) d \<noteq> 0" "to_iovecs ss b d (cond (buffer_size b) d) = Inr (reserved, iov)"
      "sync_write_call k' f iov w = Inr (x, w')"
    using eq by (auto simp: Let_def split: sum.splits if_splits)
  then show "simulates k lu ev perform view sk (fr, br, ctx, cb) Write_op T ss k' cond b f w d r"
  proof cases
    case 1
    then show ?thesis using eq by (intro simulates_done) simp_all
  next
    case 2
    then show ?thesis by (simp add: simulates_def)
  next
    case 3
    show ?thesis
    proof (rule simulates_turn [where cond = cond and d = d, OF env 3(1,2)])
      show "\<exists>n off. io_get f = Inr n \<and> io_offset f = Inr off \<and> as_syscall (perform (io_sqe Write_op n iov off) w) = (x, w')"
        if "k' = ring_calls sk perform k" "kind_fits sk f"
        using ring_call_performed(2) [OF that(2) 3(3) [unfolded that(1)]] .
    qed (use eq 3 ih in \<open>auto split: sum.splits\<close>)
  qed
qed

text \<open>
  C5. The asynchronous transfers are equivalent to the blocking ones. If the blocking \<open>read\<close>, whose
  calls do what the ring does, returns a count, then \<open>async::read\<close> invokes its callback exactly once and
  with the same count; if it returns an error, the callback gets an error with the same number, in the system category where the
  blocking call has the generic one. The object and the part \<open>view\<close> of the
  world that the calls depend on are left as the blocking call leaves them; and likewise for \<open>write\<close>. This holds for
  every completion condition and whatever the calls do, in every environment that leaves the
  object, the buffers and that part of the world alone, as long as the submission queue has room (\<open>submission_ok\<close>).
\<close>

theorem async_equals_sync:
  fixes cb :: 'f and s :: "'x io_store_scheme" and w :: 'w and k :: "('w, 'z) clinux_scheme"
  assumes "submission_ok k lu ev view" and "perform_local perform view" and "cqe_res_range perform" and "errno_law k perform"
    and "context_ready ev c" and "fd_at s fr = Inr f" and "io_context f = Inr ctx" and "buffers_at s br = Inr b" and "kind_fits sk f"
  shows "(sync_read ss (ring_calls sk perform k) f b cond w = Some (Inr out) \<longrightarrow>
       completes_with k lu ev perform (io_call Read_op) view (run_closure ss k lu) (feeds fr) (keeps fr br)
         (completes_like fr view cb out) (\<lambda>fin. async_read ss k lu fin fr br cond cb) (c, s, w))
    \<and> (sync_write ss (ring_calls sk perform k) f b cond w = Some (Inr out) \<longrightarrow>
       completes_with k lu ev perform (io_call Write_op) view (run_closure ss k lu) (feeds fr) (keeps fr br)
         (completes_like fr view cb out) (\<lambda>fin. async_write ss k lu fin fr br cond cb) (c, s, w))"
proof -
  note start = async_start [OF assms(6,7)]
  show ?thesis
    unfolding sync_read_def sync_write_def
  proof (intro conjI impI)
    assume "sync_read_loop ss (ring_calls sk perform k) cond b f w 0 = Some (Inr out)"
    note sim = async_read_simulates [OF assms(1-4) this, where T = "TYPE('x)"]
    show "completes_with k lu ev perform (io_call Read_op) view (run_closure ss k lu) (feeds fr) (keeps fr br)
        (completes_like fr view cb out) (\<lambda>fin. async_read ss k lu fin fr br cond cb) (c, s, w)"
      by (rule completes_with_cong, rule simulatesD [OF sim assms(5,6,8) refl assms(9)], rule start(1))
  next
    assume "sync_write_loop ss (ring_calls sk perform k) cond b f w 0 = Some (Inr out)"
    note sim = async_write_simulates [OF assms(1-4) this, where T = "TYPE('x)"]
    show "completes_with k lu ev perform (io_call Write_op) view (run_closure ss k lu) (feeds fr) (keeps fr br)
        (completes_like fr view cb out) (\<lambda>fin. async_write ss k lu fin fr br cond cb) (c, s, w)"
      by (rule completes_with_cong, rule simulatesD [OF sim assms(5,6,8) refl assms(9)], rule start(2))
  qed
qed

text \<open>
  On the ring of \<open>Ark_Ring_Demo\<close>, with the whole world as the part that the calls depend on; and on a ring whose calls
  all fail, where the callback gets \<open>EINVAL\<close>.
\<close>

lemma demo_errno_law: "errno_law demo_ring_clinux demo_perform" "errno_law demo_ring_clinux (\<lambda>sqe w. (- EINVAL, w))"
proof -
  have "k_errno demo_ring_clinux w = EINVAL" for w by (simp add: demo_ring_clinux_def demo_clinux_def failing_clinux_def)
  then show "errno_law demo_ring_clinux demo_perform" "errno_law demo_ring_clinux (\<lambda>sqe w. (- EINVAL, w))"
    by (auto simp: errno_law_def io_sqe_def as_res_def split: io_operation.splits)
qed

lemma failing_ring_read:
  "sync_read plain_subspan (ring_calls demo_sk (\<lambda>sqe w. (- EINVAL, w)) demo_ring_clinux) demo_socket demo_buffer transfer_all_t demo_start =
     Some (Inr (Inl (as_ec EINVAL), demo_socket, demo_start))"
proof -
  let ?k = "ring_calls demo_sk (\<lambda>sqe w. (- EINVAL, w)) demo_ring_clinux"
  have size: "transfer_all_t (buffer_size demo_buffer) 0 \<noteq> 0" by code_simp
  obtain reserved iov where iov: "to_iovecs plain_subspan demo_buffer 0 (transfer_all_t (buffer_size demo_buffer) 0) = Inr (reserved, iov)"
    using to_iovecs_window [OF gsl_subspan_plain size] by metis
  have call: "sync_read_call ?k demo_socket iov demo_start = Inr (- 1, demo_start)"
    using ring_call(1) [OF demo_fds(1,3,7), where off = 0 and perform = "\<lambda>sqe w. (- EINVAL, w)"] by (simp add: as_syscall_def demo_socket_def)
  have "errno_ec ?k demo_start = as_ec EINVAL"
    by (simp add: errno_ec_def ring_calls_def demo_ring_clinux_def demo_clinux_def failing_clinux_def)
  then show ?thesis
    unfolding sync_read_def by (subst sync_read_loop.simps) (simp add: size iov call Let_def)
qed

theorem async_equals_sync_witness:
  "(\<exists>out. sync_read plain_subspan (ring_calls demo_sk demo_perform demo_ring_clinux) demo_socket demo_buffer transfer_all_t demo_start = Some (Inr out)
     \<and> completes_with demo_ring_clinux idle_liburing 3 demo_perform (io_call Read_op) (\<lambda>w. w)
         (run_closure plain_subspan demo_ring_clinux idle_liburing) (feeds (Fd_ref 4096)) (keeps (Fd_ref 4096) 16384)
         (completes_like (Fd_ref 4096) (\<lambda>w. w) ''handler'' out)
         (\<lambda>fin. async_read plain_subspan demo_ring_clinux idle_liburing fin (Fd_ref 4096) 16384 transfer_all_t ''handler'')
         (ready_context, demo_store, demo_start))
   \<and> (\<exists>out. sync_write plain_subspan (ring_calls demo_sk demo_perform demo_ring_clinux) demo_socket demo_buffer transfer_all_t demo_start = Some (Inr out)
     \<and> completes_with demo_ring_clinux idle_liburing 3 demo_perform (io_call Write_op) (\<lambda>w. w)
         (run_closure plain_subspan demo_ring_clinux idle_liburing) (feeds (Fd_ref 4096)) (keeps (Fd_ref 4096) 16384)
         (completes_like (Fd_ref 4096) (\<lambda>w. w) ''handler'' out)
         (\<lambda>fin. async_write plain_subspan demo_ring_clinux idle_liburing fin (Fd_ref 4096) 16384 transfer_all_t ''handler'')
         (ready_context, demo_store, demo_start))
   \<and> completes_with demo_ring_clinux idle_liburing 3 (\<lambda>sqe w. (- EINVAL, w)) (io_call Read_op) (\<lambda>w. w)
         (run_closure plain_subspan demo_ring_clinux idle_liburing) (feeds (Fd_ref 4096)) (keeps (Fd_ref 4096) 16384)
         (completes_like (Fd_ref 4096) (\<lambda>w. w) ''handler'' (Inl (as_ec EINVAL), demo_socket, demo_start))
         (\<lambda>fin. async_read plain_subspan demo_ring_clinux idle_liburing fin (Fd_ref 4096) 16384 transfer_all_t ''handler'')
         (ready_context, demo_store, demo_start)"
proof -
  let ?k = "ring_calls demo_sk demo_perform demo_ring_clinux"
  have local: "perform_local perform (\<lambda>w. w)" for perform :: "sqe_op \<Rightarrow> 'a \<Rightarrow> int \<times> 'a" by (simp add: perform_local_def)
  have range: "cqe_res_range (\<lambda>sqe w. (- EINVAL, w))" by (simp add: cqe_res_range_def)
  note objects = demo_context_ready demo_objects(1) demo_fds(2) demo_objects(3) demo_fds(3)
  note equal = async_equals_sync [OF demo_ring_ok local demo_cqe_res_range demo_errno_law(1) objects]
    and fails = async_equals_sync [OF demo_ring_ok local range demo_errno_law(2) objects, THEN conjunct1, rule_format, OF failing_ring_read]
  note cc = transfer_all.completion_condition_axioms demo_buffer_fits demo_fds(1)
  from sync_read_total [OF demo_ring_laws(1,2) gsl_subspan_plain cc]
  obtain out where rd: "sync_read plain_subspan ?k demo_socket demo_buffer transfer_all_t demo_start = Some (Inr out)" by blast
  from sync_write_total [OF demo_ring_laws(3-5) gsl_subspan_plain cc]
  obtain out' where wr: "sync_write plain_subspan ?k demo_socket demo_buffer transfer_all_t demo_start = Some (Inr out')" by blast
  show ?thesis
    by (intro conjI exI, rule rd, rule equal [THEN conjunct1, rule_format, OF rd], rule wr, rule equal [THEN conjunct2, rule_format, OF wr],
        rule fails)
qed

end
