(* ===== verification/Spec2Isabelle.thy ===== *)
theory Spec2Isabelle
  imports Ark_Context_Trace Ark_Context_Handle Ark_Main Ark_Echo_Server Ark_Promise Ark_Address_Test Ark_General_Test Ark_Equivalence
begin

text \<open>
  arkio is a header-only C++ library for input and output on Linux: io objects that own a file
  descriptor, buffer sequences, blocking transfers, and the same transfers asynchronously on an
  event loop over io_uring, with callbacks or coroutines. This development models the library from
  the headers under \<open>src/include/ark\<close> and proves that it does what it is for.

  \<^bold>\<open>The parts of the program and their theories.\<close>

  \<^item> \<open>Ark_Prelude\<close>: addresses and bytes, \<open>addr_range\<close> (the bytes of a region), \<open>store\<close> (a write to
    memory), and the lemmas on words, lists and memory that the others share.
  \<^item> \<open>Ark_Buffer\<close> (\<open>buffer/buffer.hpp\<close>) and \<open>Ark_Sequence\<close> (\<open>buffer/sequence.hpp\<close>): buffers as an address
    and a size, their arithmetic and creation, which never leave the container while the offsets of \<open>+=\<close> fit (\<open>buffer_stays_inside\<close>); \<open>buffer_sequence_begin/end\<close>, \<open>buffer_size\<close>,
    \<open>buffer_copy\<close>, whose outcome is compared with the list of the pieces it copies (\<open>pieces\<close>, \<open>copy_end\<close>). A sequence denotes the list \<open>seq_addrs\<close> of the addresses it covers.
  \<^item> \<open>Ark_Bindings\<close> (\<open>bindings/\<close>): error codes and \<open>result\<close>, and the record \<open>clinux\<close> of system calls.
    \<open>Ark_Kernel\<close> states what readv, writev, preadv2 and pwritev2 document (\<open>readv_law\<close> and so on) over an
    abstract world, and has a small executable kernel that obeys the laws, for the witnesses.
  \<^item> \<open>Ark_Iovecs\<close> (\<open>io/iovecs.hpp\<close>): the scatter/gather list of one call.
  \<^item> \<open>Ark_Completion\<close> (\<open>io/completion_condition.hpp\<close>): the three completion conditions, and the locale
    \<open>completion_condition\<close>, the contract of a condition with a goal and a cap; it is interpreted on all three.
  \<^item> \<open>Ark_Owner\<close>: the locale \<open>unique_owner\<close>, the contract of a class that holds a resource and gives it back in its
    destructor: a resource that is moved or assigned is given back once. It is interpreted on \<open>fd\<close>, \<open>seekable_fd\<close>,
    \<open>cqe_ref\<close> and \<open>async_context\<close>.
  \<^item> \<open>Ark_Fd\<close> (\<open>io/fd.hpp\<close>, \<open>io/concepts.hpp\<close>, \<open>async/context.hpp\<close>): \<open>fd\<close> and \<open>seekable_fd\<close> with their move and
    destruction, and \<open>io_fd\<close>, an object of either kind, the template parameter of the transfers.
  \<^item> \<open>Ark_Sync_IO\<close> (\<open>io/sync.hpp\<close>): the blocking \<open>read\<close> and \<open>write\<close> loops.
  \<^item> \<open>Ark_Uring\<close> (\<open>async/io_uring/io_uring.hpp\<close>): \<open>sqe_ref\<close>, \<open>cqe_ref\<close>, \<open>io_uring\<close> over the record \<open>liburing\<close>.
  \<^item> \<open>Ark_Context\<close> and \<open>Ark_Context_Trace\<close> (\<open>async/io_uring/context.hpp\<close>): tokens, registered callbacks, mutexes,
    the waker, \<open>run\<close>; and every sequence of whole operations as an inductive relation, labelled with the
    tokens given out and the callbacks registered and taken. \<open>Ark_Context_Handle\<close>:
    \<open>async_context\<close>, the object that owns a context, and the locale \<open>exit_contract\<close>, how a loop is ended, interpreted on both
    classes. The theories of the clients work on the owned context.
  \<^item> \<open>Ark_Async\<close> (\<open>async/async_op.hpp\<close>, \<open>async/callback.hpp\<close>, \<open>async/io_uring/async_syscall.hpp\<close>): an asynchronous
    operation and its closures, the submissions, and \<open>completes_with\<close>, total correctness of an operation against an
    environment that may change everything outside a given part of the world and of the objects.
    \<open>Ark_Async_IO\<close> (\<open>io/async.hpp\<close>): the asynchronous \<open>read\<close> and \<open>write\<close>. \<open>Ark_Ring_Demo\<close> is a ring and a
    kernel for the witnesses.
  \<^item> \<open>Ark_Pass\<close> and \<open>Ark_Loop\<close>: what a ring does (\<open>submit_law\<close>, \<open>wait_law\<close>, \<open>completion_law\<close>), what one pass of
    \<open>context_run\<close> does with it, and that a new loop runs a program to its end (\<open>loop_runs_program\<close>). \<open>Ark_Uring_Demo\<close>
    is an executable ring that keeps the laws, for the witnesses.
  \<^item> \<open>Ark_General\<close> (\<open>general/\<close>): \<open>event_fd\<close>, \<open>mem_fd\<close>, \<open>normal_file\<close>, \<open>pipe_fd\<close>.
  \<^item> \<open>Ark_Address\<close> (\<open>net/address.hpp\<close>): addresses as the bytes of a \<open>sockaddr_storage\<close>; \<open>Ark_Address_Type\<close>: the
    objects of the three classes that a program can produce, as an inductive relation, with a mark on those whose
    family an accept may have replaced.
  \<^item> \<open>Ark_Tcp\<close> (\<open>net/tcp/\<close>): sockets, acceptors, and \<open>connect\<close> and \<open>accept\<close> in both interfaces; \<open>run_closure\<close> is
    the dispatch of every closure the library registers.
  \<^item> \<open>Ark_Ownership\<close>: programs that create io objects of all classes, move, assign, seek, feed and destroy them, as
    an inductive relation on their objects and the open descriptors; the contract of every function that creates one
    (\<open>creation\<close>), and what an explicit \<open>close()\<close> does to it.
  \<^item> \<open>Ark_Equivalence\<close>: the asynchronous transfers against the blocking ones, run with the same system calls.
  \<^item> \<open>Ark_Coroutine\<close> (\<open>coroutine/\<close>, \<open>misc/manual_lifetime.hpp\<close>, \<open>misc/context_exit_guard.hpp\<close>, \<open>io/coro.hpp\<close>,
    \<open>net/tcp/coro.hpp\<close>): promises, tasks, awaitables, \<open>co_async\<close>, and what the language does with coroutines:
    frames, suspension, symmetric transfer, destruction. \<open>Ark_Coroutine_IO\<close> has the laws of an awaited
    transfer, \<open>Ark_Promise\<close> the contracts of storage and of awaitables, as locales interpreted on the
    value and the reference or void versions, and the life of a returned value.
  \<^item> \<open>Ark_Examples\<close> (\<open>examples/sync_cat.cpp\<close>, \<open>examples/sync_echo_server.cpp\<close>, \<open>tests/test_general.cpp\<close>), \<open>Ark_General_Test\<close>
    (\<open>tests/test_general.cpp\<close>), \<open>Ark_Address_Test\<close> (\<open>tests/test_net_address.cpp\<close>), \<open>Ark_Coro_Cat\<close> and \<open>Ark_Coro_Cat_Run\<close>
    (\<open>examples/coro_cat.cpp\<close>), \<open>Ark_Echo_Server\<close> (the whole of \<open>examples/sync_echo_server.cpp\<close>),
    \<open>Ark_Coro_Echo\<close> (\<open>examples/coro_echo_server.cpp\<close>), \<open>Ark_Async_Echo\<close> (\<open>examples/async_echo_server.cpp\<close>): client programs. \<open>Ark_Main\<close>
    has the \<open>main\<close> functions of the five examples, and compares the two cats.

  \<^bold>\<open>How code becomes definitions.\<close> A function of the library that does input or output takes the
  record of system calls \<open>k\<close> (and of liburing, \<open>lu\<close>) and the world \<open>w\<close>, and returns its result and the
  new world. A C++ object is a record, a moved-from object an empty one. \<open>result<T>\<close> is
  \<open>error_code + 'a\<close>. Outside it a second sum \<open>failure + _\<close> holds what ends the program or has no defined
  meaning: a failed \<open>Expects\<close>, a null dereference, a reference to an object that is gone, a second lock
  of a mutex, a call of an empty function. Sizes and tokens are 64-bit words and ports 16-bit words;
  \<open>off_t\<close> is an integer with its range written out, because signed overflow is undefined. The loops of the
  transfers, of the event loop and of the example programs are partial functions in which not returning is
  \<open>None\<close>; a theorem that says such a function equals \<open>Some\<close> of something says that it returns. An
  asynchronous callback is a value of the datatype \<open>closure\<close>, one constructor for each function the
  library registers, with its captures; objects that closures refer to live in a store, \<open>io_store\<close>.
  A coroutine function of a program is a value of a datatype of its suspension points, and \<open>p_body\<close>
  says what it does from one on: one \<open>action\<close>, an await, a call of \<open>co_async\<close>, the end of a scope, or a
  return. Frames live in the store (\<open>co_frames\<close>); \<open>co_resume\<close> runs a coroutine, and those it transfers to,
  until all are suspended again. Its fuel bounds the number of actions between two suspensions, plus the
  depth of nested tasks; the theorems give the fuel that is enough for each program (they hold for every
  larger amount), and running out would be the failure \<open>Out_of_fuel\<close>, which they exclude.

  \<^bold>\<open>What is proved.\<close> The blocking and the asynchronous transfers move exactly the bytes they report,
  in order and at the right offset, meet their completion condition or reach the end of the input, and
  return (the blocking ones) or invoke the callback exactly once (the asynchronous ones, whatever
  the loop does between their steps with other objects, other descriptors and other memory). Both rest on the
  scatter/gather lists addressing exactly the bytes
  not yet done, and on the contract of completion conditions. On the same system calls both interfaces transfer the same
  bytes and report the same count or the same error number; only the category of the error differs (\<open>async_equals_sync\<close>).
  The event loop gives every submission
  its own token, takes every registered callback at most once and only after it was registered, marks every
  completion seen, and returns after \<open>exit\<close>. Every function that creates an io object creates it with exactly the descriptor the kernel
  returned or reports the errno (\<open>creations_all_or_nothing\<close>); every descriptor a program opens has one owner, which closes it
  once (\<open>descriptors_owned_once\<close>); an accepted socket owns the descriptor of its completion. Offsets add up, addresses
  round-trip, and the client programs copy, echo and read back what they should; whichever call of the blocking
  echo server fails, it leaves no descriptor open (\<open>echo_server_cleans_up\<close>).
  Coroutines: the result of a task is neither leaked nor destroyed twice; \<open>coro_cat\<close> refines \<open>sync_cat\<close> and
  the echo coroutines the echo specification, for one connection served in isolation, and when they are
  done all their frames and objects are gone and each descriptor is closed. From the set-up of the loop
  to the value of its future, \<open>run\<close> of coro_cat returns (\<open>coro_cat_run_correct\<close>), and on the same files the processes sync_cat and coro_cat end
  with the same output unless one of them reports an error, whose message is then printed (\<open>cats_agree\<close>). The last properties
  prove where the code goes wrong: a wake that fails while the callback mutex is held, a waker that
  wakes itself, a write that never ends, a copy that ignores its limit, an explicit close after which the destructor
  closes the descriptor of another object, callbacks called
  twice or after they were moved away, failed accepts that end the process, and temporary buffers that the callback echo server uses after
  their end.

  \<^bold>\<open>Hypotheses and bounds.\<close> The laws of the kernel are hypotheses about the records of calls. They allow
  short transfers and errors at any call. A buffer sequence must cover fewer than \<open>2 ^ 64\<close> bytes, the
  range of \<open>size_t\<close>. For writes the kernel must not return 0 for a request that is not empty
  (\<open>write_progress\<close>); without this \<open>sync::write\<close> may not return. Tokens are unique for the first
  \<open>2 ^ 64\<close> submissions. Asynchronous transfers need the object and the buffer sequence to stay alive and
  to be left alone by others (\<open>keeps\<close>), and each completion to fit the \<open>int\<close> that io_uring reports.

  The theorems on asynchronous operations and on coroutines assume \<open>submission_ok\<close>: in every world
  io_uring_get_sqe(3) finds an entry and the eventfd of the waker can be written. The two ways in which this fails, a full
  submission queue, which io_uring_get_sqe(3) documents, and a failing wake, are \<open>async_queue_full_calls_empty\<close> and
  \<open>add_sqe_cb_wake_failure_deadlocks\<close>. Between the steps of an operation the environment may do
  what it likes outside of a view of the world. For a single transfer the view is \<open>io_part\<close>: the memory at the addresses \<open>A\<close>, which
  include the buffers, and what is behind the descriptor of the transfer. The theorems on coroutine programs use \<open>io_view\<close>,
  all memory, all streams and all files: they are about a program that has these to itself, so coro_cat alone, and the echo
  server with one connection at a time. An accept is assumed to succeed in the worlds that agree with the view; a
  failing one is \<open>accept_error_terminates\<close>. \<open>errno_law\<close>, for the comparison of the two interfaces, says that when a call
  fails, \<open>errno\<close> has the number that the ring reports, negated, in the completion.

  A program with coroutines needs fresh addresses for its frames and objects (\<open>new_law\<close>), a
  file system whose open returns the named file (\<open>opens_files\<close>), calls that leave other connections alone
  (\<open>conn_keeps\<close>), and system calls that do not change the rings (\<open>calls_keep\<close>).

  That the loop itself returns needs a ring that makes progress: \<open>wait_law\<close> says that io_uring_wait_cqe(3) is
  not interrupted and that an operation completes before more than \<open>B\<close> waits have returned. \<open>B\<close> is arbitrary
  up to \<open>2 ^ 63 - 4\<close>, so that the counter of tokens cannot come round to one still in use; the
  kernel decides when and in which order operations complete. \<open>waker_law\<close> says that a polled eventfd can
  be read, \<open>start_law\<close> that eventfd(2) and io_uring_queue_init(3) succeed. \<open>descriptor_law\<close> says that the calls that
  return a descriptor return one that was not open, and that close(2) closes the one it is given.

  \<^bold>\<open>What is not modelled.\<close> Preemption inside an operation of the context (operations interleave whole, as
  its mutexes make them), allocation failure, the internals of liburing, function2, outcome and GSL
  (parameters, or the sum type), the texts of error codes (a parameter), the debug output of \<open>dump\<close>, the overload of
  \<open>add_sqe\<close> of \<open>singlethread_uring_async_context\<close> without a callback, which no code instantiates, the casts to
  \<open>sockaddr *\<close> (an address is its bytes), and the static initialiser that ignores SIGPIPE. \<open>bindings.hpp\<close> is otherwise a list of includes and using declarations, and
  \<open>doxygen_misc.hpp\<close> only documents concepts.
\<close>

section \<open>Asynchronous transfers\<close>

text \<open>
  C3. \<open>async::read\<close> invokes its callback exactly once, whatever else the event loop, other operations and other
  threads do between its steps, as long as they leave alone the io object, the buffer sequence, the bytes behind the
  descriptor \<open>n\<close> and the memory at the addresses \<open>A\<close>, which have at least the bytes of the buffers. The submission
  queue must have room and the waker must be writable (\<open>submission_ok\<close>), and the kernel performs submitted calls as
  documented. An error is one that the kernel reported for a call of this operation, with the system
  category. Otherwise the count \<open>m\<close> is the number of bytes transferred: the first \<open>m\<close> bytes of the buffer sequence hold
  the next \<open>m\<close> bytes of the stream or file, no other byte of \<open>A\<close> changed, the object has been fed \<open>m\<close> bytes, and the
  goal of the completion condition is reached unless the end of the input was. With all addresses for \<open>A\<close> this
  is the guarantee of \<open>sync::read\<close>.
\<close>

theorem async_read_correct:
  fixes cb :: 'f and s :: "'x io_store_scheme" and w :: 'w
  assumes "readv_law (ring_calls sk perform k) memory stream"
    and "preadv2_law (ring_calls sk perform k) memory file"
    and "cqe_res_range perform" and "gsl_subspan ss" and "completion_condition cond goal cap"
    and "length (seq_addrs b) < 2 ^ 64" and "submission_ok k lu ev (io_part A memory stream file n)"
    and "context_ready ev c" and "fd_at s fr = Inr f" and "io_live f" and "io_context f = Inr ctx"
    and "kind_fits sk f" and "buffers_at s br = Inr b" and "io_get f = Inr n" and "set (seq_addrs b) \<subseteq> A"
  shows "completes_with k lu ev perform (io_call Read_op) (io_part A memory stream file n) (run_closure ss k lu) (feeds fr) (keeps fr br)
    (\<lambda>cb' r (c', s', w'). cb' = cb \<and>
       (\<exists>out f' m. r = Size_result out \<and> fd_at s' fr = Inr f' \<and> io_live f' \<and>
          io_feed f (int m) = Inr f' \<and> m \<le> unat (cap (buffer_size b)) \<and>
          (case out of
             Inl e \<Rightarrow> ring_error perform Read_op n e
           | Inr z \<Rightarrow>
               m = unat z \<and> m \<le> length (pending stream file f w)
               \<and> (unat (goal (buffer_size b)) \<le> m \<or> m = length (pending stream file f w))
               \<and> pending stream file f' w' = drop m (pending stream file f w)
               \<and> (\<forall>a \<in> A. memory w' a = store (memory w) (take m (seq_addrs b)) (take m (pending stream file f w)) a))))
    (\<lambda>fin. async_read ss k lu fin fr br cond cb) (c, s, w)"
    (is "completes_with _ _ _ _ _ _ _ _ _ ?post _ _")
proof -
  let ?P = "pending stream file f w" and ?mem = "\<lambda>w. mem_on A (memory w)"
  let ?Q = "async_read_post (ring_error perform Read_op n) ?mem (pending stream file) goal cap fr b cb f (?mem w) ?P"
  have "completes_with k lu ev perform (io_call Read_op) (io_part A memory stream file n) (run_closure ss k lu) (feeds fr) (keeps fr br)
      ?Q (\<lambda>fin. async_io_run ss k lu fin Read_op (io_op ctx cb fr br cond 0 [])) (c, s, w)"
    by (rule async_read_total [OF assms(1-6,10,14,15,7) run_closure_io assms(8,9,13,12) read_inv_start [OF assms(10)]])
  then have "completes_with k lu ev perform (io_call Read_op) (io_part A memory stream file n) (run_closure ss k lu) (feeds fr) (keeps fr br)
      ?Q (\<lambda>fin. async_read ss k lu fin fr br cond cb) (c, s, w)"
    using async_start(1) [OF assms(9,11)] by (rule completes_with_cong)
  then show ?thesis
  proof (rule completes_with_mono)
    fix cb' r and st :: "('f, 'x, 'w) async_state"
    assume "?Q cb' r st"
    then obtain out f' m where Q: "cb' = cb" "r = Size_result out" "fd_at (fst (snd st)) fr = Inr f'" "io_live f'"
      "io_feed f (int m) = Inr f'" "m \<le> unat (cap (buffer_size b))"
      "case out of Inl e \<Rightarrow> ring_error perform Read_op n e
       | Inr z \<Rightarrow> m = unat z \<and> read_result goal cap (buffer_size b) ?P m \<and>
           pending stream file f' (snd (snd st)) = drop m ?P \<and> ?mem (snd (snd st)) = received (?mem w) (seq_addrs b) ?P m"
      unfolding async_read_post_def by blast
    have "set (take m (seq_addrs b)) \<subseteq> A" using assms(15) set_take_subset by fast
    then have "?mem w' = received (?mem w) (seq_addrs b) ?P m \<Longrightarrow>
        (\<forall>a \<in> A. memory w' a = store (memory w) (take m (seq_addrs b)) (take m ?P) a)" for w'
      by (simp add: received_def flip: mem_on_store mem_on_eq_iff)
    with Q show "?post cb' r st"
      by (cases st; cases out) (auto simp: read_result_def)
  qed
qed

abbreviation (input) demo_pending :: "io_fd \<Rightarrow> demo_world \<Rightarrow> byte list" where
  "demo_pending \<equiv> pending (\<lambda>n w. dw_in w n) (\<lambda>n w. dw_file w n)"

text \<open>Other operations of the loop may use every other descriptor and all memory but the buffer.\<close>

theorem async_read_correct_witness:
  "completes_with demo_ring_clinux idle_liburing 3 demo_perform (io_call Read_op)
     (io_part (set (seq_addrs demo_buffer)) dw_mem (\<lambda>n w. dw_in w n) (\<lambda>n w. dw_file w n) 5)
     (run_closure plain_subspan demo_ring_clinux idle_liburing) (feeds (Fd_ref 4096)) (keeps (Fd_ref 4096) 16384)
     (\<lambda>cb' r (c', s', w'). cb' = ''handler'' \<and>
        (\<exists>out f' m. r = Size_result out \<and> fd_at s' (Fd_ref 4096) = Inr f' \<and> io_live f' \<and>
           io_feed demo_socket (int m) = Inr f' \<and> m \<le> unat (buffer_size demo_buffer) \<and>
           (case out of
              Inl e \<Rightarrow> ring_error demo_perform Read_op 5 e
            | Inr z \<Rightarrow>
                m = unat z \<and> m \<le> length (demo_pending demo_socket demo_start)
                \<and> (unat (min 1 (buffer_size demo_buffer)) \<le> m \<or> m = length (demo_pending demo_socket demo_start))
                \<and> demo_pending f' w' = drop m (demo_pending demo_socket demo_start)
                \<and> (\<forall>a \<in> set (seq_addrs demo_buffer). dw_mem w' a = store (dw_mem demo_start) (take m (seq_addrs demo_buffer))
                    (take m (demo_pending demo_socket demo_start)) a))))
     (\<lambda>fin. async_read plain_subspan demo_ring_clinux idle_liburing fin (Fd_ref 4096) 16384 (transfer_at_least_t 1) ''handler'')
     (ready_context, demo_store, demo_start)"
  by (rule async_read_correct [OF demo_ring_laws(1,2) demo_cqe_res_range gsl_subspan_plain
      transfer_at_least.completion_condition_axioms demo_buffer_fits demo_ring_ok demo_context_ready
      demo_objects(1) demo_fds(1-3) demo_objects(3) demo_fds(7) subset_refl])

text \<open>
  C4. \<open>async::write\<close> invokes its callback exactly once, in every environment that leaves alone the object, the
  buffer sequence, what is behind the descriptor \<open>n\<close> and the memory at the addresses \<open>A\<close>, under the same conditions and if a call with
  something to write never reports 0 bytes. The memory at \<open>A\<close> is unchanged. An error is one that the kernel reported
  for a call of this operation, with the system
  category. Otherwise the count lies between the goal and the cap of the condition and the
  object has taken exactly that many bytes of the buffer sequence, in order, as \<open>sync::write\<close> promises.
\<close>

theorem async_write_correct:
  fixes cb :: 'f and s :: "'x io_store_scheme" and w :: 'w
  assumes "writev_law (ring_calls sk perform k) memory sink"
    and "pwritev2_law (ring_calls sk perform k) memory file" and "write_progress (ring_calls sk perform k)"
    and "cqe_res_range perform" and "gsl_subspan ss" and "completion_condition cond goal cap"
    and "length (seq_addrs b) < 2 ^ 64" and "submission_ok k lu ev (io_part A memory sink file n)"
    and "context_ready ev c" and "fd_at s fr = Inr f" and "io_live f" and "io_context f = Inr ctx"
    and "kind_fits sk f" and "buffers_at s br = Inr b" and "io_get f = Inr n" and "set (seq_addrs b) \<subseteq> A"
  shows "completes_with k lu ev perform (io_call Write_op) (io_part A memory sink file n) (run_closure ss k lu) (feeds fr) (keeps fr br)
    (\<lambda>cb' r (c', s', w'). cb' = cb \<and>
       (\<exists>out f'. r = Size_result out \<and> fd_at s' fr = Inr f' \<and> io_live f' \<and> (\<forall>a \<in> A. memory w' a = memory w a) \<and>
          (case out of
             Inl e \<Rightarrow> ring_error perform Write_op n e
           | Inr z \<Rightarrow> goal (buffer_size b) \<le> z \<and> z \<le> cap (buffer_size b)
               \<and> written sink file f w (map (memory w) (take (unat z) (seq_addrs b))) f' w')))
    (\<lambda>fin. async_write ss k lu fin fr br cond cb) (c, s, w)"
    (is "completes_with _ _ _ _ _ _ _ _ _ ?post _ _")
proof -
  let ?mem = "\<lambda>w. mem_on A (memory w)"
  let ?Q = "async_write_post (ring_error perform Write_op n) ?mem (written sink file) goal cap fr b cb f w"
  have "completes_with k lu ev perform (io_call Write_op) (io_part A memory sink file n) (run_closure ss k lu) (feeds fr) (keeps fr br)
      ?Q (\<lambda>fin. async_io_run ss k lu fin Write_op (io_op ctx cb fr br cond 0 [])) (c, s, w)"
    by (rule async_write_total [OF assms(1-7,11,15,16,8) run_closure_io assms(9,10,14,13) write_inv_start [OF assms(11)]])
  then have "completes_with k lu ev perform (io_call Write_op) (io_part A memory sink file n) (run_closure ss k lu) (feeds fr) (keeps fr br)
      ?Q (\<lambda>fin. async_write ss k lu fin fr br cond cb) (c, s, w)"
    using async_start(2) [OF assms(10,12)] by (rule completes_with_cong)
  then show ?thesis
  proof (rule completes_with_mono)
    fix cb' r and st :: "('f, 'x, 'w) async_state"
    have bytes: "map (mem_on A m) (take i (seq_addrs b)) = map m (take i (seq_addrs b))" for m i
      using assms(16) set_take_subset by (intro map_mem_on) fast
    assume "?Q cb' r st"
    then obtain out f' where "cb' = cb" "r = Size_result out" "fd_at (fst (snd st)) fr = Inr f'" "io_live f'" "\<forall>a \<in> A. memory (snd (snd st)) a = memory w a"
      "case out of Inl e \<Rightarrow> ring_error perform Write_op n e
       | Inr z \<Rightarrow> goal (buffer_size b) \<le> z \<and> z \<le> cap (buffer_size b) \<and>
           written sink file f w (map (memory w) (take (unat z) (seq_addrs b))) f' (snd (snd st))"
      unfolding async_write_post_def mem_on_eq_iff bytes by blast
    then show "?post cb' r st" by (cases st; cases out) auto
  qed
qed

theorem async_write_correct_witness:
  "completes_with demo_ring_clinux idle_liburing 3 demo_perform (io_call Write_op)
     (io_part (set (seq_addrs demo_buffer)) dw_mem (\<lambda>n w. dw_out w n) (\<lambda>n w. dw_file w n) 6)
     (run_closure plain_subspan demo_ring_clinux idle_liburing) (feeds (Seekable_ref 8192)) (keeps (Seekable_ref 8192) 16384)
     (\<lambda>cb' r (c', s', w'). cb' = ''handler'' \<and>
        (\<exists>out f'. r = Size_result out \<and> fd_at s' (Seekable_ref 8192) = Inr f' \<and> io_live f'
           \<and> (\<forall>a \<in> set (seq_addrs demo_buffer). dw_mem w' a = dw_mem demo_start a) \<and>
           (case out of
              Inl e \<Rightarrow> ring_error demo_perform Write_op 6 e
            | Inr z \<Rightarrow> buffer_size demo_buffer \<le> z \<and> z \<le> buffer_size demo_buffer
                \<and> written (\<lambda>n w. dw_out w n) (\<lambda>n w. dw_file w n) demo_file demo_start
                    (map (dw_mem demo_start) (take (unat z) (seq_addrs demo_buffer))) f' w')))
     (\<lambda>fin. async_write plain_subspan demo_ring_clinux idle_liburing fin (Seekable_ref 8192) 16384 transfer_all_t ''handler'')
     (ready_context, demo_store, demo_start)"
  by (rule async_write_correct [OF demo_ring_laws(3,4,5) demo_cqe_res_range gsl_subspan_plain
      transfer_all.completion_condition_axioms demo_buffer_fits demo_ring_ok demo_context_ready
      demo_objects(2) demo_fds(4-6) demo_objects(3) demo_fds(8) subset_refl])

end
